(* ===== verification/Chat_Prelude.thy ===== *)
theory Chat_Prelude
  imports Main "HOL-Library.Word"
begin

text \<open>
  Shared vocabulary of the development: the integer types of \<^verbatim>\<open>src/src/core/defines.h\<close>,
  the result type of every operation that can go wrong in C, its sequencing operator with the
  rules that take it apart, and the fact collections the component theories add to.

  A result is a value of \<open>(fault + 'a) option\<close>. \<open>None\<close> is a computation that never
  returns (a pointer chase around a cycle), \<open>Some (Inl f)\<close> is the undefined behaviour or
  the blocked call \<open>f\<close>, \<open>Some (Inr x)\<close> is a normal return of \<open>x\<close>.
\<close>

unbundle bit_operations_syntax

section \<open>Integer types\<close>

type_synonym u8 = "8 word"
type_synonym u16 = "16 word"
type_synonym u32 = "32 word"
type_synonym u64 = "64 word"
type_synonym byte = "8 word"

lemma unat_byte_less [simp]: "unat (b :: byte) < 256"
  using unsigned_less [of b, where 'a = nat] by simp

section \<open>Results\<close>

text \<open>
  The ways a C operation of the program can leave its defined behaviour, or stop for ever.
  \<open>Deadlock\<close> is a mutex taken while it is already held, \<open>Int_Overflow\<close> a number that does not fit
  the type a conversion promises.
\<close>

datatype fault =
    Out_Of_Bounds
  | Null_Deref
  | Dangling
  | Uninit_Read
  | Deadlock
  | Assert_Failed
  | Int_Overflow

type_synonym 'a res = "(fault + 'a) option"

abbreviation ret :: "'a \<Rightarrow> 'a res" where
  "ret x \<equiv> Some (Inr x)"

abbreviation fail :: "fault \<Rightarrow> 'a res" where
  "fail e \<equiv> Some (Inl e)"

fun bindR :: "'a res \<Rightarrow> ('a \<Rightarrow> 'b res) \<Rightarrow> 'b res" where
  "bindR None f = None"
| "bindR (Some (Inl e)) f = Some (Inl e)"
| "bindR (Some (Inr x)) f = f x"

definition guardR :: "bool \<Rightarrow> fault \<Rightarrow> unit res" where
  "guardR b e = (if b then ret () else fail e)"

lemma bindR_eq_bind: "bindR m f = Option.bind m (case_sum (\<lambda>e. Some (Inl e)) f)"
  by (cases "(m, f)" rule: bindR.cases) auto

lemma bindR_ret_iff: "bindR m f = ret y \<longleftrightarrow> (\<exists>x. m = ret x \<and> f x = ret y)"
  by (cases "(m, f)" rule: bindR.cases) auto

lemma bindR_fail_iff:
  "bindR m f = fail e \<longleftrightarrow> m = fail e \<or> (\<exists>x. m = ret x \<and> f x = fail e)"
  by (cases "(m, f)" rule: bindR.cases) auto

lemma bindR_None_iff: "bindR m f = None \<longleftrightarrow> m = None \<or> (\<exists>x. m = ret x \<and> f x = None)"
  by (cases "(m, f)" rule: bindR.cases) auto

lemma bindR_assoc: "bindR (bindR m f) g = bindR m (\<lambda>x. bindR (f x) g)"
  by (cases "(m, f)" rule: bindR.cases) auto

lemma bindR_ret_right [simp]: "bindR m (\<lambda>x. ret x) = m"
  by (cases m) (auto split: sum.splits, metis bindR.simps(2,3) sum.exhaust)

lemma bindR_cong [fundef_cong]:
  "m = m' \<Longrightarrow> (\<And>x. m' = ret x \<Longrightarrow> f x = f' x) \<Longrightarrow> bindR m f = bindR m' f'"
  by (cases "(m, f)" rule: bindR.cases) auto

lemma bindR_if: "bindR (if b then m else n) f = (if b then bindR m f else bindR n f)"
  by simp

lemma guardR_simps [simp]:
  "guardR True e = ret ()" "guardR False e = fail e"
  by (simp_all add: guardR_def)

lemma guardR_ret_iff [simp]: "guardR b e = ret u \<longleftrightarrow> b"
  by (simp add: guardR_def)

lemma guardR_fail_iff [simp]: "guardR b e = fail f \<longleftrightarrow> \<not> b \<and> e = f"
  by (auto simp: guardR_def)

lemma guardR_not_None [simp]: "guardR b e \<noteq> None"
  by (simp add: guardR_def)

text \<open>Whether a result is a normal return, and its value: for evaluating runs.\<close>

definition is_ret :: "'a res \<Rightarrow> bool" where
  "is_ret r \<longleftrightarrow> (case r of Some (Inr _) \<Rightarrow> True | _ \<Rightarrow> False)"

definition the_ret :: "'a res \<Rightarrow> 'a" where
  "the_ret r = projr (the r)"

lemma is_ret_the: "is_ret r \<Longrightarrow> r = ret (the_ret r)"
  by (auto simp: is_ret_def the_ret_def split: option.splits sum.splits)

text \<open>Recursion under \<^const>\<open>bindR\<close> is monotone, so loops can be defined through it.\<close>

lemma bindR_mono [partial_function_mono]:
  assumes "mono_option B" and "\<And>y. mono_option (\<lambda>f. C y f)"
  shows "mono_option (\<lambda>f. bindR (B f) (\<lambda>y. C y f))"
proof -
  have "mono_option (\<lambda>f. case_sum (\<lambda>e. Some (Inl e)) (\<lambda>y. C y f) z)" for z
    using assms(2) by (cases z) (auto intro: option.const_mono)
  then show ?thesis
    unfolding bindR_eq_bind using assms(1) by (intro bind_mono) auto
qed

section \<open>Fact collections\<close>

named_theorems buf_simps \<open>reading and writing fixed-size C buffers\<close>
named_theorems wire_simps \<open>fields of the packed message structures\<close>
named_theorems user_simps \<open>the user list and its accessors\<close>

section \<open>Lists\<close>

lemma takeWhile_nonzero [simp]:
  "(0::'a::zero) \<notin> set s \<Longrightarrow> takeWhile (\<lambda>c. c \<noteq> 0) s = s"
  by (induction s) auto

lemma takeWhile_nonzero_NUL [simp]:
  "(0::'a::zero) \<notin> set s \<Longrightarrow> takeWhile (\<lambda>c. c \<noteq> 0) (s @ 0 # r) = s"
  by (induction s) auto

lemma dom_single_None: "dom h = {p} \<Longrightarrow> h(p := None) = Map.empty"
  by (rule ext) (auto simp: domIff dest!: equalityD1)

lemma takeWhile_append_member:
  "x \<in> set xs \<Longrightarrow> \<not> P x \<Longrightarrow> takeWhile P (xs @ ys) = takeWhile P xs"
  by (induction xs) auto

lemma length_takeWhile_less_iff: "length (takeWhile P xs) < length xs \<longleftrightarrow> (\<exists>x \<in> set xs. \<not> P x)"
  by (induction xs) auto

lemma takeWhile_replicate_False: "\<not> P x \<Longrightarrow> takeWhile P (replicate n x) = []"
  by (cases n) auto

lemma takeWhile_take:
  "length (takeWhile P xs) \<le> n \<Longrightarrow> takeWhile P (take n xs) = takeWhile P xs"
proof (induction xs arbitrary: n)
  case (Cons x xs)
  then show ?case by (cases n) auto
qed simp

lemma map_nth_upt_drop:
  "i + n \<le> length xs \<Longrightarrow> map (\<lambda>k. xs ! (i + k)) [0..<n] = take n (drop i xs)"
  by (auto intro!: nth_equalityI)

end
