(* ===== verification/CLib.thy ===== *)
theory CLib
  imports Chat_Prelude
begin

text \<open>
  The part of the C standard library the program uses, over byte buffers. An object of \<open>n\<close>
  bytes is a list of length \<open>n\<close>; every access checks it stays inside the object it is given,
  and is \<^const>\<open>Out_Of_Bounds\<close> otherwise. The functions here are the library's, not the
  program's: they are the vocabulary the component theories are written in.
\<close>

section \<open>Literals\<close>

definition bytes_of :: "string \<Rightarrow> byte list" where
  "bytes_of s = map of_char s"

lemma length_bytes_of [simp]: "length (bytes_of s) = length s"
  by (simp add: bytes_of_def)

lemma bytes_of_append: "bytes_of (s @ t) = bytes_of s @ bytes_of t"
  by (simp add: bytes_of_def)

section \<open>Blocks of memory: memset, memcpy, slices\<close>

definition mem_write :: "byte list \<Rightarrow> nat \<Rightarrow> byte list \<Rightarrow> byte list res" where
  "mem_write buf off bs =
     (if off + length bs \<le> length buf
      then ret (take off buf @ bs @ drop (off + length bs) buf) else fail Out_Of_Bounds)"

definition bslice :: "byte list \<Rightarrow> nat \<Rightarrow> nat \<Rightarrow> byte list" where
  "bslice buf off n = take n (drop off buf)"

definition mem_read :: "byte list \<Rightarrow> nat \<Rightarrow> nat \<Rightarrow> byte list res" where
  "mem_read buf off n =
     (if off + n \<le> length buf then ret (bslice buf off n) else fail Out_Of_Bounds)"

text \<open>The result of a write that is known to fit.\<close>

definition patch :: "byte list \<Rightarrow> nat \<Rightarrow> byte list \<Rightarrow> byte list" where
  "patch buf off bs = take off buf @ bs @ drop (off + length bs) buf"

lemma mem_write_eq [buf_simps]:
  "off + length bs \<le> length buf \<Longrightarrow> mem_write buf off bs = ret (patch buf off bs)"
  by (simp add: mem_write_def patch_def)

lemma mem_write_fail [buf_simps]:
  "length buf < off + length bs \<Longrightarrow> mem_write buf off bs = fail Out_Of_Bounds"
  by (simp add: mem_write_def)

lemma mem_write_ret_iff:
  "mem_write buf off bs = ret b \<longleftrightarrow> off + length bs \<le> length buf \<and> b = patch buf off bs"
  by (auto simp: mem_write_def patch_def)

lemma mem_write_not_None [simp]: "mem_write buf off bs \<noteq> None"
  by (simp add: mem_write_def)

lemma mem_read_eq [buf_simps]:
  "off + n \<le> length buf \<Longrightarrow> mem_read buf off n = ret (bslice buf off n)"
  by (simp add: mem_read_def)

lemma length_patch [simp]:
  "off + length bs \<le> length buf \<Longrightarrow> length (patch buf off bs) = length buf"
  by (simp add: patch_def)

lemma nth_patch:
  "off + length bs \<le> length buf \<Longrightarrow> i < length buf \<Longrightarrow>
   patch buf off bs ! i =
     (if off \<le> i \<and> i < off + length bs then bs ! (i - off) else buf ! i)"
  by (auto simp: patch_def nth_append min_def)

text \<open>What a bslice of a patched buffer holds: the patch, or what was there before.\<close>

lemma length_bslice [simp]: "off + n \<le> length buf \<Longrightarrow> length (bslice buf off n) = n"
  by (simp add: bslice_def)

lemma bslice_patch_same [buf_simps]:
  "off + n \<le> length buf \<Longrightarrow> n = length bs \<Longrightarrow> bslice (patch buf off bs) off n = bs"
  by (simp add: patch_def bslice_def)

lemma bslice_patch_other [buf_simps]:
  assumes "off + length bs \<le> length buf"
    and "i + n \<le> off \<or> off + length bs \<le> i"
  shows "bslice (patch buf off bs) i n = bslice buf i n"
proof (cases "i + n \<le> length buf")
  case True
  then show ?thesis
    using assms by (intro nth_equalityI) (auto simp: nth_patch bslice_def)
next
  case False
  with assms have "off + length bs \<le> i" by auto
  then show ?thesis using assms by (simp add: patch_def bslice_def)
qed

lemma drop_patch_same [buf_simps]:
  "off + length bs \<le> length buf \<Longrightarrow> drop off (patch buf off bs) = bs @ drop (off + length bs) buf"
  by (simp add: patch_def)

lemma drop_patch_other [buf_simps]:
  "off + length bs \<le> length buf \<Longrightarrow> off + length bs \<le> i \<Longrightarrow>
   drop i (patch buf off bs) = drop i buf"
  by (simp add: patch_def)

lemma nth_patch_other [buf_simps]:
  "off + length bs \<le> length buf \<Longrightarrow> i < off \<or> off + length bs \<le> i \<Longrightarrow> i < length buf \<Longrightarrow>
   patch buf off bs ! i = buf ! i"
  by (auto simp: nth_patch)

lemma nth_patch_single [buf_simps]:
  "off < length buf \<Longrightarrow> patch buf off [b] ! off = b"
  by (simp add: nth_patch)

text \<open>A prefix of a buffer, cut where a field begins.\<close>

lemma take_bslice: "i \<le> n \<Longrightarrow> take n buf = take i buf @ bslice buf i (n - i)"
  by (simp add: bslice_def flip: take_add)

lemma bslice_add: "bslice buf off (a + b) = bslice buf off a @ bslice buf (off + a) b"
  by (simp add: bslice_def take_add add.commute flip: drop_drop)

lemma bslice_drop: "bslice buf off n = take n (drop off buf)"
  by (simp add: bslice_def)

lemma bslice_replicate [simp]:
  "off + n \<le> k \<Longrightarrow> bslice (replicate k x) off n = replicate n x"
  by (simp add: bslice_def)

section \<open>Strings\<close>

text \<open>The bytes before the first NUL. A buffer without a NUL is read past its end.\<close>

definition c_string :: "byte list \<Rightarrow> byte list res" where
  "c_string b = (if 0 \<in> set b then ret (takeWhile (\<lambda>c. c \<noteq> 0) b) else fail Out_Of_Bounds)"

definition c_strlen :: "byte list \<Rightarrow> nat res" where
  "c_strlen b = bindR (c_string b) (\<lambda>s. ret (length s))"

fun c_streq :: "byte list \<Rightarrow> byte list \<Rightarrow> bool res" where
  "c_streq [] ys = fail Out_Of_Bounds"
| "c_streq (x # xs) [] = fail Out_Of_Bounds"
| "c_streq (x # xs) (y # ys) =
     (if x \<noteq> y then ret False else if x = 0 then ret True else c_streq xs ys)"

text \<open>
  \<^verbatim>\<open>strncpy(dst + off, src, n)\<close> reads \<open>src\<close> up to its NUL or \<open>n\<close> bytes, and always
  writes exactly \<open>n\<close> bytes: the string, then zeros. No NUL is written when the string has
  \<open>n\<close> bytes or more.
\<close>

definition strncpy_image :: "byte list \<Rightarrow> nat \<Rightarrow> byte list" where
  "strncpy_image src n =
     (let s = takeWhile (\<lambda>c. c \<noteq> 0) (take n src) in s @ replicate (n - length s) 0)"

definition c_strncpy :: "byte list \<Rightarrow> nat \<Rightarrow> byte list \<Rightarrow> nat \<Rightarrow> byte list res" where
  "c_strncpy dst off src n =
     (if off + n \<le> length dst \<and> (n \<le> length src \<or> 0 \<in> set src)
      then mem_write dst off (strncpy_image src n) else fail Out_Of_Bounds)"

definition c_strcpy :: "byte list \<Rightarrow> nat \<Rightarrow> byte list \<Rightarrow> byte list res" where
  "c_strcpy dst off src = bindR (c_string src) (\<lambda>s. mem_write dst off (s @ [0]))"

text \<open>\<^verbatim>\<open>vsnprintf(dst, n, ...)\<close> of a formatted text: at most \<open>n - 1\<close> bytes of it, then a NUL.\<close>

definition c_snprintf :: "byte list \<Rightarrow> nat \<Rightarrow> byte list \<Rightarrow> byte list res" where
  "c_snprintf dst n txt = (if n = 0 then ret dst else mem_write dst 0 (take (n - 1) txt @ [0]))"

lemma length_strncpy_image [simp]: "length (strncpy_image src n) = n"
proof -
  have "length (takeWhile (\<lambda>c. c \<noteq> 0) (take n src)) \<le> n"
    by (rule order_trans [OF length_takeWhile_le]) simp
  then show ?thesis by (simp add: strncpy_image_def Let_def)
qed

lemma NUL_strncpy_image:
  assumes "n = length src"
  shows "0 \<in> set (strncpy_image src n) \<longleftrightarrow> 0 \<in> set src"
proof (cases "0 \<in> set src")
  case True
  then have "length (takeWhile (\<lambda>c. c \<noteq> 0) src) < n"
    using length_takeWhile_less_iff [of "\<lambda>c. c \<noteq> 0" src] assms by auto
  with True assms show ?thesis by (simp add: strncpy_image_def Let_def)
next
  case False
  with assms show ?thesis by (simp add: strncpy_image_def Let_def)
qed

lemma c_strncpy_eq [buf_simps]:
  "off + n \<le> length dst \<Longrightarrow> n \<le> length src \<or> 0 \<in> set src \<Longrightarrow>
   c_strncpy dst off src n = ret (patch dst off (strncpy_image src n))"
  by (simp add: c_strncpy_def buf_simps)

lemma c_strncpy_fail [buf_simps]:
  "length dst < off + n \<Longrightarrow> c_strncpy dst off src n = fail Out_Of_Bounds"
  by (simp add: c_strncpy_def)

lemma c_strncpy_not_None [simp]: "c_strncpy dst off src n \<noteq> None"
  by (simp add: c_strncpy_def mem_write_def)

lemma strncpy_image_short:
  assumes "0 \<notin> set s" and "length s \<le> n"
  shows "strncpy_image (s @ 0 # r) n = s @ replicate (n - length s) 0"
proof -
  have tk: "take n (s @ 0 # r) = s @ take (n - length s) (0 # r)"
    using assms(2) by simp
  have "takeWhile (\<lambda>c. c \<noteq> 0) (take n (s @ 0 # r)) = s"
    unfolding tk using assms(1) by (subst takeWhile_append2) (auto simp: take_Cons split: nat.split)
  then show ?thesis by (simp add: strncpy_image_def Let_def)
qed

lemma strncpy_image_exact:
  assumes "0 \<notin> set s" and "n = length s"
  shows "strncpy_image (s @ r) n = s"
  using assms by (simp add: strncpy_image_def Let_def)

lemma c_string_app [buf_simps]: "0 \<notin> set s \<Longrightarrow> c_string (s @ 0 # r) = ret s"
  by (simp add: c_string_def)

lemma c_string_ret_iff:
  "c_string b = ret s \<longleftrightarrow> (\<exists>r. b = s @ 0 # r) \<and> 0 \<notin> set s"
proof
  assume h: "c_string b = ret s"
  then have "0 \<in> set b" and s: "s = takeWhile (\<lambda>c. c \<noteq> 0) b"
    by (auto simp: c_string_def split: if_splits)
  then obtain p r where "b = p @ 0 # r" "0 \<notin> set p"
    by (meson split_list_first)
  moreover from this s have "s = p" by simp
  ultimately show "(\<exists>r. b = s @ 0 # r) \<and> 0 \<notin> set s" by auto
next
  assume "(\<exists>r. b = s @ 0 # r) \<and> 0 \<notin> set s"
  then show "c_string b = ret s" by (auto simp: buf_simps)
qed

lemma c_string_nonzero: "c_string b = ret s \<Longrightarrow> 0 \<notin> set s"
  by (simp add: c_string_ret_iff)

lemma c_string_less: "c_string b = ret s \<Longrightarrow> length s < length b"
  by (auto simp: c_string_ret_iff)

lemma c_string_take: "c_string b = ret s \<Longrightarrow> take (length s) b = s"
  by (auto simp: c_string_ret_iff)

lemma c_string_not_None [simp]: "c_string b \<noteq> None"
  by (simp add: c_string_def)

lemma NUL_in_c_string: "c_string b = ret s \<Longrightarrow> 0 \<in> set b"
  by (auto simp: c_string_ret_iff)

lemma c_string_padded [buf_simps]:
  "0 \<notin> set s \<Longrightarrow> 0 < n \<Longrightarrow> c_string (s @ replicate n 0 @ r) = ret s"
  by (cases n) (auto intro: c_string_app)

lemma c_string_padded_end [buf_simps]:
  "0 \<notin> set s \<Longrightarrow> 0 < n \<Longrightarrow> c_string (s @ replicate n 0) = ret s"
  using c_string_padded [of s n "[]"] by simp

lemma c_string_replicate [buf_simps]: "0 < n \<Longrightarrow> c_string (replicate n 0) = ret []"
  using c_string_padded_end [of "[]" n] by simp

text \<open>What \<open>strncpy\<close> writes for a string: its first \<open>n\<close> bytes, then zeros.\<close>

lemma strncpy_image_string:
  assumes "c_string src = ret s"
  shows "strncpy_image src n = take n s @ replicate (n - length s) 0"
proof -
  obtain r where src: "src = s @ 0 # r" and nz: "0 \<notin> set s"
    using assms by (auto simp: c_string_ret_iff)
  show ?thesis
  proof (cases "length s \<le> n")
    case True
    then show ?thesis unfolding src by (simp add: strncpy_image_short nz)
  next
    case False
    moreover have "0 \<notin> set (take n s)" using nz by (meson in_set_takeD)
    ultimately show ?thesis unfolding src by (simp add: strncpy_image_def Let_def)
  qed
qed

lemma strncpy_image_split:
  assumes "c_string src = ret s"
  obtains s' where "s' = take n s" and "strncpy_image src n = s' @ replicate (n - length s') 0"
    and "0 \<notin> set s'" and "length s' \<le> n"
proof (rule that)
  show "strncpy_image src n = take n s @ replicate (n - length (take n s)) 0"
    using strncpy_image_string [OF assms, of n] by (simp add: min_def)
  show "0 \<notin> set (take n s)"
    using c_string_nonzero [OF assms] by (meson in_set_takeD)
qed simp_all

lemma c_streq_iff [buf_simps]:
  assumes "0 \<notin> set s" and "0 \<notin> set t"
  shows "c_streq (s @ 0 # r) (t @ 0 # q) = ret (s = t)"
  using assms
proof (induction s arbitrary: t)
  case Nil
  then show ?case by (cases t) auto
next
  case (Cons x s)
  then show ?case by (cases t) auto
qed

lemma c_streq_strings:
  "c_string a = ret s \<Longrightarrow> c_string b = ret t \<Longrightarrow> c_streq a b = ret (s = t)"
  by (auto simp: c_string_ret_iff buf_simps)

lemma c_streq_not_None [simp]: "c_streq a b \<noteq> None"
  by (induction a b rule: c_streq.induct) auto

section \<open>Character classes of the C locale\<close>

definition c_isspace :: "byte \<Rightarrow> bool" where
  "c_isspace c \<longleftrightarrow> c = 32 \<or> 9 \<le> c \<and> c \<le> 13"

definition c_isgraph :: "byte \<Rightarrow> bool" where
  "c_isgraph c \<longleftrightarrow> 33 \<le> c \<and> c \<le> 126"

section \<open>printf conversions\<close>

text \<open>
  \<open>fmt_d\<close> is \<^verbatim>\<open>%d\<close> (also \<^verbatim>\<open>%ld\<close>, \<^verbatim>\<open>%lld\<close>), \<open>fmt_0d w\<close> is \<^verbatim>\<open>%0wd\<close>,
  \<open>fmt_u\<close> is \<^verbatim>\<open>%lu\<close> and \<^verbatim>\<open>%ju\<close>, \<open>fmt_x\<close> and \<open>fmt_0x w\<close> are \<^verbatim>\<open>%x\<close> and \<^verbatim>\<open>%0wx\<close>.
\<close>

definition digit_byte :: "nat \<Rightarrow> byte" where
  "digit_byte d = (if d < 10 then of_nat (48 + d) else of_nat (87 + d))"

fun fmt_base :: "nat \<Rightarrow> nat \<Rightarrow> byte list" where
  "fmt_base b n =
     (if b < 2 \<or> n < b then [digit_byte n] else fmt_base b (n div b) @ [digit_byte (n mod b)])"

declare fmt_base.simps [simp del]

definition pad_zero :: "nat \<Rightarrow> byte list \<Rightarrow> byte list" where
  "pad_zero w s = replicate (w - length s) 48 @ s"

definition fmt_u :: "nat \<Rightarrow> byte list" where
  "fmt_u n = fmt_base 10 n"

definition fmt_d :: "int \<Rightarrow> byte list" where
  "fmt_d i = (if i < 0 then 45 # fmt_base 10 (nat (- i)) else fmt_base 10 (nat i))"

definition fmt_0d :: "nat \<Rightarrow> int \<Rightarrow> byte list" where
  "fmt_0d w i =
     (if i < 0 then 45 # pad_zero (w - 1) (fmt_base 10 (nat (- i)))
      else pad_zero w (fmt_base 10 (nat i)))"

definition fmt_x :: "nat \<Rightarrow> byte list" where
  "fmt_x n = fmt_base 16 n"

definition fmt_0x :: "nat \<Rightarrow> nat \<Rightarrow> byte list" where
  "fmt_0x w n = pad_zero w (fmt_base 16 n)"

lemma fmt_base_nonempty [simp]: "fmt_base b n \<noteq> []"
  by (subst fmt_base.simps) simp

lemma length_fmt_0x_byte: "n < 256 \<Longrightarrow> length (fmt_0x 2 n) = 2"
proof -
  assume "n < 256"
  then have "n < 16 \<or> n div 16 < 16" by auto
  then show ?thesis
    by (auto simp: fmt_0x_def pad_zero_def fmt_base.simps [of 16 n] fmt_base.simps [of 16 "n div 16"])
qed

end
