(* ===== verification/Byte_Order.thy ===== *)
theory Byte_Order
  imports CLib
begin

text \<open>
  Integers in memory: the bytes an unsigned integer occupies on a host of either byte order,
  the network image of a value, and the C library's \<^verbatim>\<open>htons\<close>, \<^verbatim>\<open>htonl\<close> and their
  inverses. The interface \<open>net_order\<close> is what the message code relies on: the converted value
  has the network image in memory, and converting back returns the value.
\<close>

section \<open>Memory images\<close>

datatype endian = Little | Big

definition word_bytes :: "'a::len word \<Rightarrow> nat" where
  "word_bytes x = LENGTH('a) div 8"

text \<open>The network image: most significant byte first.\<close>

definition net_image :: "'a::len word \<Rightarrow> byte list" where
  "net_image x = rev (map (\<lambda>i. ucast (drop_bit (8 * i) x)) [0..<word_bytes x])"

definition mem_of_word :: "endian \<Rightarrow> 'a::len word \<Rightarrow> byte list" where
  "mem_of_word e x = (case e of Little \<Rightarrow> rev (net_image x) | Big \<Rightarrow> net_image x)"

fun horner :: "byte list \<Rightarrow> 'a::len word \<Rightarrow> 'a word" where
  "horner [] h = h"
| "horner (b # bs) h = horner bs (push_bit 8 h OR ucast b)"

definition word_of_mem :: "endian \<Rightarrow> byte list \<Rightarrow> 'a::len word" where
  "word_of_mem e bs = (case e of Little \<Rightarrow> horner (rev bs) 0 | Big \<Rightarrow> horner bs 0)"

definition net_value :: "byte list \<Rightarrow> 'a::len word" where
  "net_value bs = horner bs 0"

lemma word_bytes_simps [simp]:
  "word_bytes (x16 :: u16) = 2" "word_bytes (x32 :: u32) = 4" "word_bytes (x64 :: u64) = 8"
  by (simp_all add: word_bytes_def)

lemma length_net_image [simp]: "length (net_image x) = word_bytes x"
  by (simp add: net_image_def)

lemma length_mem_of_word [simp]: "length (mem_of_word e x) = word_bytes x"
  by (cases e) (simp_all add: mem_of_word_def)

lemma nth_net_image:
  "i < word_bytes x \<Longrightarrow> net_image x ! i = ucast (drop_bit (8 * (word_bytes x - Suc i)) x)"
  by (simp add: net_image_def rev_nth)

lemma bit_net_image:
  "i < word_bytes x \<Longrightarrow> n < 8 \<Longrightarrow>
   bit (net_image x ! i) n \<longleftrightarrow> bit x (8 * (word_bytes x - Suc i) + n)"
  by (simp add: nth_net_image bit_ucast_iff bit_drop_bit_eq)

lemma horner_append: "horner (xs @ ys) h = horner ys (horner xs h)"
  by (induction xs arbitrary: h) auto

lemma bit_horner:
  fixes h :: "'a::len word"
  shows "bit (horner bs h) n \<longleftrightarrow>
     n < LENGTH('a) \<and> (if n < 8 * length bs then bit (rev bs ! (n div 8)) (n mod 8)
               else bit h (n - 8 * length bs))"
proof (induction bs arbitrary: n rule: rev_induct)
  case Nil
  then show ?case by (auto dest: bit_imp_le_length)
next
  case (snoc b bs)
  have step: "horner (bs @ [b]) h = push_bit 8 (horner bs h) OR ucast b"
    by (simp add: horner_append)
  show ?case
  proof (cases "n < 8")
    case True
    then show ?thesis
      by (simp add: step bit_or_iff bit_push_bit_iff bit_ucast_iff)
  next
    case False
    then have "n div 8 = Suc ((n - 8) div 8)" and "n mod 8 = (n - 8) mod 8"
      by (simp_all add: le_div_geq le_mod_geq)
    moreover have "\<not> bit b n" using False bit_imp_le_length [of b n] by auto
    ultimately show ?thesis
      using False snoc.IH [of "n - 8"]
      by (cases "n < LENGTH('a)")
         (simp_all add: step bit_or_iff bit_push_bit_iff bit_ucast_iff less_diff_conv2)
  qed
qed

lemma horner_net_image:
  fixes x :: "'a::len word"
  assumes "8 dvd LENGTH('a)"
  shows "(horner (net_image x) 0 :: 'a word) = x"
proof (rule bit_word_eqI)
  fix n assume n: "n < LENGTH('a)"
  have w: "8 * word_bytes x = LENGTH('a)" using assms by (simp add: word_bytes_def)
  then have i: "n div 8 < word_bytes x" using n by auto
  have "bit (rev (net_image x) ! (n div 8)) (n mod 8) \<longleftrightarrow> bit x (8 * (n div 8) + n mod 8)"
    using i by (simp add: rev_nth bit_net_image)
  then show "bit (horner (net_image x) 0 :: 'a word) n = bit x n"
    using n w by (simp add: bit_horner)
qed

lemma net_image_horner:
  assumes "8 dvd LENGTH('a)" and "8 * length bs = LENGTH('a::len)"
  shows "net_image (horner bs 0 :: 'a word) = bs"
proof (rule nth_equalityI)
  let ?x = "horner bs 0 :: 'a word"
  have w: "word_bytes ?x = length bs" unfolding word_bytes_def assms(2) [symmetric] by simp
  then show "length (net_image ?x) = length bs" by simp
  fix i assume "i < length (net_image ?x)"
  then have i: "i < length bs" by (simp add: w)
  show "net_image ?x ! i = bs ! i"
  proof (rule bit_word_eqI)
    fix n assume "n < LENGTH(8)"
    then have n: "n < 8" by simp
    have lt: "8 * (length bs - Suc i) + n < 8 * length bs" using i n by auto
    have "rev bs ! (length bs - Suc i) = bs ! i" using i by (simp add: rev_nth)
    then show "bit (net_image ?x ! i) n = bit (bs ! i) n"
      using n i lt assms(2) by (simp add: w bit_net_image bit_horner)
  qed
qed

text \<open>The three widths the code uses.\<close>

lemma net_value_net_image [simp]:
  "net_value (net_image (x16 :: u16)) = x16"
  "net_value (net_image (x32 :: u32)) = x32"
  "net_value (net_image (x64 :: u64)) = x64"
  by (simp_all add: net_value_def horner_net_image)

lemma net_image_net_value:
  "length bs = 2 \<Longrightarrow> net_image (net_value bs :: u16) = bs"
  "length bs = 4 \<Longrightarrow> net_image (net_value bs :: u32) = bs"
  "length bs = 8 \<Longrightarrow> net_image (net_value bs :: u64) = bs"
  by (simp_all add: net_value_def net_image_horner)

lemma word_of_mem_of_word [simp]:
  "word_of_mem e (mem_of_word e (x16 :: u16)) = x16"
  "word_of_mem e (mem_of_word e (x32 :: u32)) = x32"
  "word_of_mem e (mem_of_word e (x64 :: u64)) = x64"
  by (cases e; simp add: word_of_mem_def mem_of_word_def horner_net_image)+

lemma mem_of_word_of_mem:
  "length bs = 2 \<Longrightarrow> mem_of_word e (word_of_mem e bs :: u16) = bs"
  "length bs = 4 \<Longrightarrow> mem_of_word e (word_of_mem e bs :: u32) = bs"
  "length bs = 8 \<Longrightarrow> mem_of_word e (word_of_mem e bs :: u64) = bs"
  by (cases e; simp add: word_of_mem_def mem_of_word_def net_image_horner)+

section \<open>The byte-order interface\<close>

text \<open>
  A pair of conversions for one integer type: what \<open>to_net\<close> leaves in memory is the network
  image, and \<open>to_host\<close> undoes it. Memory holds every value unambiguously.
\<close>

locale net_order =
  fixes mem :: "'w \<Rightarrow> byte list"
    and image :: "'w \<Rightarrow> byte list"
    and to_net :: "'w \<Rightarrow> 'w"
    and to_host :: "'w \<Rightarrow> 'w"
  assumes mem_inj: "mem x = mem y \<Longrightarrow> x = y"
    and mem_to_net: "mem (to_net x) = image x"
    and to_host_to_net: "to_host (to_net x) = x"
begin

lemma to_net_inj: "to_net x = to_net y \<longleftrightarrow> x = y"
  using to_host_to_net by metis

text \<open>A receiver that finds the image of \<open>x\<close> in memory reads \<open>x\<close>.\<close>

lemma to_host_of_image: "mem z = image x \<Longrightarrow> to_host z = x"
  using mem_inj mem_to_net to_host_to_net by metis

lemma to_net_unique: "mem z = image x \<Longrightarrow> z = to_net x"
  using mem_inj mem_to_net by metis

end

section \<open>htons, htonl and their inverses\<close>

definition htons :: "endian \<Rightarrow> u16 \<Rightarrow> u16" where
  "htons e x = word_of_mem e (net_image x)"

definition ntohs :: "endian \<Rightarrow> u16 \<Rightarrow> u16" where
  "ntohs e x = net_value (mem_of_word e x)"

definition htonl :: "endian \<Rightarrow> u32 \<Rightarrow> u32" where
  "htonl e x = word_of_mem e (net_image x)"

definition ntohl :: "endian \<Rightarrow> u32 \<Rightarrow> u32" where
  "ntohl e x = net_value (mem_of_word e x)"

interpretation short: net_order "mem_of_word e :: u16 \<Rightarrow> byte list" net_image "htons e" "ntohs e"
proof (unfold_locales, goal_cases)
  case (1 x y) then show ?case by (metis word_of_mem_of_word(1))
next
  case (2 x) then show ?case by (simp add: htons_def mem_of_word_of_mem)
next
  case (3 x) then show ?case by (simp add: htons_def ntohs_def mem_of_word_of_mem)
qed

interpretation long: net_order "mem_of_word e :: u32 \<Rightarrow> byte list" net_image "htonl e" "ntohl e"
proof (unfold_locales, goal_cases)
  case (1 x y) then show ?case by (metis word_of_mem_of_word(2))
next
  case (2 x) then show ?case by (simp add: htonl_def mem_of_word_of_mem)
next
  case (3 x) then show ?case by (simp add: htonl_def ntohl_def mem_of_word_of_mem)
qed

text \<open>Bit by bit, on a little-endian host the conversion reverses the bytes.\<close>

lemma bit_htonl_Little:
  "bit (htonl Little x) n \<longleftrightarrow> n < 32 \<and> bit x (8 * (3 - n div 8) + n mod 8)"
proof (cases "n < 32")
  case True
  then have "n div 8 < 4" by auto
  then have "bit (net_image x ! (n div 8)) (n mod 8) \<longleftrightarrow> bit x (8 * (3 - n div 8) + n mod 8)"
    by (subst bit_net_image) simp_all
  then show ?thesis
    using True by (simp add: htonl_def word_of_mem_def bit_horner)
qed (auto dest: bit_imp_le_length)

end
