(* ===== verification/Util.thy ===== *)
theory Util
  imports Byte_Order
begin

text \<open>
  \<^verbatim>\<open>src/src/core/util.c\<close>: the 64-bit byte-order conversions, the name check, the module's
  flags and the hex dump. The byte order of the host is a parameter of the conversions, since
  the code reads it off the layout of a union at run time.
\<close>

section \<open>ntoh64u and hton64u\<close>

definition ntoh64u :: "endian \<Rightarrow> u64 \<Rightarrow> u64" where
  "ntoh64u e network64u = horner (mem_of_word e network64u) 0"

definition hton64u :: "endian \<Rightarrow> u64 \<Rightarrow> u64" where
  "hton64u e host64u =
     word_of_mem e
       (fold (\<lambda>i bytes. bytes[7 - i := ucast (drop_bit (i * 8) (host64u AND push_bit (i * 8) 0xff))])
             [0..<8] (replicate 8 0))"

lemma upt_0_8: "[0..<8] = [0, 1, 2, 3, 4, 5, 6, 7::nat]"
  by (simp add: upt_rec)

lemma masked_byte:
  "(ucast (drop_bit k (x AND push_bit k 0xff)) :: byte) = ucast (drop_bit k (x :: u64))"
proof -
  have ff: "(0xff :: u64) = mask 8" by (simp add: mask_eq_exp_minus_1)
  show ?thesis
    unfolding ff
    by (rule bit_word_eqI)
       (auto simp: bit_ucast_iff bit_drop_bit_eq bit_and_iff bit_push_bit_iff bit_mask_iff
             dest: bit_imp_le_length)
qed

lemma fill_from_end:
  "fold (\<lambda>i bytes. bytes[7 - i := f i]) [0..<8] (replicate 8 0) = rev (map f [0..<8])"
proof -
  have r: "replicate 8 0 = [0, 0, 0, 0, 0, 0, 0, 0]"
    by (simp add: numeral_eq_Suc)
  show ?thesis unfolding r upt_0_8 by simp
qed

lemma hton64u_eq: "hton64u e x = word_of_mem e (net_image x)"
  unfolding hton64u_def fill_from_end masked_byte
  by (simp add: net_image_def mult.commute)

interpretation util64: net_order "mem_of_word e :: u64 \<Rightarrow> byte list" net_image
  "hton64u e" "ntoh64u e"
proof (unfold_locales, goal_cases)
  case (1 x y) then show ?case by (metis word_of_mem_of_word(3))
next
  case (2 x) then show ?case by (simp add: hton64u_eq mem_of_word_of_mem)
next
  case (3 x)
  then show ?case
    by (simp add: hton64u_eq ntoh64u_def mem_of_word_of_mem horner_net_image)
qed

lemma hton64u_ntoh64u: "hton64u e (ntoh64u e x) = x"
proof -
  have "net_image (ntoh64u e x) = mem_of_word e x"
    unfolding ntoh64u_def by (rule net_image_horner) simp_all
  then show ?thesis by (simp add: hton64u_eq)
qed

section \<open>nameBytesValidate\<close>

text \<open>
  The loop over \<open>i\<close>, with the source's three rejections in order. \<open>s[i]\<close> is read as an
  unsigned byte; an index past the object is a read out of bounds.
\<close>

function name_validate_from :: "byte list \<Rightarrow> nat \<Rightarrow> nat \<Rightarrow> nat res" where
  "name_validate_from s i n =
     (if i < n then
        (if length s \<le> i then fail Out_Of_Bounds
         else if s ! i < 33 then ret i
         else if s ! i = 34 \<or> s ! i = 39 \<or> s ! i = 96 then ret i
         else if 127 \<le> s ! i then ret i
         else name_validate_from s (Suc i) n)
      else ret i)"
  by pat_completeness auto
termination
  by (relation "measure (\<lambda>(s, i, n). n - i)") auto

declare name_validate_from.simps [simp del]

definition nameBytesValidate :: "byte list \<Rightarrow> nat \<Rightarrow> nat res" where
  "nameBytesValidate input n = name_validate_from input 0 n"

text \<open>The bytes a name may have, as a set: printable ASCII without space and quotes.\<close>

definition name_byte_ok :: "byte \<Rightarrow> bool" where
  "name_byte_ok c \<longleftrightarrow> 33 \<le> c \<and> c \<le> 126 \<and> c \<notin> {34, 39, 96}"

lemma name_byte_ok_checks:
  "name_byte_ok c \<longleftrightarrow> \<not> c < 33 \<and> \<not> (c = 34 \<or> c = 39 \<or> c = 96) \<and> \<not> 127 \<le> c"
  by (auto simp: name_byte_ok_def word_less_nat_alt word_le_nat_alt)

lemma name_validate_from_prefix:
  "i \<le> n \<Longrightarrow> n \<le> length s \<Longrightarrow>
   name_validate_from s i n = ret (i + length (takeWhile name_byte_ok (drop i (take n s))))"
proof (induction s i n rule: name_validate_from.induct)
  case (1 s i n)
  show ?case
  proof (cases "i < n")
    case True
    then have d: "drop i (take n s) = s ! i # drop (Suc i) (take n s)"
      using "1.prems" by (simp add: Cons_nth_drop_Suc [symmetric])
    show ?thesis
      using True "1.prems" "1.IH"
      by (subst name_validate_from.simps) (auto simp: d name_byte_ok_checks [of "s ! i"])
  qed (use "1.prems" in \<open>simp add: name_validate_from.simps\<close>)
qed

section \<open>Module state\<close>

text \<open>
  \<open>prog_name\<close>, \<open>debug_enabled\<close> and \<open>style_enabled\<close>. The asserts of \<open>utilInit\<close> and
  \<open>getProgName\<close> are \<^const>\<open>Assert_Failed\<close>.
\<close>

record util_state =
  prog_name :: "byte list option"
  debug_enabled :: bool
  style_enabled :: bool

definition util_initial :: util_state where
  "util_initial = \<lparr>prog_name = None, debug_enabled = False, style_enabled = True\<rparr>"

definition utilInit :: "byte list \<Rightarrow> util_state \<Rightarrow> util_state res" where
  "utilInit argv0 s =
     bindR (guardR (prog_name s = None) Assert_Failed) (\<lambda>_. ret (s\<lparr>prog_name := Some argv0\<rparr>))"

definition getProgName :: "util_state \<Rightarrow> byte list res" where
  "getProgName s = (case prog_name s of None \<Rightarrow> fail Assert_Failed | Some p \<Rightarrow> ret p)"

definition debugEnable :: "util_state \<Rightarrow> util_state" where
  "debugEnable s = s\<lparr>debug_enabled := True\<rparr>"

definition debugEnabled :: "util_state \<Rightarrow> bool" where
  "debugEnabled s = debug_enabled s"

definition debugDisable :: "util_state \<Rightarrow> util_state" where
  "debugDisable s = s\<lparr>debug_enabled := False\<rparr>"

definition styleEnable :: "util_state \<Rightarrow> util_state" where
  "styleEnable s = s\<lparr>style_enabled := True\<rparr>"

definition styleEnabled :: "util_state \<Rightarrow> bool" where
  "styleEnabled s = style_enabled s"

definition styleDisable :: "util_state \<Rightarrow> util_state" where
  "styleDisable s = s\<lparr>style_enabled := False\<rparr>"

section \<open>Hex dump\<close>

text \<open>
  What \<open>vhexdump\<close> writes to \<^verbatim>\<open>stderr\<close>. Whether the stream is a terminal, the process id
  and the formatted prefix are arguments.
\<close>

datatype output_style = STYLE_NORMAL | STYLE_INFO | STYLE_ERROR | STYLE_DEBUG | STYLE_HEXDUMP

definition setStyle :: "util_state \<Rightarrow> bool \<Rightarrow> output_style \<Rightarrow> byte list" where
  "setStyle s tty style =
     (if style_enabled s \<and> tty
      then 27 # bytes_of (case style of
             STYLE_NORMAL \<Rightarrow> ''[0;39;49m''
           | STYLE_INFO \<Rightarrow> ''[1;39;49m''
           | STYLE_ERROR \<Rightarrow> ''[1;31;49m''
           | STYLE_DEBUG \<Rightarrow> ''[0;33;49m''
           | STYLE_HEXDUMP \<Rightarrow> ''[0;32;49m'')
      else [])"

definition printIdentifier :: "util_state \<Rightarrow> nat \<Rightarrow> byte list res" where
  "printIdentifier s pid =
     bindR (getProgName s) (\<lambda>p. ret (p @ bytes_of '' ['' @ fmt_u pid @ bytes_of '']: ''))"

definition hex_cell :: "byte \<Rightarrow> byte list" where
  "hex_cell b = fmt_0x 2 (unat b) @ [32]"

definition ascii_cell :: "byte \<Rightarrow> byte" where
  "ascii_cell b = (if c_isgraph b then b else 46)"

text \<open>The columns of one line: hex values, filling, the gap, the characters, the line end.\<close>

definition hexdump_columns :: "byte list \<Rightarrow> byte list" where
  "hexdump_columns chunk =
     concat (map hex_cell chunk) @ concat (replicate (16 - length chunk) [32, 32, 32])
       @ [32, 32, 32] @ map ascii_cell chunk @ [10]"

definition hexdump_line :: "byte list \<Rightarrow> nat \<Rightarrow> nat \<Rightarrow> byte list" where
  "hexdump_line array line columns =
     hexdump_columns (map (\<lambda>column. array ! (line * 16 + column)) [0..<columns])"

fun hexdump_lines ::
    "util_state \<Rightarrow> nat \<Rightarrow> byte list \<Rightarrow> nat \<Rightarrow> byte list \<Rightarrow> nat list \<Rightarrow> byte list res" where
  "hexdump_lines s pid array n prefix [] = ret []"
| "hexdump_lines s pid array n prefix (line # ls) =
     bindR (printIdentifier s pid) (\<lambda>ident.
       (let columns = (if n div 16 \<le> line then n mod 16 else 16)
        in bindR (guardR (line * 16 + columns \<le> length array) Out_Of_Bounds) (\<lambda>_.
             bindR (hexdump_lines s pid array n prefix ls) (\<lambda>rest.
               ret (ident @ prefix @ [58, 32] @ hexdump_line array line columns @ rest)))))"

definition vhexdump ::
    "util_state \<Rightarrow> bool \<Rightarrow> nat \<Rightarrow> byte list \<Rightarrow> nat \<Rightarrow> byte list \<Rightarrow> byte list res" where
  "vhexdump s tty pid array n prefix =
     (let fullLines = n div 16;
          incompleteLine = n mod 16;
          totalLines = (if incompleteLine \<noteq> 0 then fullLines + 1 else fullLines)
      in bindR (hexdump_lines s pid array n prefix [0..<totalLines]) (\<lambda>out.
           ret (setStyle s tty STYLE_HEXDUMP @ out @ setStyle s tty STYLE_NORMAL)))"

definition hexdump ::
    "util_state \<Rightarrow> bool \<Rightarrow> nat \<Rightarrow> byte list \<Rightarrow> nat \<Rightarrow> byte list \<Rightarrow> byte list res" where
  "hexdump s tty pid array n prefix = vhexdump s tty pid array n prefix"

definition debugHexdump ::
    "util_state \<Rightarrow> bool \<Rightarrow> nat \<Rightarrow> byte list \<Rightarrow> nat \<Rightarrow> byte list \<Rightarrow> byte list res" where
  "debugHexdump s tty pid array n prefix =
     (if debug_enabled s then vhexdump s tty pid array n prefix else ret [])"

text \<open>
  The stream it goes to, for the thread that dumps: how often the thread holds the stream's lock, which
  can be taken again by its holder, whether the thread can be cancelled, and what is written and not yet
  flushed.
\<close>

record stream =
  lock_count :: nat
  cancel_enabled :: bool
  unflushed :: "byte list"
  flushed :: "byte list"

definition lockFile :: "stream \<Rightarrow> bool \<times> stream" where
  "lockFile file =
     (let oldState = cancel_enabled file;
          file = file\<lparr>cancel_enabled := False\<rparr>
      in (oldState, file\<lparr>lock_count := lock_count file + 1\<rparr>))"

definition unlockFile :: "stream \<Rightarrow> bool \<Rightarrow> stream" where
  "unlockFile file savedCancelState =
     (let file = file\<lparr>flushed := flushed file @ unflushed file, unflushed := []\<rparr>;
          file = file\<lparr>lock_count := lock_count file - 1\<rparr>
      in file\<lparr>cancel_enabled := savedCancelState\<rparr>)"

definition vhexdump_to ::
    "util_state \<Rightarrow> bool \<Rightarrow> nat \<Rightarrow> byte list \<Rightarrow> nat \<Rightarrow> byte list \<Rightarrow> stream \<Rightarrow> stream res" where
  "vhexdump_to s tty pid array n prefix stderr =
     (let (savedCancelState, stderr) = lockFile stderr
      in bindR (vhexdump s tty pid array n prefix) (\<lambda>text.
           ret (unlockFile (stderr\<lparr>unflushed := unflushed stderr @ text\<rparr>) savedCancelState)))"

text \<open>A dump leaves the lock and the cancellation of the thread as they were, and nothing unflushed.\<close>

lemma vhexdump_to_restores:
  assumes "vhexdump_to s tty pid array n prefix f = ret f'"
  shows "\<exists>text. vhexdump s tty pid array n prefix = ret text \<and> lock_count f' = lock_count f
    \<and> cancel_enabled f' = cancel_enabled f \<and> unflushed f' = [] \<and> flushed f' = flushed f @ unflushed f @ text"
  using assms by (auto simp: vhexdump_to_def lockFile_def unlockFile_def bindR_ret_iff)

text \<open>
  The reference: the dumped bytes cut into chunks of sixteen, each shown on a line of its own.
\<close>

fun chunks16 :: "byte list \<Rightarrow> byte list list" where
  "chunks16 [] = []"
| "chunks16 (b # bs) = take 16 (b # bs) # chunks16 (drop 16 (b # bs))"

lemma concat_chunks16: "concat (chunks16 bs) = bs"
  by (induction bs rule: chunks16.induct) (simp_all add: append_take_drop_id)

lemma length_chunks16: "c \<in> set (chunks16 bs) \<Longrightarrow> length c \<le> 16"
  by (induction bs rule: chunks16.induct) auto

lemma length_hexdump_columns:
  "length chunk \<le> 16 \<Longrightarrow> length (hexdump_columns chunk) = 52 + length chunk"
proof -
  assume le: "length chunk \<le> 16"
  have cells: "length (concat (map hex_cell xs)) = 3 * length xs" for xs
    by (induction xs) (simp_all add: hex_cell_def length_fmt_0x_byte)
  have fill: "length (concat (replicate k [32, 32, 32 :: byte])) = 3 * k" for k
    by (induction k) simp_all
  show ?thesis using le by (simp add: hexdump_columns_def cells fill)
qed

lemma ceil_div_16: "(n + 15) div 16 = (if n mod 16 \<noteq> 0 then n div 16 + 1 else n div (16::nat))"
proof -
  define q r where "q = n div 16" and "r = n mod 16"
  have n: "n = r + q * 16" and r: "r < 16" by (simp_all add: q_def r_def)
  have "(n + 15) div 16 = (r + 15) div 16 + q" unfolding n
    by (metis add.assoc add.commute div_mult_self1 zero_neq_numeral)
  moreover have "(r + 15) div 16 = (if r = 0 then 0 else 1)" using r by auto
  ultimately show ?thesis by (simp add: q_def r_def)
qed

lemma hexdump_lines_chunks:
  assumes "prog_name s = Some p" and "n \<le> length array"
  shows "k \<le> (n + 15) div 16 \<Longrightarrow>
    hexdump_lines s pid array n prefix [k..<(n + 15) div 16] =
      ret (concat (map (\<lambda>c. p @ bytes_of '' ['' @ fmt_u pid @ bytes_of '']: '' @ prefix @ [58, 32]
                             @ hexdump_columns c) (chunks16 (drop (16 * k) (take n array)))))"
proof (induction "(n + 15) div 16 - k" arbitrary: k)
  case 0
  then show ?case by simp
next
  case (Suc m)
  let ?t = "(n + 15) div 16" and ?c = "if n div 16 \<le> k then n mod 16 else 16"
  have k: "k < ?t" using Suc.hyps(2) by auto
  then have up: "[k..<?t] = k # [Suc k..<?t]" by (rule upt_conv_Cons)
  have c: "k = n div 16 \<and> 0 < n mod 16 \<or> \<not> n div 16 \<le> k \<and> 16 * k + 16 \<le> n"
  proof (cases "n div 16 \<le> k")
    case True
    then show ?thesis using k by (auto simp: ceil_div_16 split: if_splits)
  next
    case False
    then have "Suc k \<le> n div 16" by simp
    then have "Suc k * 16 \<le> n" by (metis div_times_less_eq_dividend le_trans mult_le_mono1)
    with False show ?thesis by simp
  qed
  have pos: "0 < ?c" and fit: "k * 16 + ?c \<le> n" and last: "?c = 16 \<or> k * 16 + ?c = n"
    using c by (auto simp: mult.commute)
  have chunk: "map (\<lambda>column. array ! (k * 16 + column)) [0..<?c]
      = take 16 (drop (16 * k) (take n array))"
  proof -
    have "map (\<lambda>column. array ! (k * 16 + column)) [0..<?c] = take ?c (drop (k * 16) array)"
      using fit assms(2) by (intro map_nth_upt_drop) simp
    also have "\<dots> = take 16 (drop (16 * k) (take n array))"
    proof -
      have "take c (drop (k * 16) array) = take 16 (drop (16 * k) (take n array))"
        if "c = 16 \<or> k * 16 + c = n" and "k * 16 + c \<le> n" and "c \<le> 16" for c
      proof -
        have "min 16 (n - k * 16) = c" using that by auto
        then show ?thesis by (simp add: drop_take mult.commute)
      qed
      then show ?thesis using last fit by simp
    qed
    finally show ?thesis .
  qed
  have ne: "drop (16 * k) (take n array) \<noteq> []"
    using fit pos assms(2) by simp
  have ch: "chunks16 (drop (16 * k) (take n array)) =
      take 16 (drop (16 * k) (take n array)) # chunks16 (drop (16 * Suc k) (take n array))"
    using ne by (cases "drop (16 * k) (take n array)")
      (auto simp: drop_drop [symmetric] add.commute simp del: drop_drop)
  have "k * 16 + ?c \<le> length array" using fit assms(2) by linarith
  then show ?case
    using Suc.hyps(1) [of "Suc k"] Suc.hyps(2) k assms(1)
    unfolding up by (simp add: Let_def printIdentifier_def getProgName_def hexdump_line_def chunk ch)
qed

section \<open>Properties\<close>

text \<open>On a host of either byte order, \<open>hton64u\<close> leaves the big-endian image of its
  argument in memory, and \<open>ntoh64u\<close> and \<open>hton64u\<close> are inverse to each other.\<close>

theorem hton64u_network_order:
  "mem_of_word e (hton64u e x) = net_image x \<and> ntoh64u e (hton64u e x) = x
     \<and> hton64u e (ntoh64u e x) = x"
  by (simp add: util64.mem_to_net util64.to_host_to_net hton64u_ntoh64u)

text \<open>\<open>nameBytesValidate\<close> returns the length of the longest prefix of its input made of
  allowed bytes (printable ASCII without space, quotes and backtick): the index of the first
  bad byte, or the input's length when every byte is allowed.\<close>

theorem nameBytesValidate_prefix:
  "n \<le> length s \<Longrightarrow>
   nameBytesValidate s n = ret (length (takeWhile name_byte_ok (take n s)))"
  by (simp add: nameBytesValidate_def name_validate_from_prefix)

theorem nameBytesValidate_prefix_witness:
  "nameBytesValidate (bytes_of ''a b'') 3 = ret 1"
proof -
  have "3 \<le> length (bytes_of ''a b'')" by simp
  from nameBytesValidate_prefix [OF this] show ?thesis
    by (simp add: bytes_of_def name_byte_ok_def)
qed

text \<open>A hex dump of \<open>n\<close> bytes shows every byte exactly once and in order: its lines are
  those of a partition of the bytes into chunks of at most sixteen, each line holding the
  program's name, the process id, the prefix and a column block whose width is 52 plus the
  number of bytes shown.\<close>

theorem vhexdump_shows_every_byte:
  assumes "prog_name s = Some p" and "n \<le> length array"
  shows "\<exists>cs. concat cs = take n array \<and>
    vhexdump s tty pid array n prefix =
      ret (setStyle s tty STYLE_HEXDUMP
           @ concat (map (\<lambda>c. p @ bytes_of '' ['' @ fmt_u pid @ bytes_of '']: '' @ prefix
                              @ [58, 32] @ hexdump_columns c) cs)
           @ setStyle s tty STYLE_NORMAL) \<and>
    (\<forall>c \<in> set cs. length c \<le> 16 \<and> length (hexdump_columns c) = 52 + length c)"
proof (intro exI conjI ballI)
  let ?cs = "chunks16 (take n array)"
  show "concat ?cs = take n array" by (rule concat_chunks16)
  show "vhexdump s tty pid array n prefix =
      ret (setStyle s tty STYLE_HEXDUMP
           @ concat (map (\<lambda>c. p @ bytes_of '' ['' @ fmt_u pid @ bytes_of '']: '' @ prefix
                              @ [58, 32] @ hexdump_columns c) ?cs)
           @ setStyle s tty STYLE_NORMAL)"
    using hexdump_lines_chunks [OF assms, of 0 pid prefix]
    by (simp add: vhexdump_def Let_def ceil_div_16)
  fix c assume "c \<in> set ?cs"
  then show le: "length c \<le> 16" by (rule length_chunks16)
  then show "length (hexdump_columns c) = 52 + length c" by (rule length_hexdump_columns)
qed

theorem vhexdump_shows_every_byte_witness:
  "\<exists>cs. concat cs = take 2 (bytes_of ''hi'')
     \<and> (\<forall>c \<in> set cs. length c \<le> 16 \<and> length (hexdump_columns c) = 52 + length c)"
proof -
  let ?s = "util_initial\<lparr>prog_name := Some (bytes_of ''server'')\<rparr>"
  have "prog_name ?s = Some (bytes_of ''server'')" and "2 \<le> length (bytes_of ''hi'')" by simp_all
  from vhexdump_shows_every_byte [OF this, of True 7 "bytes_of ''dump''"] show ?thesis by blast
qed

end
