(* ===== verification/Wire.thy ===== *)
theory Wire
  imports Byte_Order
begin

text \<open>
  \<^verbatim>\<open>src/src/network/network.h\<close> and the sizes of \<^verbatim>\<open>src/src/core/defines.h\<close>: the codes of the
  protocol, the packed message structures as fields of one block of memory, and an abstract
  view of the messages the server sends with its byte format.

  A \<^verbatim>\<open>CombinedMessage\<close> is a header followed by a union, packed: a list of 555 bytes. The
  members of the union share the bytes from offset 3 on, so writing one of them changes what
  the others hold, as it does in C.
\<close>

section \<open>Sizes and codes\<close>

definition NET_NAME_LEN :: nat where "NET_NAME_LEN = 31"
definition NET_NAME_LEN_PLUS :: nat where "NET_NAME_LEN_PLUS = 32"
definition NET_TEXT_LEN :: nat where "NET_TEXT_LEN = 512"

datatype message_type =
    MT_LoginRequest
  | MT_LoginResponse
  | MT_ClientToServer
  | MT_ServerToClient
  | MT_UserAdd
  | MT_UserRemove

fun mt_code :: "message_type \<Rightarrow> u8" where
  "mt_code MT_LoginRequest = 0"
| "mt_code MT_LoginResponse = 1"
| "mt_code MT_ClientToServer = 2"
| "mt_code MT_ServerToClient = 3"
| "mt_code MT_UserAdd = 4"
| "mt_code MT_UserRemove = 5"

datatype login_response_code =
    LR_success
  | LR_name_taken
  | LR_name_invalid
  | LR_version_mismatch
  | LR_unknown_server_error

fun lr_code :: "login_response_code \<Rightarrow> u8" where
  "lr_code LR_success = 0"
| "lr_code LR_name_taken = 1"
| "lr_code LR_name_invalid = 2"
| "lr_code LR_version_mismatch = 3"
| "lr_code LR_unknown_server_error = 255"

datatype connection_status_code = CS_waiting | CS_received_msg | CS_Closed_Connection

fun cs_code :: "connection_status_code \<Rightarrow> int" where
  "cs_code CS_waiting = 0"
| "cs_code CS_received_msg = 1"
| "cs_code CS_Closed_Connection = 2"

text \<open>
  \<open>NV_unset\<close> is the value 0, which is no enumerator: \<open>network_Receive\<close> starts from it and
  returns it for an unknown message type.
\<close>

datatype network_validation_code =
    NV_unset
  | NV_Received_login
  | NV_Received_Message
  | NV_Received_Server_command
  | NV_invalid_length
  | NV_Magic_num_invalid
  | NV_Version_invalid
  | NV_Name_length_invalid

fun nv_code :: "network_validation_code \<Rightarrow> int" where
  "nv_code NV_unset = 0"
| "nv_code NV_Received_login = 1"
| "nv_code NV_Received_Message = 2"
| "nv_code NV_Received_Server_command = 3"
| "nv_code NV_invalid_length = -1"
| "nv_code NV_Magic_num_invalid = -2"
| "nv_code NV_Version_invalid = -3"
| "nv_code NV_Name_length_invalid = -4"

datatype client_disconnect_code =
    CD_connection_closed_by_client
  | CD_kicked_from_the_server
  | CD_communication_error

fun cd_code :: "client_disconnect_code \<Rightarrow> u8" where
  "cd_code CD_connection_closed_by_client = 0"
| "cd_code CD_kicked_from_the_server = 1"
| "cd_code CD_communication_error = 2"

lemma mt_code_inj: "mt_code a = mt_code b \<longleftrightarrow> a = b"
  by (cases a; cases b) simp_all

section \<open>The packed layout\<close>

text \<open>Sizes of the structures, each the sum of its fields, and the offset of every field.\<close>

definition sizeof_header :: nat where "sizeof_header = 1 + 2"
definition sizeof_Authentication :: nat where "sizeof_Authentication = 4 + 1 + NET_NAME_LEN"
definition sizeof_Client2Server :: nat where "sizeof_Client2Server = NET_TEXT_LEN"
definition sizeof_Server2Client :: nat where
  "sizeof_Server2Client = 8 + NET_NAME_LEN_PLUS + NET_TEXT_LEN"
definition sizeof_UserAdded :: nat where "sizeof_UserAdded = 8 + NET_NAME_LEN"
definition sizeof_UserRemoved :: nat where "sizeof_UserRemoved = 8 + 1 + NET_NAME_LEN"

definition sizeof_CombinedMessage :: nat where
  "sizeof_CombinedMessage =
     sizeof_header + Max {sizeof_Authentication, sizeof_Client2Server, sizeof_Server2Client,
                          sizeof_UserAdded, sizeof_UserRemoved}"

definition off_type :: nat where "off_type = 0"
definition off_length :: nat where "off_length = 1"
definition off_union :: nat where "off_union = sizeof_header"
definition off_magic :: nat where "off_magic = off_union"
definition off_version :: nat where "off_version = off_union + 4"
definition off_auth_name :: nat where "off_auth_name = off_union + 5"
definition off_text :: nat where "off_text = off_union"
definition off_timestamp :: nat where "off_timestamp = off_union"
definition off_sender :: nat where "off_sender = off_union + 8"
definition off_s2c_text :: nat where "off_s2c_text = off_union + 8 + NET_NAME_LEN_PLUS"
definition off_added_name :: nat where "off_added_name = off_union + 8"
definition off_removed_code :: nat where "off_removed_code = off_union + 8"
definition off_removed_name :: nat where "off_removed_name = off_union + 8 + 1"

lemma net_lens [wire_simps]:
  "NET_NAME_LEN = 31" "NET_NAME_LEN_PLUS = 32" "NET_TEXT_LEN = 512"
  by (simp_all add: NET_NAME_LEN_def NET_NAME_LEN_PLUS_def NET_TEXT_LEN_def)

lemma sizeof_simps [wire_simps]:
  "sizeof_header = 3" "sizeof_CombinedMessage = 555"
  by (simp_all add: sizeof_header_def sizeof_CombinedMessage_def sizeof_Authentication_def
      sizeof_Client2Server_def sizeof_Server2Client_def sizeof_UserAdded_def sizeof_UserRemoved_def
      net_lens)

lemma off_simps [wire_simps]:
  "off_type = 0" "off_length = 1" "off_union = 3" "off_magic = 3" "off_version = 7"
  "off_auth_name = 8" "off_text = 3" "off_timestamp = 3" "off_sender = 11" "off_s2c_text = 43"
  "off_added_name = 11" "off_removed_code = 11" "off_removed_name = 12"
  by (simp_all add: off_type_def off_length_def off_union_def off_magic_def off_version_def
      off_auth_name_def off_text_def off_timestamp_def off_sender_def off_s2c_text_def
      off_added_name_def off_removed_code_def off_removed_name_def sizeof_header_def net_lens)

text \<open>\<open>memset(msg, 0, sizeof(CombinedMessage))\<close> of a whole message.\<close>

definition msg_zero :: "byte list" where
  "msg_zero = replicate sizeof_CombinedMessage 0"

lemma length_msg_zero [simp]: "length msg_zero = 555"
  by (simp add: msg_zero_def wire_simps)

lemma bslice_msg_zero [simp]: "off + n \<le> 555 \<Longrightarrow> bslice msg_zero off n = replicate n 0"
  by (simp add: msg_zero_def wire_simps)

lemma drop_msg_zero [simp]: "drop off msg_zero = replicate (555 - off) 0"
  by (simp add: msg_zero_def wire_simps)

text \<open>Fields read from a message. Integers are read as the host does, not yet converted.\<close>

definition hdr_type :: "byte list \<Rightarrow> u8" where
  "hdr_type m = m ! off_type"

definition hdr_length :: "endian \<Rightarrow> byte list \<Rightarrow> u16" where
  "hdr_length e m = word_of_mem e (bslice m off_length 2)"

definition auth_magic :: "endian \<Rightarrow> byte list \<Rightarrow> u32" where
  "auth_magic e m = word_of_mem e (bslice m off_magic 4)"

definition auth_version :: "byte list \<Rightarrow> u8" where
  "auth_version m = m ! off_version"

definition msg_timestamp :: "endian \<Rightarrow> byte list \<Rightarrow> u64" where
  "msg_timestamp e m = word_of_mem e (bslice m off_timestamp 8)"

lemma ntohs_hdr_length:
  "length m = 555 \<Longrightarrow> ntohs e (hdr_length e m) = net_value (bslice m 1 2)"
  by (simp add: ntohs_def hdr_length_def mem_of_word_of_mem wire_simps)

lemma ntohl_auth_magic:
  "length m = 555 \<Longrightarrow> ntohl e (auth_magic e m) = net_value (bslice m 3 4)"
  by (simp add: ntohl_def auth_magic_def mem_of_word_of_mem wire_simps)

section \<open>Messages of the protocol, abstractly\<close>

text \<open>
  What the server says, as values, and the frame each one is on the wire: the type, the length
  of the body in network order, and the body. Names are sent without a terminator, except for the
  sender of a chat text, which fills a field of 32 bytes.
\<close>

datatype server_msg =
    Login_Response login_response_code "byte list"
  | User_Added u64 "byte list"
  | User_Removed u64 client_disconnect_code "byte list"
  | Server_To_Client u64 "byte list" "byte list"

definition frame :: "message_type \<Rightarrow> byte list \<Rightarrow> byte list" where
  "frame t body = mt_code t # net_image (of_nat (length body) :: u16) @ body"

definition sender_field :: "byte list \<Rightarrow> byte list" where
  "sender_field s = s @ replicate (32 - length s) 0"

fun msg_type :: "server_msg \<Rightarrow> message_type" where
  "msg_type (Login_Response c s) = MT_LoginResponse"
| "msg_type (User_Added t s) = MT_UserAdd"
| "msg_type (User_Removed t c s) = MT_UserRemove"
| "msg_type (Server_To_Client t s body_text) = MT_ServerToClient"

fun msg_body :: "server_msg \<Rightarrow> byte list" where
  "msg_body (Login_Response c s) = net_image (0xc001c001 :: u32) @ [lr_code c] @ s"
| "msg_body (User_Added t s) = net_image t @ s"
| "msg_body (User_Removed t c s) = net_image t @ [cd_code c] @ s"
| "msg_body (Server_To_Client t s body_text) = net_image t @ sender_field s @ body_text"

definition encode :: "server_msg \<Rightarrow> byte list" where
  "encode w = frame (msg_type w) (msg_body w)"

text \<open>The reader a client of the protocol would use.\<close>

definition lr_of_code :: "u8 \<Rightarrow> login_response_code option" where
  "lr_of_code b =
     (if b = 0 then Some LR_success else if b = 1 then Some LR_name_taken
      else if b = 2 then Some LR_name_invalid else if b = 3 then Some LR_version_mismatch
      else if b = 255 then Some LR_unknown_server_error else None)"

definition cd_of_code :: "u8 \<Rightarrow> client_disconnect_code option" where
  "cd_of_code b =
     (if b = 0 then Some CD_connection_closed_by_client
      else if b = 1 then Some CD_kicked_from_the_server
      else if b = 2 then Some CD_communication_error else None)"

definition decode_body :: "u8 \<Rightarrow> byte list \<Rightarrow> server_msg option" where
  "decode_body t body =
     (if t = 1 then
        (if 5 \<le> length body \<and> net_value (take 4 body) = (0xc001c001 :: u32)
         then map_option (\<lambda>c. Login_Response c (drop 5 body)) (lr_of_code (body ! 4)) else None)
      else if t = 3 then
        (if 40 \<le> length body
         then Some (Server_To_Client (net_value (take 8 body))
                      (takeWhile (\<lambda>c. c \<noteq> 0) (bslice body 8 32)) (drop 40 body)) else None)
      else if t = 4 then
        (if 8 \<le> length body then Some (User_Added (net_value (take 8 body)) (drop 8 body)) else None)
      else if t = 5 then
        (if 9 \<le> length body
         then map_option (\<lambda>c. User_Removed (net_value (take 8 body)) c (drop 9 body))
                (cd_of_code (body ! 8)) else None)
      else None)"

definition decode :: "byte list \<Rightarrow> (server_msg \<times> byte list) option" where
  "decode bs =
     (if length bs < 3 then None
      else (let n = unat (net_value (bslice bs 1 2) :: u16)
            in if length bs < 3 + n then None
               else map_option (\<lambda>m. (m, drop (3 + n) bs)) (decode_body (bs ! 0) (bslice bs 3 n))))"

text \<open>
  What makes a message encodable: the length fits, and a sender's name fits its field and holds
  no NUL.
\<close>

fun msg_ok :: "server_msg \<Rightarrow> bool" where
  "msg_ok (Login_Response c s) \<longleftrightarrow> 5 + length s < 65536"
| "msg_ok (User_Added t s) \<longleftrightarrow> 8 + length s < 65536"
| "msg_ok (User_Removed t c s) \<longleftrightarrow> 9 + length s < 65536"
| "msg_ok (Server_To_Client t s body_text) \<longleftrightarrow>
     length s \<le> 32 \<and> 0 \<notin> set s \<and> 40 + length body_text < 65536"

lemma lr_of_code_inverse [simp]: "lr_of_code (lr_code c) = Some c"
  by (cases c) (simp_all add: lr_of_code_def)

lemma cd_of_code_inverse [simp]: "cd_of_code (cd_code c) = Some c"
  by (cases c) (simp_all add: cd_of_code_def)

lemma takeWhile_sender_field:
  "0 \<notin> set s \<Longrightarrow> takeWhile (\<lambda>c. c \<noteq> 0) (sender_field s) = s"
  by (cases "32 - length s") (simp_all add: sender_field_def)

lemma length_sender_field [simp]: "length s \<le> 32 \<Longrightarrow> length (sender_field s) = 32"
  by (simp add: sender_field_def)

lemma msg_ok_body: "msg_ok w \<Longrightarrow> length (msg_body w) < 65536"
  by (cases w) simp_all

lemma length_frame [simp]: "length (frame t body) = 3 + length body"
  by (simp add: frame_def)

lemma length_encode: "length (encode w) = 3 + length (msg_body w)"
  by (simp add: encode_def)

lemma decode_frame:
  assumes "length body < 65536"
  shows "decode (frame t body @ rest) =
           map_option (\<lambda>m. (m, rest)) (decode_body (mt_code t) body)"
proof -
  have n: "unat (of_nat (length body) :: u16) = length body"
    using assms by (simp add: unat_of_nat)
  have s: "bslice (frame t body @ rest) 1 2 = net_image (of_nat (length body) :: u16)"
    by (simp add: bslice_def frame_def)
  have b: "bslice (frame t body @ rest) 3 (length body) = body"
    by (simp add: bslice_def frame_def numeral_3_eq_3)
  have f: "length (frame t body) = 3 + length body"
    by (simp add: frame_def)
  have d: "drop (3 + length body) (frame t body @ rest) = rest"
    by (simp add: f)
  have l: "length (frame t body @ rest) = 3 + length body + length rest"
    by (simp add: f)
  show ?thesis
    unfolding decode_def s net_value_net_image n Let_def b d l
    by (simp add: frame_def)
qed

lemma decode_encode:
  assumes "msg_ok m"
  shows "decode (encode m @ rest) = Some (m, rest)"
proof (cases m)
  case (Server_To_Client t s body_text)
  then have "bslice (net_image t @ sender_field s @ body_text) 8 32 = sender_field s"
    using assms by (simp add: bslice_def)
  with Server_To_Client assms show ?thesis
    by (simp add: encode_def decode_frame decode_body_def takeWhile_sender_field)
qed (insert assms, simp_all add: encode_def decode_frame decode_body_def nth_append)

text \<open>Every message the protocol can express is read back from its frame, together with
  the bytes that follow it: frames are self-delimiting and the format is unambiguous.\<close>

theorem encode_roundtrip:
  "msg_ok m \<Longrightarrow> decode (encode m @ rest) = Some (m, rest)"
  by (rule decode_encode)

theorem encode_roundtrip_witness:
  "decode (encode (Server_To_Client 7 (bytes_of ''Bob'') (bytes_of ''hi'')) @ [1, 2]) =
     Some (Server_To_Client 7 (bytes_of ''Bob'') (bytes_of ''hi''), [1, 2])"
proof -
  have "msg_ok (Server_To_Client 7 (bytes_of ''Bob'') (bytes_of ''hi''))"
    by (simp add: bytes_of_def)
  from encode_roundtrip [OF this] show ?thesis .
qed

end
