(* ===== verification/Network.thy ===== *)
theory Network
  imports Util Wire
begin

text \<open>
  \<^verbatim>\<open>src/src/network/network.c\<close>: receiving and validating a message, sending one, building the
  server's messages, and the 64-bit byte-order conversions of this file. The messages are the
  packed buffers of theory \<^verbatim>\<open>Wire\<close>. The logging calls are left out, except for the text
  \<open>Print_message_Info\<close> formats: it reads strings out of the message, which can go past its end.
\<close>

section \<open>The environment of a call\<close>

text \<open>
  What the calls to the system return: the byte order of the host, the clock (\<open>-1\<close> when
  \<^verbatim>\<open>time\<close> fails), and for every socket how many bytes \<^verbatim>\<open>send\<close> takes (\<open>None\<close> when it
  fails). \<open>io\<close> is what a socket has to offer to one \<^verbatim>\<open>recv\<close> or \<^verbatim>\<open>read\<close>: an error, or the bytes
  that have arrived (none at the end of the stream), of which the call takes what it asked for.
\<close>

record env =
  host :: endian
  now :: int
  send_result :: "u16 \<Rightarrow> nat option"

datatype io = IO_Error | IO_Data "byte list"

definition sys_read :: "io \<Rightarrow> byte list \<Rightarrow> nat \<Rightarrow> nat \<Rightarrow> (int \<times> byte list) res" where
  "sys_read rd buf off n =
     (case rd of
        IO_Error \<Rightarrow> ret (-1, buf)
      | IO_Data bs \<Rightarrow>
          bindR (mem_write buf off (take n bs)) (\<lambda>b. ret (int (length (take n bs)), b)))"

definition store16 :: "endian \<Rightarrow> byte list \<Rightarrow> nat \<Rightarrow> u16 \<Rightarrow> byte list res" where
  "store16 e m off x = mem_write m off (mem_of_word e x)"

definition store32 :: "endian \<Rightarrow> byte list \<Rightarrow> nat \<Rightarrow> u32 \<Rightarrow> byte list res" where
  "store32 e m off x = mem_write m off (mem_of_word e x)"

definition store64 :: "endian \<Rightarrow> byte list \<Rightarrow> nat \<Rightarrow> u64 \<Rightarrow> byte list res" where
  "store64 e m off x = mem_write m off (mem_of_word e x)"

section \<open>htonll and ntohll\<close>

text \<open>The test for the byte order reads the first byte of a known value in memory.\<close>

definition htonll :: "endian \<Rightarrow> u64 \<Rightarrow> u64" where
  "htonll e host_longlong =
     (if mem_of_word e (0x0102030405060708 :: u64) ! 0 = 1 then host_longlong
      else push_bit 32 (ucast (htonl e (ucast (host_longlong AND 0xFFFFFFFF))))
             OR ucast (htonl e (ucast (drop_bit 32 host_longlong))))"

definition ntohll :: "endian \<Rightarrow> u64 \<Rightarrow> u64" where
  "ntohll e net_longlong =
     (if mem_of_word e (0x0102030405060708 :: u64) ! 0 = 1 then net_longlong
      else push_bit 32 (ucast (ntohl e (ucast (net_longlong AND 0xFFFFFFFF))))
             OR ucast (ntohl e (ucast (drop_bit 32 net_longlong))))"

lemma endian_test: "mem_of_word e (0x0102030405060708 :: u64) ! 0 = 1 \<longleftrightarrow> e = Big"
  by (cases e) (simp_all add: mem_of_word_def net_image_def upt_0_8)

lemma ntohl_eq_htonl: "ntohl e x = htonl e x"
  by (cases e) (simp_all add: ntohl_def htonl_def net_value_def word_of_mem_def mem_of_word_def)

lemma ntohll_eq_htonll: "ntohll e x = htonll e x"
  by (simp add: ntohll_def htonll_def ntohl_eq_htonl)

lemma bit_hton64u_Little:
  "bit (hton64u Little x) n \<longleftrightarrow> n < 64 \<and> bit x (8 * (7 - n div 8) + n mod 8)"
proof (cases "n < 64")
  case True
  then have "n div 8 < 8" by auto
  then have "bit (net_image x ! (n div 8)) (n mod 8) \<longleftrightarrow> bit x (8 * (7 - n div 8) + n mod 8)"
    by (subst bit_net_image) simp_all
  then show ?thesis
    using True by (simp add: hton64u_eq word_of_mem_def bit_horner)
qed (auto dest: bit_imp_le_length)

lemma htonll_eq_hton64u: "htonll e x = hton64u e x"
proof (cases e)
  case Big
  then show ?thesis
    by (simp add: htonll_def endian_test hton64u_eq word_of_mem_def horner_net_image)
next
  case Little
  have mask32: "(0xFFFFFFFF :: u64) = mask 32" by (simp add: mask_eq_exp_minus_1)
  have "htonll Little x = hton64u Little x"
  proof (rule bit_word_eqI)
    fix n assume "n < LENGTH(64)"
    then have n: "n < 64" by simp
    have lo: "8 * (3 - n div 8) + n mod 8 < 32" by auto
    show "bit (htonll Little x) n = bit (hton64u Little x) n"
    proof (cases "n < 32")
      case True
      then have e: "32 + (8 * (3 - n div 8) + n mod 8) = 8 * (7 - n div 8) + n mod 8" by auto
      show ?thesis using True lo
        by (simp add: e htonll_def endian_test bit_hton64u_Little bit_or_iff bit_push_bit_iff
            bit_ucast_iff bit_htonl_Little bit_drop_bit_eq)
    next
      case False
      then have d: "(n - 32) div 8 = n div 8 - 4" and m: "(n - 32) mod 8 = n mod 8"
        using mod_mult_self2 [of "n - 32" 8 4] by auto
      have "\<not> bit (htonl Little (ucast (drop_bit 32 x))) n"
        using False by (auto simp: bit_htonl_Little)
      moreover have "3 - (n div 8 - 4) = 7 - n div 8" using False by auto
      moreover have "8 * (7 - n div 8) + n mod 8 < 32"
      proof -
        have "4 \<le> n div 8" using False by auto
        moreover have "n mod 8 < 8" by simp
        ultimately show ?thesis by linarith
      qed
      moreover have "n - 32 < 32" and "n - 32 < 64" using n by linarith+
      ultimately show ?thesis using False n
        by (simp add: htonll_def endian_test bit_hton64u_Little bit_or_iff bit_push_bit_iff
            bit_ucast_iff bit_htonl_Little bit_and_iff bit_mask_iff mask32 d m)
    qed
  qed
  then show ?thesis by (simp add: Little)
qed

lemma ntoh64u_eq_hton64u: "ntoh64u e x = hton64u e x"
  by (cases e) (simp_all add: ntoh64u_def hton64u_eq word_of_mem_def mem_of_word_def)

lemma ntohll_eq_ntoh64u: "ntohll e x = ntoh64u e x"
  by (simp add: ntohll_eq_htonll htonll_eq_hton64u ntoh64u_eq_hton64u)

interpretation net64: net_order "mem_of_word e :: u64 \<Rightarrow> byte list" net_image
  "htonll e" "ntohll e"
proof (unfold_locales, goal_cases)
  case (1 x y) then show ?case by (rule util64.mem_inj)
next
  case (2 x) then show ?case by (simp add: htonll_eq_hton64u util64.mem_to_net)
next
  case (3 x)
  then show ?case by (simp add: htonll_eq_hton64u ntohll_eq_ntoh64u util64.to_host_to_net)
qed

section \<open>Receiving\<close>

definition Check_for_Message :: "io \<Rightarrow> byte list \<Rightarrow> (int \<times> byte list) res" where
  "Check_for_Message rd m = sys_read rd m off_type sizeof_header"

text \<open>
  The validations assign the result one after the other without returning, so the last one that
  fails decides; the result of the check of a chat text's length is overwritten.
\<close>

definition network_Receive ::
    "env \<Rightarrow> io \<Rightarrow> byte list \<Rightarrow> (network_validation_code \<times> byte list) res" where
  "network_Receive E rd m =
     (let msg_len = unat (ntohs (host E) (hdr_length (host E) m)) in
      if \<not> 0 < msg_len then ret (NV_invalid_length, m)
      else if hdr_type m = mt_code MT_LoginRequest then
        bindR (sys_read rd m off_union msg_len) (\<lambda>(bytes_Read, m).
          (let return_val = NV_Received_login;
               return_val = (if ntohl (host E) (auth_magic (host E) m) = 0x0badf00d
                             then return_val else NV_Magic_num_invalid);
               return_val = (if auth_version m = 0 then return_val else NV_Version_invalid);
               return_val = (if bytes_Read > 5 \<and> bytes_Read < 37
                             then return_val else NV_Name_length_invalid)
           in ret (return_val, m)))
      else if hdr_type m = mt_code MT_ClientToServer then
        bindR (sys_read rd m off_text msg_len) (\<lambda>(bytes_Read, m).
          (let return_val = NV_unset;
               return_val = (if bytes_Read > 0 \<and> bytes_Read < int NET_TEXT_LEN
                             then return_val else NV_Name_length_invalid);
               return_val = (if m ! off_text = 47
                             then NV_Received_Server_command else NV_Received_Message)
           in ret (return_val, m)))
      else ret (NV_unset, m))"

section \<open>Sending\<close>

text \<open>
  The text \<open>Print_message_Info\<close> logs: one bracketed field per line. The strings are read up to
  their NUL, wherever in the message that is.
\<close>

definition info_field :: "string \<Rightarrow> byte list \<Rightarrow> byte list" where
  "info_field label v = 10 # bytes_of ''     ['' @ bytes_of label @ v @ bytes_of '']''"

definition info_type :: "byte list \<Rightarrow> string \<Rightarrow> byte list" where
  "info_type m name =
     info_field ''type: '' (fmt_d (uint (hdr_type m)) @ bytes_of '' => '' @ bytes_of name)"

definition info_length :: "endian \<Rightarrow> byte list \<Rightarrow> string \<Rightarrow> int \<Rightarrow> byte list" where
  "info_length e m label k =
     info_field ''length: '' (bytes_of label @ fmt_d (uint (ntohs e (hdr_length e m)) - k))"

definition info_time :: "endian \<Rightarrow> byte list \<Rightarrow> byte list" where
  "info_time e m = info_field ''time: '' (fmt_d (sint (ntohll e (msg_timestamp e m))))"

definition info_magic :: "endian \<Rightarrow> byte list \<Rightarrow> byte list" where
  "info_magic e m =
     info_field ''magic: 0x'' (fmt_0x 8 (unat (auth_magic e m)))
       @ info_field ''version: '' (fmt_d (uint (auth_version m)))"

definition Print_message_Info :: "env \<Rightarrow> byte list \<Rightarrow> byte list res" where
  "Print_message_Info E m =
     (let e = host E in
      if hdr_type m = mt_code MT_LoginRequest then
        bindR (c_string (drop off_auth_name m)) (\<lambda>name.
          ret (info_type m ''MT_LoginRequest'' @ info_length e m [] 0 @ info_magic e m
               @ info_field ''name: '' name))
      else if hdr_type m = mt_code MT_LoginResponse then
        bindR (c_string (drop off_auth_name m)) (\<lambda>name.
          ret (info_type m ''MT_LoginResponse'' @ info_length e m ''5 + '' 5 @ [32] @ info_magic e m
               @ info_field ''name: '' name))
      else if hdr_type m = mt_code MT_ClientToServer then
        bindR (c_string (drop off_text m)) (\<lambda>text.
          ret (info_type m ''MT_ClientToServer'' @ info_length e m [] 0
               @ info_field ''text: '' text))
      else if hdr_type m = mt_code MT_ServerToClient then
        bindR (c_string (drop off_sender m)) (\<lambda>sender.
          bindR (c_string (drop off_s2c_text m)) (\<lambda>text.
            ret (info_type m ''MT_ServerToClient'' @ info_length e m ''40 + '' 40 @ info_time e m
                 @ info_field ''originalSender: '' sender @ info_field ''text: '' text)))
      else if hdr_type m = mt_code MT_UserAdd then
        bindR (c_string (drop off_added_name m)) (\<lambda>name.
          ret (info_type m ''MT_UserAdd'' @ info_length e m ''8 + '' 8 @ info_time e m
               @ info_field ''name: '' name))
      else if hdr_type m = mt_code MT_UserRemove then
        bindR (c_string (drop off_removed_name m)) (\<lambda>name.
          ret (info_type m ''MT_UserRemove'' @ info_length e m [] 0 @ info_time e m
               @ info_field ''code: '' (fmt_d (uint (m ! off_removed_code)))
               @ info_field ''name: '' name))
      else ret [])"

text \<open>
  \<open>network_Send\<close> returns its status and what \<^verbatim>\<open>send\<close> took: as many of the header's and body's
  bytes as the environment accepts. A partial send counts as success. The source sends without
  \<^verbatim>\<open>MSG_NOSIGNAL\<close> and handles no \<^verbatim>\<open>SIGPIPE\<close>, so where the environment takes nothing because the other
  side is gone, the process may be killed instead of seeing the failure.
\<close>

definition network_Send ::
    "env \<Rightarrow> u16 \<Rightarrow> byte list \<Rightarrow> (int \<times> (u16 \<times> byte list) list) res" where
  "network_Send E file_desc m =
     bindR (Print_message_Info E m) (\<lambda>_.
       bindR (mem_read m 0 (sizeof_header + unat (ntohs (host E) (hdr_length (host E) m)))) (\<lambda>bs.
         (case send_result E file_desc of
            None \<Rightarrow> ret (-1, [])
          | Some k \<Rightarrow> ret (0, [(file_desc, take k bs)]))))"

section \<open>Building messages\<close>

text \<open>The value of a timestamp field: 0 when it is not wanted or the clock failed.\<close>

definition stamp_field :: "env \<Rightarrow> bool \<Rightarrow> u64" where
  "stamp_field E use = (if use \<and> now E \<noteq> -1 then htonll (host E) (of_int (now E)) else 0)"

text \<open>
  The server name is checked against the end of the message, not of the 31-byte member it is copied
  to: the terminator of a name of 31 characters is written behind the member.
\<close>

definition build_login_response ::
    "env \<Rightarrow> byte list \<Rightarrow> byte list \<Rightarrow> login_response_code \<Rightarrow> byte list res" where
  "build_login_response E server_name loc_msg code =
     (let e = host E in
      bindR (mem_write loc_msg 0 (replicate sizeof_CombinedMessage 0)) (\<lambda>loc_msg.
      bindR (mem_write loc_msg off_type [mt_code MT_LoginResponse]) (\<lambda>loc_msg.
      bindR (store32 e loc_msg off_magic (htonl e 0xc001c001)) (\<lambda>loc_msg.
      bindR (mem_write loc_msg off_version [lr_code code]) (\<lambda>loc_msg.
      bindR (c_strcpy loc_msg off_auth_name server_name) (\<lambda>loc_msg.
      bindR (c_strlen server_name) (\<lambda>nameLength.
      bindR (store16 e loc_msg off_length (htons e (of_nat (5 + nameLength)))) (\<lambda>loc_msg.
      bindR (Print_message_Info E loc_msg) (\<lambda>_. ret loc_msg)))))))))"

definition build_User_Added ::
    "env \<Rightarrow> byte list \<Rightarrow> byte list \<Rightarrow> u16 \<Rightarrow> bool \<Rightarrow> byte list res" where
  "build_User_Added E loc_msg name name_size use_time_stamp =
     (let e = host E in
      bindR (mem_write loc_msg off_type [mt_code MT_UserAdd]) (\<lambda>loc_msg.
      bindR (store64 e loc_msg off_timestamp (stamp_field E use_time_stamp)) (\<lambda>loc_msg.
      bindR (c_strncpy loc_msg off_added_name name (unat name_size)) (\<lambda>loc_msg.
      bindR (c_strlen (drop off_added_name loc_msg)) (\<lambda>len.
      bindR (store16 e loc_msg off_length (htons e (of_nat (8 + len)))) (\<lambda>loc_msg.
      bindR (Print_message_Info E loc_msg) (\<lambda>_. ret loc_msg)))))))"

definition build_User_Removed ::
    "env \<Rightarrow> byte list \<Rightarrow> client_disconnect_code \<Rightarrow> byte list \<Rightarrow> u16 \<Rightarrow> byte list res" where
  "build_User_Removed E loc_msg Code name name_size =
     (let e = host E in
      bindR (mem_write loc_msg off_type [mt_code MT_UserRemove]) (\<lambda>loc_msg.
      bindR (store64 e loc_msg off_timestamp (stamp_field E True)) (\<lambda>loc_msg.
      bindR (mem_write loc_msg off_removed_code [cd_code Code]) (\<lambda>loc_msg.
      bindR (c_strncpy loc_msg off_removed_name name (unat name_size)) (\<lambda>loc_msg.
      bindR (store16 e loc_msg off_length (htons e (of_nat (9 + unat name_size)))) (\<lambda>loc_msg.
      bindR (Print_message_Info E loc_msg) (\<lambda>_. ret loc_msg)))))))"

definition build_Server_to_client ::
    "env \<Rightarrow> byte list \<Rightarrow> u16 \<Rightarrow> byte list \<Rightarrow> u16 \<Rightarrow> byte list res" where
  "build_Server_to_client E loc_msg msg_length originalSender name_size =
     (let e = host E in
      bindR (mem_write loc_msg off_type [mt_code MT_ServerToClient]) (\<lambda>loc_msg.
      bindR (mem_read loc_msg off_text NET_TEXT_LEN) (\<lambda>loc_text.
      bindR (mem_write loc_msg off_text (replicate NET_TEXT_LEN 0)) (\<lambda>loc_msg.
      bindR (store64 e loc_msg off_timestamp (stamp_field E True)) (\<lambda>loc_msg.
      bindR (c_strncpy loc_msg off_sender originalSender (unat name_size)) (\<lambda>loc_msg.
      bindR (c_strncpy loc_msg off_s2c_text loc_text (unat msg_length)) (\<lambda>loc_msg.
      bindR (store16 e loc_msg off_length (htons e (of_nat (40 + unat msg_length)))) (\<lambda>loc_msg.
      bindR (Print_message_Info E loc_msg) (\<lambda>_. ret loc_msg)))))))))"

text \<open>
  The two builders of a server text share their body: the sender is the server's name in one and
  an argument in the other. \<open>formatted\<close> is what the format and its arguments expand to.
\<close>

definition build_response_as ::
    "env \<Rightarrow> byte list \<Rightarrow> byte list \<Rightarrow> byte list \<Rightarrow> byte list res" where
  "build_response_as E sender loc_msg formatted =
     (let e = host E in
      bindR (mem_write loc_msg off_type [mt_code MT_ServerToClient]) (\<lambda>loc_msg.
      bindR (c_snprintf (replicate NET_TEXT_LEN 0) NET_TEXT_LEN formatted) (\<lambda>text_formatted.
      bindR (store64 e loc_msg off_timestamp (stamp_field E True)) (\<lambda>loc_msg.
      bindR (c_strlen sender) (\<lambda>sender_len.
      bindR (c_strncpy loc_msg off_sender sender sender_len) (\<lambda>loc_msg.
      bindR (c_strlen text_formatted) (\<lambda>len.
      bindR (c_strncpy loc_msg off_s2c_text text_formatted len) (\<lambda>loc_msg.
      bindR (store16 e loc_msg off_length (htons e (of_nat (40 + len)))) (\<lambda>loc_msg.
      bindR (Print_message_Info E loc_msg) (\<lambda>_. ret loc_msg))))))))))"

definition build_Server_response ::
    "env \<Rightarrow> byte list \<Rightarrow> byte list \<Rightarrow> byte list \<Rightarrow> byte list res" where
  "build_Server_response E server_name loc_msg formatted =
     build_response_as E server_name loc_msg formatted"

definition build_Server_response_Special ::
    "env \<Rightarrow> byte list \<Rightarrow> byte list \<Rightarrow> byte list \<Rightarrow> byte list res" where
  "build_Server_response_Special E loc_msg name formatted =
     build_response_as E name loc_msg formatted"

section \<open>What the builders produce\<close>

text \<open>The time a stamp shows.\<close>

definition stamp_value :: "env \<Rightarrow> bool \<Rightarrow> u64" where
  "stamp_value E use = (if use \<and> now E \<noteq> -1 then of_int (now E) else 0)"

text \<open>
  A message buffer carries a frame when its first bytes are the frame and its strings can be
  logged, and it carries a message of the protocol when it carries the message's frame.
\<close>

definition printable :: "env \<Rightarrow> byte list \<Rightarrow> bool" where
  "printable E m \<longleftrightarrow> (\<exists>t. Print_message_Info E m = ret t)"

definition carries_frame :: "env \<Rightarrow> byte list \<Rightarrow> message_type \<Rightarrow> byte list \<Rightarrow> bool" where
  "carries_frame E m t body \<longleftrightarrow> length m = 555 \<and> length body \<le> 552
     \<and> take (3 + length body) m = frame t body \<and> printable E m"

definition carries :: "env \<Rightarrow> byte list \<Rightarrow> server_msg \<Rightarrow> bool" where
  "carries E m w \<longleftrightarrow> msg_ok w \<and> carries_frame E m (msg_type w) (msg_body w)"

lemma mem_of_word_zero: "mem_of_word e (0 :: u64) = net_image (0 :: u64)"
  by (cases e) (simp_all add: mem_of_word_def net_image_def upt_0_8)

lemma store16_net: "store16 e m off (htons e x) = mem_write m off (net_image x)"
  by (simp add: store16_def short.mem_to_net)

lemma store_net [wire_simps]:
  "store32 e m off (htonl e y) = mem_write m off (net_image y)"
  "store64 e m off (stamp_field E use) = mem_write m off (net_image (stamp_value E use))"
  if "host E = e"
  using that
  by (auto simp: store32_def store64_def stamp_field_def stamp_value_def long.mem_to_net net64.mem_to_net mem_of_word_zero)

lemma take_frame:
  assumes "length m = 555"
  shows "take (3 + n) m = m ! 0 # bslice m 1 2 @ bslice m 3 n"
proof -
  have "take (3 + n) m = bslice m 0 (1 + (2 + n))"
    by (simp add: bslice_def numeral_3_eq_3)
  also have "\<dots> = bslice m 0 1 @ bslice m (0 + 1) 2 @ bslice m (0 + 1 + 2) n"
    unfolding bslice_add ..
  also have "bslice m 0 1 = [m ! 0]" using assms by (cases m) (auto simp: bslice_def)
  also have "(0 + 1 + 2 :: nat) = 3" by simp
  finally show ?thesis by simp
qed

text \<open>The strings a message's type makes the log read, all inside the buffer.\<close>

definition loggable :: "byte list \<Rightarrow> bool" where
  "loggable m \<longleftrightarrow>
     (if m ! 0 = 0 \<or> m ! 0 = 1 then 0 \<in> set (drop 8 m)
      else if m ! 0 = 2 then 0 \<in> set (drop 3 m)
      else if m ! 0 = 3 then 0 \<in> set (drop 11 m) \<and> 0 \<in> set (drop 43 m)
      else if m ! 0 = 4 then 0 \<in> set (drop 11 m)
      else if m ! 0 = 5 then 0 \<in> set (drop 12 m)
      else True)"

lemma printable_iff: "printable E m \<longleftrightarrow> loggable m"
  by (simp add: printable_def loggable_def Print_message_Info_def Let_def hdr_type_def wire_simps
      c_string_def)

lemma carries_frameI:
  assumes "length m = 555" and "length body \<le> 552" and "m ! 0 = mt_code t"
    and "bslice m 1 2 = net_image (of_nat (length body) :: u16)"
    and "bslice m 3 (length body) = body" and "loggable m"
  shows "carries_frame E m t body"
  using assms by (simp add: carries_frame_def take_frame printable_iff frame_def)

text \<open>
  The end every builder has in common: with the type and the body in place, storing the length
  and logging the message completes the frame.
\<close>

definition finish :: "env \<Rightarrow> byte list \<Rightarrow> nat \<Rightarrow> byte list res" where
  "finish E m len =
     bindR (store16 (host E) m off_length (htons (host E) (of_nat len))) (\<lambda>m.
       bindR (Print_message_Info E m) (\<lambda>_. ret m))"

lemma loggable_patch_length:
  assumes "length m = 555" and "length bs = 2"
  shows "loggable (patch m 1 bs) \<longleftrightarrow> loggable m"
proof -
  have d: "drop i (patch m 1 bs) = drop i m" if "3 \<le> i" for i
    using assms that by (simp add: buf_simps)
  have z: "patch m 1 bs ! 0 = m ! 0" using assms by (simp add: buf_simps)
  show ?thesis unfolding loggable_def z
    by (simp add: d del: One_nat_def cong: if_cong split del: if_split)
qed

lemma Print_message_Info_cases:
  "(\<exists>t. Print_message_Info E m = ret t) \<or> Print_message_Info E m = fail Out_Of_Bounds"
  by (simp add: Print_message_Info_def Let_def c_string_def)

lemma Print_message_Info_fails: "\<not> loggable m \<Longrightarrow> Print_message_Info E m = fail Out_Of_Bounds"
  using printable_iff [of E m] Print_message_Info_cases [of E m] by (auto simp: printable_def)

lemma finish_eq:
  assumes "length m = 555"
  shows "finish E m len =
    (if loggable m then ret (patch m 1 (net_image (of_nat len :: u16))) else fail Out_Of_Bounds)"
proof -
  let ?m = "patch m 1 (net_image (of_nat len :: u16))"
  have f: "finish E m len = bindR (Print_message_Info E ?m) (\<lambda>_. ret ?m)"
    using assms by (simp add: finish_def store16_net wire_simps buf_simps)
  have "loggable ?m \<longleftrightarrow> loggable m"
    using assms by (intro loggable_patch_length) simp_all
  then show ?thesis unfolding f
    using printable_iff [of E ?m] by (auto simp: printable_def Print_message_Info_fails)
qed

lemma finish_frame:
  assumes "length m = 555" and "length body = len" and "len \<le> 552"
    and "m ! 0 = mt_code t" and "bslice m 3 len = body" and "loggable m"
  shows "\<exists>m'. finish E m len = ret m' \<and> carries_frame E m' t body"
proof -
  let ?m = "patch m 1 (net_image (of_nat len :: u16))"
  have "loggable ?m"
    using assms by (subst loggable_patch_length) simp_all
  then have "carries_frame E ?m t body"
    by (intro carries_frameI) (use assms in \<open>simp_all add: buf_simps\<close>)
  then show ?thesis using assms by (simp add: finish_eq)
qed

lemma finish_carries:
  assumes "length m = 555" and "msg_ok w" and "length (msg_body w) = len" and "len \<le> 552"
    and "m ! 0 = mt_code (msg_type w)" and "bslice m 3 len = msg_body w" and "loggable m"
  shows "\<exists>m'. finish E m len = ret m' \<and> carries E m' w"
  unfolding carries_def using finish_frame [OF assms(1,3-7)] assms(2) by blast

text \<open>Sending a buffer that carries a frame puts the frame on the socket.\<close>

lemma carries_frame_length:
  assumes "carries_frame E m t body"
  shows "sizeof_header + unat (ntohs (host E) (hdr_length (host E) m)) = 3 + length body"
proof -
  have l: "length m = 555" and b: "length body < 65536"
    and "take (3 + length body) m = frame t body"
    using assms by (auto simp: carries_frame_def)
  then have "m ! 0 # bslice m 1 2 @ bslice m 3 (length body) = frame t body"
    unfolding take_frame [OF l] by blast
  then have "bslice m 1 2 = net_image (of_nat (length body) :: u16)"
    using l by (auto simp: frame_def dest!: append_eq_append_conv [THEN iffD1, rotated])
  then show ?thesis
    using l b by (simp add: ntohs_hdr_length wire_simps unat_of_nat)
qed

lemma network_Send_frame:
  assumes "carries_frame E m t body"
  shows "network_Send E fd m =
    (case send_result E fd of None \<Rightarrow> ret (-1, [])
     | Some k \<Rightarrow> ret (0, [(fd, take k (frame t body))]))"
proof -
  obtain p where "Print_message_Info E m = ret p"
    using assms by (auto simp: carries_frame_def printable_def)
  moreover have "mem_read m 0 (3 + length body) = ret (frame t body)"
    using assms by (simp add: carries_frame_def buf_simps bslice_def)
  ultimately show ?thesis
    by (simp add: network_Send_def carries_frame_length [OF assms])
qed

lemma network_Send_carries:
  assumes "carries E m w"
  shows "network_Send E fd m =
    (case send_result E fd of None \<Rightarrow> ret (-1, [])
     | Some k \<Rightarrow> ret (0, [(fd, take k (encode w))]))"
  using assms unfolding carries_def encode_def by (auto intro: network_Send_frame)

text \<open>The builders up to the point where they store the length.\<close>

lemma build_User_Added_carries:
  assumes "length m = 555" and "drop 11 m = replicate 544 0"
    and "c_string name = ret s" and "unat sz \<le> 543"
  shows "\<exists>m'. build_User_Added E m name sz use = ret m' \<and>
    carries E m' (User_Added (stamp_value E use) (take (unat sz) s))"
proof -
  let ?n = "unat sz" and ?ts = "stamp_value E use"
  obtain s' where s': "s' = take ?n s"
    and img: "strncpy_image name ?n = s' @ replicate (?n - length s') 0"
    and nz: "0 \<notin> set s'" and sl: "length s' \<le> ?n"
    using strncpy_image_split [OF assms(3)] by metis
  let ?m2 = "patch (patch m 0 [4]) 3 (net_image ?ts)"
  let ?m3 = "patch ?m2 11 (strncpy_image name ?n)"
  have l: "length ?m2 = 555" "length ?m3 = 555" using assms by simp_all
  have "drop 11 ?m3 = strncpy_image name ?n @ drop (11 + ?n) ?m2"
    using assms l by (simp add: buf_simps)
  also have "drop (11 + ?n) ?m2 = drop ?n (drop 11 m)"
    using assms(1,4) by (simp add: buf_simps add.commute)
  finally have rest: "drop 11 ?m3 = s' @ replicate (544 - length s') 0"
    using assms(4) sl unfolding assms(2) img by (simp flip: replicate_add)
  have t: "?m3 ! 0 = 4" using assms l by (simp add: buf_simps)
  have "bslice ?m3 11 (length s') = s'" using rest by (simp add: bslice_def)
  moreover have "bslice ?m3 3 8 = net_image ?ts" using l assms by (simp add: buf_simps)
  ultimately have b: "bslice ?m3 3 (8 + length s') = net_image ?ts @ s'"
    unfolding bslice_add by simp
  have "build_User_Added E m name sz use = finish E ?m3 (8 + length s')"
    using assms l nz sl rest
    by (simp add: build_User_Added_def Let_def wire_simps buf_simps NUL_in_c_string c_strlen_def
        finish_def)
  moreover have "\<exists>m'. finish E ?m3 (8 + length s') = ret m' \<and> carries E m' (User_Added ?ts s')"
    by (rule finish_carries) (use l t b sl assms(4) rest in \<open>simp_all add: loggable_def\<close>)
  ultimately show ?thesis unfolding s' by simp
qed

lemma build_User_Removed_carries:
  assumes "length m = 555" and "drop 12 m = replicate 543 0"
    and "c_string name = ret s" and "unat sz \<le> 542"
  shows "\<exists>m'. build_User_Removed E m c name sz = ret m' \<and>
    carries E m' (User_Removed (stamp_value E True) c (strncpy_image name (unat sz)))"
proof -
  let ?n = "unat sz" and ?ts = "stamp_value E True" and ?img = "strncpy_image name (unat sz)"
  let ?m2 = "patch (patch (patch m 0 [5]) 3 (net_image ?ts)) 11 [cd_code c]"
  let ?m3 = "patch ?m2 12 ?img"
  have l: "length ?m2 = 555" "length ?m3 = 555" using assms by simp_all
  have "drop 12 ?m3 = ?img @ drop (12 + ?n) ?m2"
    using assms l by (simp add: buf_simps)
  also have "drop (12 + ?n) ?m2 = drop ?n (drop 12 m)"
    using assms(1,4) by (simp add: buf_simps add.commute)
  finally have rest: "drop 12 ?m3 = ?img @ replicate (543 - ?n) 0"
    unfolding assms(2) by simp
  have t: "?m3 ! 0 = 5" using assms l by (simp add: buf_simps)
  have "bslice ?m3 12 ?n = ?img" using rest by (simp add: bslice_def)
  moreover have "bslice ?m3 11 1 = [cd_code c]" using l assms by (simp add: buf_simps)
  moreover have "bslice ?m3 3 8 = net_image ?ts" using l assms by (simp add: buf_simps)
  ultimately have b: "bslice ?m3 3 (8 + (1 + ?n)) = net_image ?ts @ [cd_code c] @ ?img"
    unfolding bslice_add by simp
  have "build_User_Removed E m c name sz = finish E ?m3 (9 + ?n)"
    using assms l
    by (simp add: build_User_Removed_def Let_def wire_simps buf_simps NUL_in_c_string c_strlen_def
        finish_def)
  moreover have "\<exists>m'. finish E ?m3 (9 + ?n) = ret m' \<and> carries E m' (User_Removed ?ts c ?img)"
    by (rule finish_carries) (use l t b assms(4) rest in \<open>simp_all add: loggable_def\<close>)
  ultimately show ?thesis by simp
qed

lemma build_login_response_carries:
  assumes "length m = 555" and "c_string server_name = ret s" and "length s \<le> 543"
  shows "\<exists>m'. build_login_response E server_name m c = ret m' \<and>
    carries E m' (Login_Response c s)"
proof -
  let ?m2 = "patch (patch (patch (patch m 0 (replicate 555 0)) 0 [1]) 3
               (net_image (0xc001c001 :: u32))) 7 [lr_code c]"
  let ?m3 = "patch ?m2 8 (s @ [0])"
  have l: "length ?m2 = 555" "length ?m3 = 555" using assms by simp_all
  have rest: "drop 8 ?m3 = s @ 0 # drop (9 + length s) ?m2"
    using assms(3) l by (simp add: buf_simps add.commute)
  have t: "?m3 ! 0 = 1" using assms l by (simp add: buf_simps)
  have "bslice ?m3 8 (length s) = s" using rest by (simp add: bslice_def)
  moreover have "bslice ?m3 7 1 = [lr_code c]" using l assms by (simp add: buf_simps)
  moreover have "bslice ?m3 3 4 = net_image (0xc001c001 :: u32)"
    using l assms by (simp add: buf_simps)
  ultimately have b: "bslice ?m3 3 (4 + (1 + length s))
      = net_image (0xc001c001 :: u32) @ [lr_code c] @ s"
    unfolding bslice_add by simp
  have "build_login_response E server_name m c = finish E ?m3 (5 + length s)"
    using assms l
    by (simp add: build_login_response_def Let_def wire_simps buf_simps c_strcpy_def c_strlen_def
        finish_def)
  moreover have "\<exists>m'. finish E ?m3 (5 + length s) = ret m' \<and> carries E m' (Login_Response c s)"
    by (rule finish_carries) (use l t b assms(3) rest in \<open>simp_all add: loggable_def\<close>)
  ultimately show ?thesis by simp
qed

text \<open>A chat text: what the message holds before the length is stored.\<close>

lemma sender_bytes:
  assumes "length m = 555" and "bslice m 11 32 = replicate 32 0"
    and "c_string name = ret s" and "n \<le> 32"
  shows "bslice (patch m 11 (strncpy_image name n)) 11 32 = sender_field (take n s)"
proof -
  obtain s' where s': "s' = take n s"
    and img: "strncpy_image name n = s' @ replicate (n - length s') 0" and sl: "length s' \<le> n"
    using strncpy_image_split [OF assms(3)] by metis
  let ?m = "patch m 11 (strncpy_image name n)"
  have "bslice ?m (11 + n) (32 - n) = bslice m (11 + n) (32 - n)"
    using assms by (simp add: buf_simps)
  also have "\<dots> = drop n (bslice m 11 32)"
    by (simp add: bslice_def drop_take add.commute)
  finally have "bslice ?m 11 (n + (32 - n)) = strncpy_image name n @ replicate (32 - n) 0"
    using assms unfolding bslice_add by (simp add: buf_simps)
  then show ?thesis
    using assms(4) sl unfolding img s' [symmetric]
    by (simp add: sender_field_def flip: replicate_add)
qed

lemma build_Server_to_client_eq:
  assumes "length m = 555" and "drop 515 m = replicate 40 0" and "c_string name = ret s"
    and "unat sz \<le> 32" and "unat k \<le> 512"
  shows "\<exists>m'. length m' = 555 \<and> m' ! 0 = 3
    \<and> bslice m' 3 (40 + unat k) = net_image (stamp_value E True) @ sender_field (take (unat sz) s)
         @ strncpy_image (bslice m 3 512) (unat k)
    \<and> (loggable m' \<longleftrightarrow> unat k \<le> 511 \<or> 0 \<in> set (bslice m 3 512))
    \<and> build_Server_to_client E m k name sz = finish E m' (40 + unat k)"
proof -
  let ?n = "unat sz" and ?k = "unat k" and ?ts = "stamp_value E True" and ?t = "bslice m 3 512"
  let ?m2 = "patch (patch m 0 [3]) 3 (replicate 512 0)"
  let ?m3 = "patch ?m2 3 (net_image ?ts)"
  let ?m4 = "patch ?m3 11 (strncpy_image name ?n)"
  let ?m5 = "patch ?m4 43 (strncpy_image ?t ?k)"
  have l: "length ?m2 = 555" "length ?m3 = 555" "length ?m4 = 555" "length ?m5 = 555"
    using assms by simp_all
  have body_text: "bslice (patch m 0 [3]) 3 512 = ?t" using assms by (simp add: buf_simps)
  have src: "?k \<le> length ?t" using assms by simp
  have z: "bslice ?m3 11 32 = replicate 32 0"
  proof -
    have "bslice ?m2 3 512 = replicate 512 0" using assms by (simp add: buf_simps)
    then have "take 32 (drop 8 (bslice ?m2 3 512)) = replicate 32 0" by simp
    then have "bslice ?m2 11 32 = replicate 32 0" by (simp add: bslice_def drop_take)
    then show ?thesis using assms by (simp add: buf_simps)
  qed
  have sender: "bslice ?m4 11 32 = sender_field (take ?n s)"
    using sender_bytes [OF _ z assms(3,4)] l by simp
  have "bslice ?m5 3 (8 + (32 + ?k)) = bslice ?m5 3 8 @ bslice ?m5 11 32 @ bslice ?m5 43 ?k"
    unfolding bslice_add by simp
  also have "\<dots> = net_image ?ts @ sender_field (take ?n s) @ strncpy_image ?t ?k"
    using l sender assms(4,5) by (simp add: buf_simps)
  finally have b: "bslice ?m5 3 (40 + ?k)
      = net_image ?ts @ sender_field (take ?n s) @ strncpy_image ?t ?k"
    by simp
  have t0: "?m5 ! 0 = 3" using assms l by (simp add: buf_simps)
  have d43: "drop 43 ?m5 = strncpy_image ?t ?k @ drop (43 + ?k) ?m4"
    using l assms(5) by (simp add: buf_simps)
  have log: "loggable ?m5 \<longleftrightarrow> 0 \<in> set (drop 43 ?m5)"
    using t0 set_drop_subset_set_drop [of 11 43 ?m5] by (auto simp: loggable_def)
  have "0 \<in> set (drop 43 ?m5) \<longleftrightarrow> ?k \<le> 511 \<or> 0 \<in> set ?t"
  proof (cases "?k \<le> 511")
    case True
    have "drop 554 ?m4 = drop 39 (drop 515 m)"
      using assms(1,4) l by (simp add: buf_simps)
    then have "0 \<in> set (drop 554 ?m4)" using assms(2) by simp
    moreover have "set (drop 554 ?m4) \<subseteq> set (drop (43 + ?k) ?m4)"
      using True by (intro set_drop_subset_set_drop) simp
    ultimately show ?thesis using True unfolding d43 by auto
  next
    case False
    then have k: "?k = 512" using assms(5) by simp
    have "drop (43 + ?k) ?m4 = []" using l k by simp
    moreover have "0 \<in> set (strncpy_image ?t 512) \<longleftrightarrow> 0 \<in> set ?t"
      using assms(1) by (intro NUL_strncpy_image) simp
    ultimately show ?thesis using k False unfolding d43 by simp
  qed
  moreover have "build_Server_to_client E m k name sz = finish E ?m5 (40 + ?k)"
    using assms l body_text src
    by (simp add: build_Server_to_client_def Let_def wire_simps buf_simps NUL_in_c_string
        finish_def)
  ultimately show ?thesis using l(4) t0 b log by blast
qed

text \<open>
  A server text. The sender's name is copied without a terminator and the field is not cleared
  first: what the buffer held behind the name stays in the frame.
\<close>

definition response_body :: "env \<Rightarrow> byte list \<Rightarrow> byte list \<Rightarrow> byte list \<Rightarrow> byte list" where
  "response_body E s m formatted =
     net_image (stamp_value E True) @ s @ bslice m (11 + length s) (32 - length s)
       @ take 511 formatted"

lemma build_response_as_frame:
  assumes "length m = 555" and "m ! 554 = 0" and "c_string sender = ret s" and "length s \<le> 32"
    and "0 \<notin> set formatted"
  shows "\<exists>m'. build_response_as E sender m formatted = ret m' \<and>
    carries_frame E m' MT_ServerToClient (response_body E s m formatted)"
proof -
  let ?ts = "stamp_value E True" and ?t = "take 511 formatted"
  let ?buf = "patch (replicate 512 0) 0 (?t @ [0])"
  let ?m2 = "patch (patch m 0 [3]) 3 (net_image ?ts)"
  let ?m3 = "patch ?m2 11 s"
  let ?m4 = "patch ?m3 43 ?t"
  have tl: "length ?t \<le> 511" by simp
  have l: "length ?m2 = 555" "length ?m3 = 555" "length ?m4 = 555" "length ?buf = 512"
    using assms tl by simp_all
  have nz: "0 \<notin> set ?t" using assms(5) by (meson in_set_takeD)
  have buf: "?buf = ?t @ 0 # drop (Suc (length ?t)) (replicate 512 0)"
    using tl by (simp add: patch_def)
  have str: "c_string ?buf = ret ?t" unfolding buf by (rule c_string_app [OF nz])
  have img_t: "strncpy_image ?buf (length ?t) = ?t"
    unfolding buf by (rule strncpy_image_exact [OF nz refl])
  have img_s: "strncpy_image sender (length s) = s"
    using strncpy_image_string [OF assms(3), of "length s"] by simp
  have "bslice ?m3 (11 + length s) (32 - length s) = bslice m (11 + length s) (32 - length s)"
    using assms(1,4) by (simp add: buf_simps)
  then have "bslice ?m3 11 (length s + (32 - length s))
      = s @ bslice m (11 + length s) (32 - length s)"
    using l assms(4) unfolding bslice_add by (simp add: buf_simps)
  then have s3: "bslice ?m3 11 32 = s @ bslice m (11 + length s) (32 - length s)"
    using assms(4) by simp
  have "bslice ?m4 3 (8 + (32 + length ?t)) = bslice ?m4 3 8 @ bslice ?m4 11 32 @ bslice ?m4 43 (length ?t)"
    unfolding bslice_add by simp
  also have "\<dots> = response_body E s m formatted"
    using l s3 assms tl by (simp add: buf_simps response_body_def)
  finally have b: "bslice ?m4 3 (40 + length ?t) = response_body E s m formatted" by simp
  have t0: "?m4 ! 0 = 3" using assms l tl by (simp add: buf_simps)
  have "?m4 ! 554 = 0" using assms l tl by (simp add: buf_simps)
  then have "drop 43 ?m4 ! 511 = 0" using l by simp
  moreover have "511 < length (drop 43 ?m4)" using l by simp
  ultimately have "0 \<in> set (drop 43 ?m4)" by (metis nth_mem)
  then have log: "loggable ?m4"
    using t0 set_drop_subset_set_drop [of 11 43 ?m4] by (auto simp: loggable_def)
  have len: "length (response_body E s m formatted) = 40 + length ?t"
    using assms by (simp add: response_body_def)
  have "build_response_as E sender m formatted = finish E ?m4 (40 + length ?t)"
    using assms l str img_t img_s tl
    by (simp add: build_response_as_def Let_def wire_simps buf_simps NUL_in_c_string c_strlen_def
        c_snprintf_def finish_def)
  moreover have "\<exists>m'. finish E ?m4 (40 + length ?t) = ret m' \<and>
      carries_frame E m' MT_ServerToClient (response_body E s m formatted)"
    by (rule finish_frame) (use l t0 b tl len log in \<open>simp_all\<close>)
  ultimately show ?thesis by simp
qed

lemma response_body_clean:
  "bslice m (11 + length s) (32 - length s) = replicate (32 - length s) 0 \<Longrightarrow>
   response_body E s m formatted = msg_body (Server_To_Client (stamp_value E True) s (take 511 formatted))"
  by (simp add: response_body_def sender_field_def)

lemma build_response_as_carries:
  assumes "length m = 555" and "m ! 554 = 0" and "c_string sender = ret s" and "length s \<le> 32"
    and "0 \<notin> set formatted" and "bslice m 11 32 = replicate 32 0"
  shows "\<exists>m'. build_response_as E sender m formatted = ret m' \<and>
    carries E m' (Server_To_Client (stamp_value E True) s (take 511 formatted))"
proof -
  have "bslice m (11 + length s) (32 - length s) = drop (length s) (bslice m 11 32)"
    by (simp add: bslice_def drop_take add.commute)
  then have "bslice m (11 + length s) (32 - length s) = replicate (32 - length s) 0"
    using assms(6) by simp
  from response_body_clean [OF this]
  have "response_body E s m formatted
      = msg_body (Server_To_Client (stamp_value E True) s (take 511 formatted))" .
  moreover have "msg_ok (Server_To_Client (stamp_value E True) s (take 511 formatted))"
    using assms(4) c_string_nonzero [OF assms(3)] by simp
  ultimately show ?thesis
    using build_response_as_frame [OF assms(1-5), of E] by (simp add: carries_def)
qed

section \<open>Receiving, as a decision\<close>

text \<open>
  What the validation of a whole message comes to, independently of the order of the checks: the
  decision on a message of type \<open>t\<close> whose body of \<open>n\<close> bytes, as announced by the header, arrived
  as \<open>body\<close>.
\<close>

definition login_magic_ok :: "byte list \<Rightarrow> bool" where
  "login_magic_ok body \<longleftrightarrow> net_value (take 4 body) = (0x0badf00d :: u32)"

definition receive_decision :: "u8 \<Rightarrow> nat \<Rightarrow> byte list \<Rightarrow> network_validation_code" where
  "receive_decision t n body =
     (if n = 0 then NV_invalid_length
      else if t = 0 then
        (if length body \<le> 5 \<or> 37 \<le> length body then NV_Name_length_invalid
         else if body ! 4 \<noteq> 0 then NV_Version_invalid
         else if \<not> login_magic_ok body then NV_Magic_num_invalid
         else NV_Received_login)
      else if t = 2 then
        (if body \<noteq> [] \<and> body ! 0 = 47 then NV_Received_Server_command else NV_Received_Message)
      else NV_unset)"

text \<open>A message whose header has just been read into a cleared buffer.\<close>

definition header_only :: "env \<Rightarrow> u8 \<Rightarrow> u16 \<Rightarrow> byte list" where
  "header_only E t len = [t] @ net_image len @ replicate 552 0"

lemma header_only_simps [simp]:
  "length (header_only E t len) = 555"
  "hdr_type (header_only E t len) = t"
  "ntohs (host E) (hdr_length (host E) (header_only E t len)) = len"
  by (simp_all add: header_only_def hdr_type_def wire_simps ntohs_hdr_length bslice_def)

lemma drop_header_only: "drop 3 (header_only E t len) = replicate 552 0"
  by (simp add: header_only_def)

lemma Check_for_Message_header:
  "Check_for_Message (IO_Data (t # net_image len @ rest)) msg_zero = ret (3, header_only E t len)"
proof -
  have "take 3 (t # net_image len @ rest) = [t] @ net_image len"
    by (simp add: numeral_3_eq_3)
  then show ?thesis
    by (simp add: Check_for_Message_def sys_read_def wire_simps buf_simps header_only_def patch_def)
qed

lemma sys_read_header_only:
  assumes "length body \<le> unat len" and "length body \<le> 552"
  shows "sys_read (IO_Data body) (header_only E t len) 3 (unat len) =
    ret (int (length body), [t] @ net_image len @ body @ replicate (552 - length body) 0)"
proof -
  have "drop (3 + length body) (header_only E t len) = drop (length body) (drop 3 (header_only E t len))"
    by (simp add: add.commute)
  also have "\<dots> = replicate (552 - length body) 0"
    unfolding drop_header_only by simp
  finally have "patch (header_only E t len) 3 body
      = [t] @ net_image len @ body @ replicate (552 - length body) 0"
    by (simp add: patch_def header_only_def)
  then show ?thesis
    using assms by (simp add: sys_read_def buf_simps)
qed

lemma network_Receive_decision:
  assumes "length body \<le> unat len" and "length body \<le> 552"
  shows "\<exists>m. network_Receive E (IO_Data body) (header_only E t len) =
      ret (receive_decision t (unat len) body, m)
    \<and> (unat len \<noteq> 0 \<and> (t = 0 \<or> t = 2) \<longrightarrow>
         m = [t] @ net_image len @ body @ replicate (552 - length body) 0)"
proof (cases "unat len = 0")
  case True
  then show ?thesis by (simp add: network_Receive_def receive_decision_def)
next
  case False
  let ?m = "[t] @ net_image len @ body @ replicate (552 - length body) 0"
  have lm: "length ?m = 555" using assms by simp
  have rd: "sys_read (IO_Data body) (header_only E t len) 3 (unat len) = ret (int (length body), ?m)"
    by (rule sys_read_header_only [OF assms])
  consider "t = 0" | "t = 2" | "t \<noteq> 0" "t \<noteq> 2" by blast
  then show ?thesis
  proof cases
    case 1
    have "?m ! 7 = body ! 4" and "bslice ?m 3 4 = take 4 body" if "5 < length body"
      using that by (simp_all add: nth_append nth_Cons' bslice_def)
    then have "ntohl (host E) (auth_magic (host E) ?m) = net_value (take 4 body)"
      and "auth_version ?m = body ! 4" if "5 < length body"
      using that lm by (simp_all add: ntohl_auth_magic auth_version_def wire_simps)
    then show ?thesis
      using 1 False rd
      by (auto simp: network_Receive_def receive_decision_def login_magic_ok_def wire_simps Let_def)
  next
    case 2
    have "?m ! 3 = 47 \<longleftrightarrow> body \<noteq> [] \<and> body ! 0 = 47"
      by (cases body) (simp_all add: nth_append nth_Cons')
    then show ?thesis
      using 2 False rd
      by (auto simp: network_Receive_def receive_decision_def wire_simps Let_def)
  next
    case 3
    then show ?thesis
      using False by (simp add: network_Receive_def receive_decision_def)
  qed
qed

section \<open>Properties\<close>

text \<open>C40: The conversion of \<^verbatim>\<open>network.c\<close>, which swaps the halves of \<^verbatim>\<open>htonl\<close>ed words on
  a little-endian host and does nothing on a big-endian one, computes the same value as the byte
  loop of \<^verbatim>\<open>util.c\<close>, in both directions, and its two directions are inverse to each other.\<close>

theorem htonll_equivalence:
  "htonll e x = hton64u e x \<and> ntohll e x = ntoh64u e x \<and> ntohll e (htonll e x) = x"
  by (simp add: htonll_eq_hton64u ntohll_eq_ntoh64u util64.to_host_to_net)

text \<open>C13: On a message whose header announces \<open>len\<close> bytes and whose body arrives within the
  buffer, \<open>network_Receive\<close> never faults and returns exactly the decision on the type, the
  announced length and the body; it accepts a login if and only if the type is a login request, the
  body has 6 to 36 bytes, its magic number is \<^verbatim>\<open>0x0badf00d\<close> and its version is 0.\<close>

theorem network_Receive_decides:
  assumes "length body \<le> unat len" and "length body \<le> 552"
  shows "\<exists>m. network_Receive E (IO_Data body) (header_only E t len) =
      ret (receive_decision t (unat len) body, m)
    \<and> (receive_decision t (unat len) body = NV_Received_login \<longleftrightarrow>
         t = 0 \<and> 6 \<le> length body \<and> length body \<le> 36 \<and> body ! 4 = 0
         \<and> net_value (take 4 body) = (0x0badf00d :: u32))"
proof -
  have "receive_decision t (unat len) body = NV_Received_login \<longleftrightarrow>
         t = 0 \<and> 6 \<le> length body \<and> length body \<le> 36 \<and> body ! 4 = 0
         \<and> net_value (take 4 body) = (0x0badf00d :: u32)"
    using assms by (auto simp: receive_decision_def login_magic_ok_def)
  then show ?thesis using network_Receive_decision [OF assms] by blast
qed

definition example_env :: env where
  "example_env = \<lparr>host = Little, now = 1705088661, send_result = (\<lambda>_. Some 1000)\<rparr>"

definition example_login_body :: "byte list" where
  "example_login_body = net_image (0x0badf00d :: u32) @ [0] @ bytes_of ''maich''"

theorem network_Receive_decides_witness:
  "\<exists>m. network_Receive example_env (IO_Data example_login_body) (header_only example_env 0 10) =
     ret (NV_Received_login, m)"
proof -
  have l: "length example_login_body = 10" by (simp add: example_login_body_def)
  have d: "receive_decision 0 (unat (10 :: u16)) example_login_body = NV_Received_login"
    by (simp add: receive_decision_def l login_magic_ok_def)
       (simp add: example_login_body_def nth_append)
  have "length example_login_body \<le> unat (10 :: u16)" and "length example_login_body \<le> 552"
    by (simp_all add: l)
  from network_Receive_decides [OF this, of example_env 0] show ?thesis unfolding d by blast
qed

text \<open>C31: The length the header announces is handed to \<^verbatim>\<open>read\<close> unchecked: a login or a chat
  message that announces and delivers more than the 552 bytes of the union is written past the end
  of the message buffer.\<close>

theorem network_Receive_overflow:
  assumes "552 < length body" and "length body \<le> unat len" and "t = 0 \<or> t = 2"
  shows "network_Receive E (IO_Data body) (header_only E t len) = fail Out_Of_Bounds"
proof -
  have "sys_read (IO_Data body) (header_only E t len) 3 (unat len) = fail Out_Of_Bounds"
    using assms by (simp add: sys_read_def buf_simps)
  moreover have "0 < unat len" using assms(1,2) by linarith
  ultimately show ?thesis
    using assms(3) by (auto simp: network_Receive_def wire_simps)
qed

theorem network_Receive_overflow_witness:
  "network_Receive example_env (IO_Data (replicate 600 65)) (header_only example_env 2 600) =
     fail Out_Of_Bounds"
proof -
  have "552 < length (replicate 600 (65 :: byte))" by simp
  moreover have "length (replicate 600 (65 :: byte)) \<le> unat (600 :: u16)" by simp
  ultimately show ?thesis using network_Receive_overflow by blast
qed

text \<open>What \<open>network_Send\<close> does with a buffer that carries \<open>w\<close>.\<close>

definition sends :: "env \<Rightarrow> u16 \<Rightarrow> byte list \<Rightarrow> server_msg \<Rightarrow> bool" where
  "sends E fd m w \<longleftrightarrow> network_Send E fd m =
     (case send_result E fd of None \<Rightarrow> ret (-1, []) | Some k \<Rightarrow> ret (0, [(fd, take k (encode w))]))"

lemma carries_sends: "carries E m w \<Longrightarrow> sends E fd m w"
  unfolding sends_def by (rule network_Send_carries)

text \<open>The notice of a new user, built in a cleared message from a terminated name and sent,
  puts the protocol's frame on the socket: its time stamp is the clock's, or 0 when the notice is
  about a user who was there before or the clock failed, and its name is the first \<open>sz\<close> bytes of
  the user's name.\<close>

theorem user_added_frame:
  assumes "c_string name = ret s" and "unat sz \<le> 543"
  shows "\<exists>m. build_User_Added E msg_zero name sz use = ret m \<and>
    sends E fd m (User_Added (stamp_value E use) (take (unat sz) s))"
  using build_User_Added_carries [OF length_msg_zero _ assms, of E use] carries_sends by auto

theorem user_added_frame_witness:
  "\<exists>m. build_User_Added example_env msg_zero (bytes_of ''maich'' @ replicate 27 0) 5 True = ret m \<and>
    sends example_env 6 m (User_Added 1705088661 (bytes_of ''maich''))"
proof -
  have s: "c_string (bytes_of ''maich'' @ replicate 27 0) = ret (bytes_of ''maich'')"
    by (rule c_string_padded_end) (simp_all add: bytes_of_def)
  have n: "unat (5 :: u16) \<le> 543" by simp
  show ?thesis
    using user_added_frame [OF s n, of example_env True 6]
    by (simp add: stamp_value_def example_env_def bytes_of_def)
qed

text \<open>The notice that a user left carries the reason for it and the user's name padded or cut
  to the user's stored name length: sent, it is the protocol's frame.\<close>

theorem user_removed_frame:
  assumes "c_string name = ret s" and "unat sz \<le> 542"
  shows "\<exists>m. build_User_Removed E msg_zero c name sz = ret m \<and>
    sends E fd m (User_Removed (stamp_value E True) c
                    (take (unat sz) s @ replicate (unat sz - length s) 0))"
  using build_User_Removed_carries [OF length_msg_zero _ assms, of E c] carries_sends
  by (auto simp: strncpy_image_string [OF assms(1)])

theorem user_removed_frame_witness:
  "\<exists>m. build_User_Removed example_env msg_zero CD_communication_error
         (bytes_of ''maich'' @ replicate 27 0) 5 = ret m \<and>
    sends example_env 6 m (User_Removed 1705088661 CD_communication_error (bytes_of ''maich''))"
proof -
  have s: "c_string (bytes_of ''maich'' @ replicate 27 0) = ret (bytes_of ''maich'')"
    by (rule c_string_padded_end) (simp_all add: bytes_of_def)
  have n: "unat (5 :: u16) \<le> 542" by simp
  show ?thesis
    using user_removed_frame [OF s n, of example_env CD_communication_error 6]
    by (simp add: stamp_value_def example_env_def bytes_of_def)
qed

text \<open>A login response carries the code and the whole server name, whatever the message
  buffer held before.\<close>

theorem login_response_frame:
  assumes "length m = 555" and "c_string server_name = ret s" and "length s \<le> 543"
  shows "\<exists>m'. build_login_response E server_name m c = ret m' \<and> sends E fd m' (Login_Response c s)"
  using build_login_response_carries [OF assms, of E c] carries_sends by auto

theorem login_response_frame_witness:
  "\<exists>m'. build_login_response example_env (bytes_of ''Server_04'' @ replicate 23 0)
          (replicate 555 255) LR_name_taken = ret m' \<and>
     sends example_env 6 m' (Login_Response LR_name_taken (bytes_of ''Server_04''))"
proof -
  have s: "c_string (bytes_of ''Server_04'' @ replicate 23 0) = ret (bytes_of ''Server_04'')"
    by (rule c_string_padded_end) (simp_all add: bytes_of_def)
  have l: "length (replicate 555 (255 :: byte)) = 555" "length (bytes_of ''Server_04'') \<le> 543"
    by simp_all
  show ?thesis by (rule login_response_frame [OF l(1) s l(2)])
qed

text \<open>A received chat or command message: header, body, zeros.\<close>

definition received :: "u8 \<Rightarrow> u16 \<Rightarrow> byte list \<Rightarrow> byte list" where
  "received t len body = [t] @ net_image len @ body @ replicate (552 - length body) 0"

lemma length_received [simp]: "length body \<le> 552 \<Longrightarrow> length (received t len body) = 555"
  by (simp add: received_def)

lemma drop3_received: "drop 3 (received t len body) = body @ replicate (552 - length body) 0"
  by (simp add: received_def)

lemma bslice_received:
  "bslice (received t len body) (3 + i) n = take n (drop i (body @ replicate (552 - length body) 0))"
  by (simp add: bslice_def drop3_received [of t len body, symmetric] add.commute)

lemma received_text:
  "length body \<le> 512 \<Longrightarrow>
   bslice (received t len body) 3 512 = body @ replicate (512 - length body) 0"
  using bslice_received [of t len body 0 512] by simp

lemma received_tail:
  assumes "length body \<le> 512"
  shows "drop 515 (received t len body) = replicate 40 0"
proof -
  have "drop 515 (received t len body) = drop 512 (drop 3 (received t len body))" by simp
  then show ?thesis unfolding drop3_received using assms by simp
qed

lemma received_NUL: "length body \<le> 512 \<Longrightarrow> 0 \<in> set (drop 43 (received t len body))"
  using received_tail [of body t len] set_drop_subset_set_drop [of 43 515 "received t len body"]
  by auto

lemma received_last: "length body \<le> 512 \<Longrightarrow> received t len body ! 554 = 0"
  using received_tail [of body t len] nth_drop [of 515 "received t len body" 39] by simp

lemma build_Server_to_client_carries:
  assumes "length body \<le> 511" and "unat len = length body" and "0 \<notin> set body"
    and "c_string name = ret s" and "unat sz \<le> 32"
  shows "\<exists>m. build_Server_to_client E (received 2 len body) len name sz = ret m \<and>
    carries E m (Server_To_Client (stamp_value E True) (take (unat sz) s) body)"
proof -
  let ?m = "received 2 len body" and ?w = "Server_To_Client (stamp_value E True) (take (unat sz) s) body"
  have l: "length ?m = 555" and k: "unat len \<le> 512" using assms by simp_all
  obtain m' where m': "length m' = 555" "m' ! 0 = 3"
      "bslice m' 3 (40 + unat len) = net_image (stamp_value E True) @ sender_field (take (unat sz) s)
         @ strncpy_image (bslice ?m 3 512) (unat len)"
      "loggable m' \<longleftrightarrow> unat len \<le> 511 \<or> 0 \<in> set (bslice ?m 3 512)"
      and b: "build_Server_to_client E ?m len name sz = finish E m' (40 + unat len)"
    using build_Server_to_client_eq [OF l received_tail assms(4,5) k, of E] assms(1) by auto
  have "strncpy_image (bslice ?m 3 512) (unat len) = body"
    using assms by (simp add: received_text strncpy_image_exact)
  moreover have "length (take (unat sz) s) \<le> 32" using assms(5) by simp
  moreover have "0 \<notin> set (take (unat sz) s)"
    using c_string_nonzero [OF assms(4)] by (meson in_set_takeD)
  ultimately have "\<exists>m. finish E m' (40 + unat len) = ret m \<and> carries E m ?w"
    using m' assms(1,2) by (intro finish_carries) simp_all
  then show ?thesis unfolding b .
qed

text \<open>C18: A chat text is broadcast as it was received: for a body of at most 511 bytes without
  NUL, announced with its length, the frame built from the received message carries the clock's
  time, the sender's stored name padded to 32 bytes, and exactly the body.\<close>

theorem chat_text_frame:
  assumes "length body \<le> 511" and "unat len = length body" and "0 \<notin> set body"
    and "c_string name = ret s" and "unat sz \<le> 32"
  shows "\<exists>m. build_Server_to_client E (received 2 len body) len name sz = ret m \<and>
    sends E fd m (Server_To_Client (stamp_value E True) (take (unat sz) s) body)"
  using build_Server_to_client_carries [OF assms, of E] carries_sends by blast

theorem chat_text_frame_witness:
  "\<exists>m. build_Server_to_client example_env (received 2 2 (bytes_of ''hi'')) 2
         (bytes_of ''maich'' @ replicate 27 0) 5 = ret m \<and>
     sends example_env 6 m (Server_To_Client 1705088661 (bytes_of ''maich'') (bytes_of ''hi''))"
proof -
  have s: "c_string (bytes_of ''maich'' @ replicate 27 0) = ret (bytes_of ''maich'')"
    by (rule c_string_padded_end) (simp_all add: bytes_of_def)
  have h: "length (bytes_of ''hi'') \<le> 511" "unat (2 :: u16) = length (bytes_of ''hi'')"
    "0 \<notin> set (bytes_of ''hi'')" "unat (5 :: u16) \<le> 32"
    by (simp_all add: bytes_of_def)
  show ?thesis
    using chat_text_frame [OF h(1-3) s h(4), of example_env 6]
    by (simp add: stamp_value_def example_env_def bytes_of_def)
qed

text \<open>C32: The announced length of a chat text is copied, not the received one: building the
  broadcast from a received message faults exactly when the header announces more than 512 bytes,
  or announces 512 and none of the text's 512 bytes is NUL (the text is then logged past the end of
  the buffer).\<close>

theorem chat_text_bounds:
  assumes "length body \<le> 512" and "c_string name = ret s" and "unat sz \<le> 32"
  shows "(\<exists>m. build_Server_to_client E (received 2 len body) len name sz = ret m) \<longleftrightarrow>
    unat len < 512 \<or> unat len = 512 \<and> (length body < 512 \<or> 0 \<in> set body)"
proof (cases "unat len \<le> 512")
  case True
  have l: "length (received 2 len body) = 555" using assms by simp
  have z: "0 \<in> set (bslice (received 2 len body) 3 512) \<longleftrightarrow> length body < 512 \<or> 0 \<in> set body"
    using assms(1) by (auto simp: received_text)
  obtain m' where "length m' = 555"
      "loggable m' \<longleftrightarrow> unat len \<le> 511 \<or> 0 \<in> set (bslice (received 2 len body) 3 512)"
      "build_Server_to_client E (received 2 len body) len name sz = finish E m' (40 + unat len)"
    using build_Server_to_client_eq [OF l received_tail assms(2,3) True, of E] assms(1) by auto
  then show ?thesis using True z by (auto simp: finish_eq)
next
  case False
  have "\<nexists>m. build_Server_to_client E (received 2 len body) len name sz = ret m"
  proof
    assume "\<exists>m. build_Server_to_client E (received 2 len body) len name sz = ret m"
    then show False
      using assms(1) False
      by (auto simp: build_Server_to_client_def Let_def wire_simps bindR_ret_iff c_strncpy_def
          mem_write_ret_iff store64_def split: if_splits)
  qed
  with False show ?thesis by auto
qed

theorem chat_text_bounds_witness:
  "(\<exists>m. build_Server_to_client example_env (received 2 600 (bytes_of ''A'')) 600
         (bytes_of ''maich'' @ replicate 27 0) 5 = ret m) \<longleftrightarrow> False"
proof -
  have s: "c_string (bytes_of ''maich'' @ replicate 27 0) = ret (bytes_of ''maich'')"
    by (rule c_string_padded_end) (simp_all add: bytes_of_def)
  have h: "length (bytes_of ''A'') \<le> 512" "unat (5 :: u16) \<le> 32" by simp_all
  show ?thesis using chat_text_bounds [OF h(1) s h(2), of example_env 600] by simp
qed

text \<open>A server text is built over the message it answers without clearing it. The frame is
  the right one, up to the sender: the bytes of the 32-byte field behind the server's name are
  bytes of the client's own text, from position \<open>8 + length s\<close> on.\<close>

theorem server_text_residue:
  assumes "length body \<le> 512" and "c_string server_name = ret s" and "length s \<le> 32"
    and "0 \<notin> set formatted"
  shows "\<exists>m. build_Server_response E server_name (received 2 len body) formatted = ret m \<and>
    carries_frame E m MT_ServerToClient
      (net_image (stamp_value E True)
       @ s @ take (32 - length s) (drop (8 + length s) (body @ replicate (552 - length body) 0))
       @ take 511 formatted)"
proof -
  have "bslice (received 2 len body) (11 + length s) (32 - length s) =
      take (32 - length s) (drop (8 + length s) (body @ replicate (552 - length body) 0))"
    using bslice_received [of 2 len body "8 + length s" "32 - length s"] by simp
  moreover have "length (received 2 len body) = 555" and "received 2 len body ! 554 = 0"
    using assms(1) received_last by simp_all
  ultimately show ?thesis
    using build_response_as_frame [of "received 2 len body" server_name s formatted E] assms(2-4)
    by (simp add: build_Server_response_def response_body_def)
qed

theorem server_text_residue_witness:
  "\<exists>m. build_Server_response example_env (bytes_of ''S'' @ replicate 31 0)
         (received 2 13 (bytes_of ''/kick no body'')) (bytes_of ''no'') = ret m \<and>
     carries_frame example_env m MT_ServerToClient
       (net_image (1705088661 :: u64) @ (bytes_of ''Sbody'' @ replicate 27 0) @ bytes_of ''no'')"
proof -
  have s: "c_string (bytes_of ''S'' @ replicate 31 0) = ret (bytes_of ''S'')"
    by (rule c_string_padded_end) (simp_all add: bytes_of_def)
  have h: "length (bytes_of ''/kick no body'') \<le> 512" "length (bytes_of ''S'') \<le> 32"
    "0 \<notin> set (bytes_of ''no'')"
    by (simp_all add: bytes_of_def)
  have d: "take (32 - length (bytes_of ''S'')) (drop (8 + length (bytes_of ''S''))
      (bytes_of ''/kick no body'' @ replicate (552 - length (bytes_of ''/kick no body'')) 0))
      = bytes_of ''body'' @ replicate 27 0"
    by (simp add: bytes_of_def)
  show ?thesis
    using server_text_residue [OF h(1) s h(2,3), of example_env 13]
    unfolding d by (simp add: stamp_value_def example_env_def bytes_of_def)
qed

end
