(* ===== verification/DLL.thy ===== *)
theory DLL
  imports Chat_Prelude
begin

text \<open>
  The doubly linked list the program keeps twice: the users of \<^verbatim>\<open>src/src/user.c\<close> and the
  thread names of \<^verbatim>\<open>src/src/core/logger.c\<close>. A list is a heap of nodes with a dfront and a dback
  pointer; a node that is not in the heap is freed memory, and following a pointer to one is
  \<^const>\<open>Dangling\<close>. The two modules have the same code for adding at the end, for unlinking a
  node and for the search, so it is modelled here once, over nodes with any content.

  The second half states what such a list is: the segment predicate, the list of the contents it
  stands for, and the interface \<open>registry\<close> of a list of entries with a key.
\<close>

section \<open>Nodes, pointers and the heap\<close>

record 'p dnode =
  prev_ptr :: "nat option"
  next_ptr :: "nat option"
  item :: 'p

record 'n dll =
  heap :: "nat \<rightharpoonup> 'n"
  dfront :: "nat option"
  dback :: "nat option"

definition dll_empty :: "'n dll" where
  "dll_empty = \<lparr>heap = Map.empty, dfront = None, dback = None\<rparr>"

definition deref :: "(nat \<rightharpoonup> 'n) \<Rightarrow> nat option \<Rightarrow> 'n res" where
  "deref h p = (case p of None \<Rightarrow> fail Null_Deref
     | Some a \<Rightarrow> (case h a of None \<Rightarrow> fail Dangling | Some n \<Rightarrow> ret n))"

definition assign :: "(nat \<rightharpoonup> 'n) \<Rightarrow> nat option \<Rightarrow> ('n \<Rightarrow> 'n) \<Rightarrow> (nat \<rightharpoonup> 'n) res" where
  "assign h p f = bindR (deref h p) (\<lambda>n. ret (h(the p \<mapsto> f n)))"

lemma deref_simps [simp]:
  "deref h None = fail Null_Deref"
  "h a = Some n \<Longrightarrow> deref h (Some a) = ret n"
  "h a = None \<Longrightarrow> deref h (Some a) = fail Dangling"
  by (simp_all add: deref_def)

lemma assign_simps [simp]:
  "assign h None f = fail Null_Deref"
  "h a = Some n \<Longrightarrow> assign h (Some a) f = ret (h(a \<mapsto> f n))"
  "h a = None \<Longrightarrow> assign h (Some a) f = fail Dangling"
  by (simp_all add: assign_def)

lemma deref_not_None [simp]: "deref h p \<noteq> None"
  by (auto simp: deref_def split: option.splits)

section \<open>The operations\<close>

text \<open>A new, cleared node with its content, linked in at the end.\<close>

definition dll_append :: "nat \<Rightarrow> 'p \<Rightarrow> 'p dnode dll \<Rightarrow> 'p dnode dll res" where
  "dll_append a v l =
     (let h = (heap l)(a \<mapsto> \<lparr>prev_ptr = None, next_ptr = None, item = v\<rparr>) in
      case dfront l of
        None \<Rightarrow> ret \<lparr>heap = h, dfront = Some a, dback = Some a\<rparr>
      | Some _ \<Rightarrow>
          bindR (assign h (dback l) (\<lambda>n. n\<lparr>next_ptr := Some a\<rparr>)) (\<lambda>h.
          bindR (assign h (Some a) (\<lambda>n. n\<lparr>prev_ptr := dback l\<rparr>)) (\<lambda>h.
            ret \<lparr>heap = h, dfront = dfront l, dback = Some a\<rparr>)))"

text \<open>
  Unlinking the node at \<open>p\<close>, in the code's four cases, and freeing it: a node that is freed already is
  \<^const>\<open>Dangling\<close>.
\<close>

definition dll_unlink :: "nat \<Rightarrow> 'p dnode dll \<Rightarrow> 'p dnode dll res" where
  "dll_unlink p l =
     bindR
      (if dfront l = dback l then ret (l\<lparr>dfront := None, dback := None\<rparr>)
       else if Some p = dfront l then
         bindR (deref (heap l) (dfront l)) (\<lambda>n.
         bindR (assign (heap l) (next_ptr n) (\<lambda>m. m\<lparr>prev_ptr := None\<rparr>)) (\<lambda>h.
           ret (l\<lparr>heap := h, dfront := next_ptr n\<rparr>)))
       else if Some p = dback l then
         bindR (deref (heap l) (dback l)) (\<lambda>n.
         bindR (assign (heap l) (prev_ptr n) (\<lambda>m. m\<lparr>next_ptr := None\<rparr>)) (\<lambda>h.
           ret (l\<lparr>heap := h, dback := prev_ptr n\<rparr>)))
       else
         bindR (deref (heap l) (Some p)) (\<lambda>n.
         bindR (assign (heap l) (prev_ptr n) (\<lambda>m. m\<lparr>next_ptr := next_ptr n\<rparr>)) (\<lambda>h.
         bindR (deref h (Some p)) (\<lambda>n.
         bindR (assign h (next_ptr n) (\<lambda>m. m\<lparr>prev_ptr := prev_ptr n\<rparr>)) (\<lambda>h.
           ret (l\<lparr>heap := h\<rparr>))))))
      (\<lambda>l. bindR (deref (heap l) (Some p)) (\<lambda>_. ret (l\<lparr>heap := (heap l)(p := None)\<rparr>)))"

text \<open>The search loop: \<open>None\<close>, not returning, when it runs into a cycle.\<close>

partial_function (option) dll_find_from ::
    "('p \<Rightarrow> bool) \<Rightarrow> (nat \<rightharpoonup> 'p dnode) \<Rightarrow> nat option \<Rightarrow> nat option res" where
  "dll_find_from P h p =
     (case p of
        None \<Rightarrow> ret None
      | Some a \<Rightarrow> bindR (deref h (Some a)) (\<lambda>n.
          if P (item n) then ret (Some a) else dll_find_from P h (next_ptr n)))"

declare dll_find_from.simps [code]

lemma dll_find_from_Null [simp]: "dll_find_from P h None = ret None"
  by (simp add: dll_find_from.simps)

lemma dll_find_from_Some:
  "h a = Some n \<Longrightarrow> dll_find_from P h (Some a) =
     (if P (item n) then ret (Some a) else dll_find_from P h (next_ptr n))"
  by (simp add: dll_find_from.simps)

section \<open>What a list is\<close>

text \<open>
  \<open>dseg h p pv as q z\<close>: from pointer \<open>p\<close>, reached from \<open>pv\<close>, the \<open>next\<close> pointers lead
  through the addresses \<open>as\<close> to \<open>q\<close>, the \<open>prev\<close> pointers lead back, and \<open>z\<close> is the last node
  passed (\<open>pv\<close> when there is none).
\<close>

fun dseg :: "(nat \<rightharpoonup> 'p dnode) \<Rightarrow> nat option \<Rightarrow> nat option \<Rightarrow> nat list
    \<Rightarrow> nat option \<Rightarrow> nat option \<Rightarrow> bool" where
  "dseg h p pv [] q z \<longleftrightarrow> p = q \<and> pv = z"
| "dseg h p pv (a # as) q z \<longleftrightarrow> p = Some a \<and>
     (case h a of None \<Rightarrow> False
      | Some n \<Rightarrow> prev_ptr n = pv \<and> dseg h (next_ptr n) (Some a) as q z)"

definition dll_ok :: "'p dnode dll \<Rightarrow> nat list \<Rightarrow> bool" where
  "dll_ok l as \<longleftrightarrow>
     dseg (heap l) (dfront l) None as None (dback l) \<and> distinct as \<and> dom (heap l) = set as"

definition item_at :: "(nat \<rightharpoonup> 'p dnode) \<Rightarrow> nat \<Rightarrow> 'p" where
  "item_at h a = item (the (h a))"

definition dll_rep :: "'p dnode dll \<Rightarrow> 'p list \<Rightarrow> bool" where
  "dll_rep l vs \<longleftrightarrow> (\<exists>as. dll_ok l as \<and> vs = map (item_at (heap l)) as)"

lemma dseg_append:
  "dseg h p pv (as @ bs) q z \<longleftrightarrow> (\<exists>r y. dseg h p pv as r y \<and> dseg h r y bs q z)"
  by (induction as arbitrary: p pv) (auto split: option.splits)

lemma dseg_frame:
  "(\<And>a. a \<in> set as \<Longrightarrow> h' a = h a) \<Longrightarrow> dseg h' p pv as q z = dseg h p pv as q z"
  by (induction as arbitrary: p pv) (auto split: option.splits)

lemma dseg_upd [simp]: "a \<notin> set as \<Longrightarrow> dseg (h(a := v)) p pv as q z = dseg h p pv as q z"
  by (rule dseg_frame) auto

text \<open>
  The last node of a segment decides where it ends, the first one where it was entered from.
\<close>

lemma dseg_snoc:
  "dseg h p pv (as @ [a]) q z \<longleftrightarrow>
     z = Some a \<and> (case h a of None \<Rightarrow> False | Some n \<Rightarrow>
       next_ptr n = q \<and> dseg h p pv as (Some a) (prev_ptr n))"
  by (auto simp: dseg_append split: option.splits)

lemma dseg_last_next:
  assumes "dseg h p pv (as @ [a]) q z" and "a \<notin> set as" and "h a = Some n"
  shows "dseg (h(a \<mapsto> n\<lparr>next_ptr := q'\<rparr>)) p pv (as @ [a]) q' z"
  using assms by (simp add: dseg_snoc)

lemma dseg_first_prev:
  assumes "dseg h (Some b) pv (b # bs) q z" and "b \<notin> set bs" and "h b = Some n"
  shows "dseg (h(b \<mapsto> n\<lparr>prev_ptr := pv'\<rparr>)) (Some b) pv' (b # bs) q z"
  using assms by simp

lemma dseg_last_eq: "dseg h p pv as q z \<Longrightarrow> z = (if as = [] then pv else Some (last as))"
  by (cases as rule: rev_cases) (auto simp: dseg_snoc)

lemma dseg_first_eq: "dseg h p pv as q z \<Longrightarrow> p = (if as = [] then q else Some (hd as))"
  by (cases as) auto

lemma dseg_unique:
  "dseg h p pv as None z \<Longrightarrow> dseg h p pv' bs None z' \<Longrightarrow> as = bs"
proof (induction as arbitrary: p pv pv' bs)
  case Nil
  then show ?case by (cases bs) auto
next
  case (Cons a as)
  then show ?case by (cases bs) (auto split: option.splits)
qed

lemma dll_ok_unique: "dll_ok l as \<Longrightarrow> dll_ok l bs \<Longrightarrow> as = bs"
  unfolding dll_ok_def by (blast intro: dseg_unique)

lemma dll_rep_unique: "dll_rep l vs \<Longrightarrow> dll_rep l ws \<Longrightarrow> vs = ws"
  by (auto simp: dll_rep_def dest: dll_ok_unique)

lemma dll_ok_empty [simp]: "dll_ok dll_empty []"
  by (simp add: dll_ok_def dll_empty_def)

lemma dll_rep_empty [simp]: "dll_rep dll_empty []"
  unfolding dll_rep_def by (intro exI [of _ "[]"]) simp

lemma dll_ok_Some: "dll_ok l as \<Longrightarrow> a \<in> set as \<Longrightarrow> \<exists>n. heap l a = Some n"
  by (auto simp: dll_ok_def)

section \<open>The operations keep it\<close>

lemma dll_append_ok:
  assumes "dll_ok l as" and "heap l a = None"
  shows "\<exists>l'. dll_append a v l = ret l' \<and> dll_ok l' (as @ [a]) \<and>
    item_at (heap l') a = v \<and> (\<forall>b \<in> set as. item_at (heap l') b = item_at (heap l) b)"
proof -
  have a: "a \<notin> set as" using assms by (auto simp: dll_ok_def)
  let ?new = "\<lparr>prev_ptr = None, next_ptr = None, item = v\<rparr>"
  show ?thesis
  proof (cases as rule: rev_cases)
    case Nil
    then show ?thesis using assms by (auto simp: dll_ok_def dll_append_def item_at_def Let_def)
  next
    case (snoc bs b)
    have seg: "dseg (heap l) (dfront l) None (bs @ [b]) None (dback l)" and bb: "b \<notin> set bs"
      using assms snoc by (auto simp: dll_ok_def)
    then obtain n where n: "heap l b = Some n" and "dback l = Some b" and "next_ptr n = None"
      by (auto simp: dseg_snoc split: option.splits)
    moreover obtain f where "dfront l = Some f"
      using dseg_first_eq [OF seg] by auto
    ultimately have ap: "dll_append a v l = ret \<lparr>heap = (heap l)(a \<mapsto> ?new\<lparr>prev_ptr := Some b\<rparr>,
        b \<mapsto> n\<lparr>next_ptr := Some a\<rparr>), dfront = dfront l, dback = Some a\<rparr>"
      using a snoc by (auto simp: dll_append_def Let_def fun_upd_twist)
    have "dseg ((heap l)(b \<mapsto> n\<lparr>next_ptr := Some a\<rparr>)) (dfront l) None (bs @ [b]) (Some a) (Some b)"
      using dseg_last_next [OF seg bb n] \<open>dback l = Some b\<close> by simp
    then have "dseg ((heap l)(a \<mapsto> ?new\<lparr>prev_ptr := Some b\<rparr>, b \<mapsto> n\<lparr>next_ptr := Some a\<rparr>))
        (dfront l) None (bs @ [b]) (Some a) (Some b)"
      using a snoc by (subst fun_upd_twist) auto
    then have "dseg ((heap l)(a \<mapsto> ?new\<lparr>prev_ptr := Some b\<rparr>, b \<mapsto> n\<lparr>next_ptr := Some a\<rparr>))
        (dfront l) None ((bs @ [b]) @ [a]) None (Some a)"
      unfolding dseg_append [of _ _ _ "bs @ [b]"] using a snoc by auto
    then show ?thesis
      using ap assms a snoc n by (auto simp: dll_ok_def item_at_def)
  qed
qed

lemma dll_unlink_last:
  assumes "dll_ok l [p]"
  shows "\<exists>l'. dll_unlink p l = ret l' \<and> dll_ok l' []"
proof -
  obtain n where "heap l p = Some n" "dfront l = Some p" "dback l = Some p" "dom (heap l) = {p}"
    using assms by (auto simp: dll_ok_def split: option.splits)
  then show ?thesis by (simp add: dll_ok_def dll_unlink_def dom_single_None)
qed

lemma dll_unlink_first:
  assumes "dll_ok l (p # y # ys)"
  shows "\<exists>l'. dll_unlink p l = ret l' \<and> dll_ok l' (y # ys) \<and>
    (\<forall>b \<in> set (y # ys). item_at (heap l') b = item_at (heap l) b)"
proof -
  have seg: "dseg (heap l) (dfront l) None (p # y # ys) None (dback l)"
    and d: "distinct (p # y # ys)" and dom: "dom (heap l) = set (p # y # ys)"
    using assms by (simp_all add: dll_ok_def)
  then obtain n where n: "heap l p = Some n" "dfront l = Some p"
    and rest: "dseg (heap l) (next_ptr n) (Some p) (y # ys) None (dback l)"
    by (auto split: option.splits)
  then obtain m where m: "heap l y = Some m" and ny: "next_ptr n = Some y"
    by (auto split: option.splits)
  have bk: "dback l = Some (last (y # ys))" using dseg_last_eq [OF rest] by simp
  moreover have "last (y # ys) \<noteq> p" using d by (metis distinct.simps(2) last_in_set list.distinct(1))
  ultimately have ne: "dback l \<noteq> Some p" by simp
  let ?h = "(heap l)(y \<mapsto> m\<lparr>prev_ptr := None\<rparr>)"
  have un: "dll_unlink p l = ret (l\<lparr>heap := ?h(p := None), dfront := Some y\<rparr>)"
    using n ny m ne d by (simp add: dll_unlink_def)
  have "dseg ?h (Some y) None (y # ys) None (dback l)"
    using dseg_first_prev [of "heap l" y "Some p" ys None "dback l" m None] rest ny m d by simp
  then have "dll_ok (l\<lparr>heap := ?h(p := None), dfront := Some y\<rparr>) (y # ys)"
    using d dom by (auto simp: dll_ok_def)
  then show ?thesis using un d m by (auto simp: item_at_def)
qed

lemma dll_unlink_back:
  assumes "dll_ok l ((xs @ [x]) @ [p])"
  shows "\<exists>l'. dll_unlink p l = ret l' \<and> dll_ok l' (xs @ [x]) \<and>
    (\<forall>b \<in> set (xs @ [x]). item_at (heap l') b = item_at (heap l) b)"
proof -
  have seg: "dseg (heap l) (dfront l) None ((xs @ [x]) @ [p]) None (dback l)"
    and d: "distinct (xs @ [x, p])" and dom: "dom (heap l) = set (xs @ [x, p])"
    using assms by (simp_all add: dll_ok_def)
  then obtain n where n: "heap l p = Some n" "dback l = Some p" "next_ptr n = None"
    and rest: "dseg (heap l) (dfront l) None (xs @ [x]) (Some p) (prev_ptr n)"
    unfolding dseg_snoc by (auto split: option.splits)
  then obtain m where m: "heap l x = Some m" and px: "prev_ptr n = Some x"
    unfolding dseg_snoc by (auto split: option.splits)
  have "dfront l = Some (hd (xs @ [x]))" using dseg_first_eq [OF rest] by simp
  moreover have "hd (xs @ [x]) \<noteq> p" using d by (cases xs) auto
  ultimately have ne: "dfront l \<noteq> Some p" by simp
  let ?h = "(heap l)(x \<mapsto> m\<lparr>next_ptr := None\<rparr>)"
  have un: "dll_unlink p l = ret (l\<lparr>heap := ?h(p := None), dback := Some x\<rparr>)"
    using n px m ne d by (auto simp: dll_unlink_def)
  have "dseg ?h (dfront l) None (xs @ [x]) None (Some x)"
    using dseg_last_next [of "heap l" "dfront l" None xs x "Some p" "Some x" m None] rest px m d
    by (simp add: dseg_snoc)
  then have "dll_ok (l\<lparr>heap := ?h(p := None), dback := Some x\<rparr>) (xs @ [x])"
    using d dom by (auto simp: dll_ok_def)
  then show ?thesis using un d m by (auto simp: item_at_def)
qed

lemma dll_unlink_middle:
  assumes "dll_ok l ((xs @ [x]) @ p # y # ys)"
  shows "\<exists>l'. dll_unlink p l = ret l' \<and> dll_ok l' ((xs @ [x]) @ y # ys) \<and>
    (\<forall>b \<in> set ((xs @ [x]) @ y # ys). item_at (heap l') b = item_at (heap l) b)"
proof -
  have seg: "dseg (heap l) (dfront l) None ((xs @ [x]) @ p # y # ys) None (dback l)"
    and d: "distinct (xs @ x # p # y # ys)" and dom: "dom (heap l) = set (xs @ x # p # y # ys)"
    using assms by (simp_all add: dll_ok_def)
  then obtain n where n: "heap l p = Some n"
    and left: "dseg (heap l) (dfront l) None (xs @ [x]) (Some p) (prev_ptr n)"
    and right: "dseg (heap l) (next_ptr n) (Some p) (y # ys) None (dback l)"
    unfolding dseg_append [of _ _ _ "xs @ [x]"] by (auto split: option.splits)
  from left obtain m where m: "heap l x = Some m" and px: "prev_ptr n = Some x"
    unfolding dseg_snoc by (auto split: option.splits)
  from right obtain k where k: "heap l y = Some k" and ny: "next_ptr n = Some y"
    by (auto split: option.splits)
  have fr: "dfront l = Some (hd (xs @ [x]))" using dseg_first_eq [OF left] by simp
  have bk: "dback l = Some (last (y # ys))" using dseg_last_eq [OF right] by simp
  have "hd (xs @ [x]) \<in> set (xs @ [x])" and "last (y # ys) \<in> set (y # ys)"
    by (rule hd_in_set, simp) (rule last_in_set, simp)
  then have ne: "dfront l \<noteq> Some p" "dback l \<noteq> Some p" "dfront l \<noteq> dback l"
    using fr bk d by auto
  let ?h1 = "(heap l)(x \<mapsto> m\<lparr>next_ptr := Some y\<rparr>)"
  let ?h = "?h1(y \<mapsto> k\<lparr>prev_ptr := Some x\<rparr>)"
  have un: "dll_unlink p l = ret (l\<lparr>heap := ?h(p := None)\<rparr>)"
    using n px ny m k ne d by (auto simp: dll_unlink_def)
  have "dseg ?h1 (dfront l) None (xs @ [x]) (Some y) (Some x)"
    using dseg_last_next [of "heap l" "dfront l" None xs x "Some p" "Some x" m "Some y"] left px m d
    by simp
  then have l1: "dseg ?h (dfront l) None (xs @ [x]) (Some y) (Some x)"
    using d by simp
  have "dseg ?h1 (Some y) (Some p) (y # ys) None (dback l)"
    using right ny d by (subst dseg_upd) auto
  then have "dseg ?h (Some y) (Some x) (y # ys) None (dback l)"
    using dseg_first_prev [of ?h1 y "Some p" ys None "dback l" k "Some x"] k d by simp
  then have "dseg ?h (dfront l) None ((xs @ [x]) @ y # ys) None (dback l)"
    unfolding dseg_append [of _ _ _ "xs @ [x]"] using l1 by blast
  then have "dll_ok (l\<lparr>heap := ?h(p := None)\<rparr>) ((xs @ [x]) @ y # ys)"
    using d dom by (auto simp: dll_ok_def)
  then show ?thesis using un d m k by (auto simp: item_at_def)
qed

text \<open>The four cases together: unlinking a node of the list removes it and nothing else.\<close>

text \<open>Unlinking a node that was freed never succeeds.\<close>

lemma dll_unlink_freed:
  assumes "dll_ok l as" and "p \<notin> set as"
  shows "dll_unlink p l = fail Dangling"
proof -
  have p: "heap l p = None" using assms by (auto simp: dll_ok_def)
  have seg: "dseg (heap l) (dfront l) None as None (dback l)" using assms(1) by (simp add: dll_ok_def)
  have "dfront l \<noteq> Some p"
    using dseg_first_eq [OF seg] assms(2) hd_in_set [of as] by (auto split: if_splits)
  moreover have "dback l \<noteq> Some p"
    using dseg_last_eq [OF seg] assms(2) last_in_set [of as] by (auto split: if_splits)
  ultimately show ?thesis using p by (simp add: dll_unlink_def)
qed

lemma dll_unlink_ok:
  assumes "dll_ok l (xs @ p # ys)"
  shows "\<exists>l'. dll_unlink p l = ret l' \<and> dll_ok l' (xs @ ys) \<and>
    (\<forall>b \<in> set (xs @ ys). item_at (heap l') b = item_at (heap l) b)"
proof (cases xs rule: rev_cases)
  case Nil
  then show ?thesis
    using assms dll_unlink_last [of l p] dll_unlink_first [of l p] by (cases ys) auto
next
  case (snoc zs z)
  then show ?thesis
    using assms dll_unlink_back [of l zs z p] dll_unlink_middle [of l zs z p] by (cases ys) auto
qed

text \<open>The search finds the first node whose content satisfies the test, and always returns.\<close>

lemma dll_find_from_seg:
  assumes "dseg h p pv as None z"
  shows "dll_find_from P h p = ret (List.find (\<lambda>a. P (item_at h a)) as)"
  using assms
proof (induction as arbitrary: p pv)
  case (Cons a as)
  then obtain n where "h a = Some n" "p = Some a" "dseg h (next_ptr n) (Some a) as None z"
    by (auto split: option.splits)
  with Cons.IH show ?case by (simp add: dll_find_from_Some item_at_def)
qed simp

lemma dll_find_ok:
  "dll_ok l as \<Longrightarrow> dll_find_from P (heap l) (dfront l) = ret (List.find (\<lambda>a. P (item_at (heap l) a)) as)"
  unfolding dll_ok_def by (blast intro: dll_find_from_seg)

text \<open>A change of the contents of a node leaves the list alone.\<close>

definition set_item :: "(nat \<rightharpoonup> 'p dnode) \<Rightarrow> nat option \<Rightarrow> ('p \<Rightarrow> 'p) \<Rightarrow> (nat \<rightharpoonup> 'p dnode) res" where
  "set_item h p f = assign h p (\<lambda>n. n\<lparr>item := f (item n)\<rparr>)"

lemma dseg_item:
  "h a = Some n \<Longrightarrow> dseg (h(a \<mapsto> n\<lparr>item := v\<rparr>)) p pv as q z \<longleftrightarrow> dseg h p pv as q z"
  by (induction as arbitrary: p pv) (auto split: option.splits)

lemma set_item_ok:
  assumes "dll_ok l as" and "a \<in> set as"
  shows "\<exists>h. set_item (heap l) (Some a) f = ret h \<and> dll_ok (l\<lparr>heap := h\<rparr>) as
    \<and> (\<forall>b. item_at h b = (if b = a then f (item_at (heap l) a) else item_at (heap l) b))"
proof -
  obtain n where n: "heap l a = Some n" using assms by (auto simp: dll_ok_def)
  then show ?thesis
    using assms by (auto simp: set_item_def dll_ok_def dseg_item item_at_def)
qed

section \<open>The interface of a registry\<close>

text \<open>
  A list of entries with a key, as its clients see it: \<open>rep s vs\<close> says that the store \<open>s\<close> holds
  the entries \<open>vs\<close> in order. An entry is made from the arguments \<open>x\<close> of the call that adds it,
  which have to be \<open>valid\<close>. The laws are those of adding an entry with a new key at a free
  address, of removing the entry of a key, and of looking a key up.
\<close>

locale registry =
  fixes rep :: "'s \<Rightarrow> 'v list \<Rightarrow> bool"
    and key :: "'v \<Rightarrow> 'k"
    and valid :: "'x \<Rightarrow> bool"
    and make :: "'x \<Rightarrow> 'v"
    and free_at :: "'s \<Rightarrow> nat \<Rightarrow> bool"
    and add :: "nat \<Rightarrow> 'x \<Rightarrow> 's \<Rightarrow> 's res"
    and remove :: "'k \<Rightarrow> 's \<Rightarrow> 's res"
    and lookup :: "'k \<Rightarrow> 's \<Rightarrow> 'v option res"
  assumes add_law: "rep s vs \<Longrightarrow> free_at s a \<Longrightarrow> valid x \<Longrightarrow> key (make x) \<notin> key ` set vs \<Longrightarrow>
      \<exists>s'. add a x s = ret s' \<and> rep s' (vs @ [make x])"
    and remove_law: "rep s (us @ v # vs) \<Longrightarrow> key v \<notin> key ` set us \<Longrightarrow>
      \<exists>s'. remove (key v) s = ret s' \<and> rep s' (us @ vs)"
    and lookup_law: "rep s vs \<Longrightarrow> lookup k s = ret (List.find (\<lambda>v. key v = k) vs)"
begin

lemma find_key_absent: "k \<notin> key ` set vs \<Longrightarrow> List.find (\<lambda>v. key v = k) vs = None"
  by (auto simp: find_None_iff)

lemma find_key_append:
  "key v \<notin> key ` set us \<Longrightarrow> List.find (\<lambda>w. key w = key v) (us @ v # vs) = Some v"
  by (induction us) auto

lemma lookup_absent: "rep s vs \<Longrightarrow> k \<notin> key ` set vs \<Longrightarrow> lookup k s = ret None"
  by (simp add: lookup_law find_key_absent)

lemma lookup_present:
  "rep s (us @ v # vs) \<Longrightarrow> key v \<notin> key ` set us \<Longrightarrow> lookup (key v) s = ret (Some v)"
  by (simp add: lookup_law find_key_append)

lemma lookup_added:
  assumes "rep s vs" and "free_at s a" and "valid x" and "key (make x) \<notin> key ` set vs"
  shows "\<exists>s'. add a x s = ret s' \<and> rep s' (vs @ [make x])
    \<and> lookup (key (make x)) s' = ret (Some (make x))
    \<and> (\<forall>k. k \<noteq> key (make x) \<longrightarrow> lookup k s' = lookup k s)"
proof -
  obtain s' where s': "add a x s = ret s'" "rep s' (vs @ [make x])" using add_law [OF assms] by blast
  have "List.find (\<lambda>w. key w = k) (vs @ [make x]) = List.find (\<lambda>w. key w = k) vs"
    if "k \<noteq> key (make x)" for k
    using that by (induction vs) auto
  then show ?thesis
    using s' assms find_key_append [of "make x" vs "[]"]
    by (intro exI [of _ s']) (simp add: lookup_law [OF s'(2)] lookup_law [OF assms(1)])
qed

text \<open>With distinct keys, removing makes the key unknown and leaves the others alone.\<close>

lemma lookup_removed:
  assumes "rep s (us @ v # vs)" and "distinct (map key (us @ v # vs))"
  shows "\<exists>s'. remove (key v) s = ret s' \<and> rep s' (us @ vs) \<and> lookup (key v) s' = ret None
    \<and> (\<forall>k. k \<noteq> key v \<longrightarrow> lookup k s' = lookup k s)"
proof -
  have nk: "key v \<notin> key ` set us" "key v \<notin> key ` set (us @ vs)" using assms(2) by auto
  obtain s' where s': "remove (key v) s = ret s'" "rep s' (us @ vs)"
    using remove_law [OF assms(1) nk(1)] by blast
  have "List.find (\<lambda>w. key w = k) (us @ vs) = List.find (\<lambda>w. key w = k) (us @ v # vs)"
    if "k \<noteq> key v" for k
    using that by (induction us) auto
  then show ?thesis
    using s' assms(2) nk
    by (intro exI [of _ s'])
       (auto simp: lookup_law [OF s'(2)] lookup_law [OF assms(1)] find_key_absent)
qed

text \<open>Adding an entry and removing it again is no change of the entries.\<close>

lemma add_remove:
  assumes "rep s vs" and "free_at s a" and "valid x" and "key (make x) \<notin> key ` set vs"
  shows "\<exists>s' s''. add a x s = ret s' \<and> remove (key (make x)) s' = ret s'' \<and> rep s'' vs"
proof -
  obtain s' where s': "add a x s = ret s'" "rep s' (vs @ [make x])" using add_law [OF assms] by blast
  from remove_law [OF s'(2) assms(4)] s'(1) show ?thesis by auto
qed

end

end
