(* ===== verification/Users.thy ===== *)
theory Users
  imports DLL CLib
begin

text \<open>
  \<^verbatim>\<open>src/src/user.c\<close> and \<^verbatim>\<open>src/src/user.h\<close>: the list of connected users, its mutex, every
  operation of the module and the macro that iterates over the list. A \<^verbatim>\<open>User*\<close> is an address
  or \<open>None\<close> for NULL; what \<^verbatim>\<open>malloc\<close> returns is an argument of \<open>create_User\<close>. Taking the
  mutex while it is held is \<^const>\<open>Deadlock\<close>: the operations are run one after the other.
\<close>

section \<open>State\<close>

record user =
  thread :: nat
  sock :: u16
  name :: "byte list"
  name_length :: u16
  logged_in :: bool
  should_shutdown :: bool

record user_store =
  users :: "user dnode dll"
  user_lock :: bool

definition users_initial :: user_store where
  "users_initial = \<lparr>users = dll_empty, user_lock = False\<rparr>"

section \<open>Operations\<close>

definition lock_user_mutex :: "user_store \<Rightarrow> user_store res" where
  "lock_user_mutex s = (if user_lock s then fail Deadlock else ret (s\<lparr>user_lock := True\<rparr>))"

definition unlock_user_mutex :: "user_store \<Rightarrow> user_store" where
  "unlock_user_mutex s = s\<lparr>user_lock := False\<rparr>"

definition f_find_User :: "u16 \<Rightarrow> user_store \<Rightarrow> (nat option \<times> user_store) res" where
  "f_find_User sk s =
     bindR (lock_user_mutex s) (\<lambda>s.
     bindR (dll_find_from (\<lambda>u. sock u = sk) (heap (users s)) (dfront (users s))) (\<lambda>locPointer.
       ret (locPointer, unlock_user_mutex s)))"

text \<open>\<^verbatim>\<open>memset\<close> to zero, then the thread and the socket.\<close>

definition new_user :: "nat \<Rightarrow> u16 \<Rightarrow> user" where
  "new_user threadID sk =
     \<lparr>thread = threadID, sock = sk, name = replicate 32 0, name_length = 0,
      logged_in = False, should_shutdown = False\<rparr>"

definition create_User ::
    "nat \<Rightarrow> u16 \<Rightarrow> nat option \<Rightarrow> user_store \<Rightarrow> (nat option \<times> user_store) res" where
  "create_User threadID sk malloc s =
     bindR (f_find_User sk s) (\<lambda>(found, s).
       if found \<noteq> None then ret (None, s)
       else bindR (lock_user_mutex s) (\<lambda>s.
         (case malloc of
            None \<Rightarrow> ret (None, s)
          | Some a \<Rightarrow>
              bindR (dll_append a (new_user threadID sk) (users s)) (\<lambda>l.
                ret (Some a, unlock_user_mutex (s\<lparr>users := l\<rparr>))))))"

definition remove_User :: "u16 \<Rightarrow> user_store \<Rightarrow> (bool \<times> user_store) res" where
  "remove_User sk s =
     bindR (f_find_User sk s) (\<lambda>(locPointer, s).
       (case locPointer of
          None \<Rightarrow> ret (False, s)
        | Some p \<Rightarrow>
            bindR (lock_user_mutex s) (\<lambda>s.
            bindR (dll_unlink p (users s)) (\<lambda>l.
              ret (True, unlock_user_mutex (s\<lparr>users := l\<rparr>))))))"

partial_function (option) name_free_from ::
    "byte list \<Rightarrow> (nat \<rightharpoonup> user dnode) \<Rightarrow> nat option \<Rightarrow> bool res" where
  "name_free_from nm h p =
     (case p of
        None \<Rightarrow> ret True
      | Some a \<Rightarrow> bindR (deref h (Some a)) (\<lambda>n.
          bindR (c_streq nm (name (item n))) (\<lambda>eq.
            if eq \<and> logged_in (item n) then ret False else name_free_from nm h (next_ptr n))))"

declare name_free_from.simps [code]

definition is_name_free :: "byte list \<Rightarrow> user_store \<Rightarrow> (bool \<times> user_store) res" where
  "is_name_free nm s =
     (if dfront (users s) = None then ret (True, s)
      else bindR (lock_user_mutex s) (\<lambda>s.
        bindR (name_free_from nm (heap (users s)) (dfront (users s))) (\<lambda>r.
          ret (r, unlock_user_mutex s))))"

definition login_User ::
    "nat option \<Rightarrow> byte list \<Rightarrow> u16 \<Rightarrow> user_store \<Rightarrow> (bool \<times> user_store) res" where
  "login_User target nm nsize s =
     bindR (lock_user_mutex s) (\<lambda>s.
     bindR (deref (heap (users s)) target) (\<lambda>n.
     bindR (c_strncpy (name (item n)) 0 nm (unat nsize)) (\<lambda>nm'.
     bindR (set_item (heap (users s)) target
              (\<lambda>u. u\<lparr>name := nm', logged_in := True, name_length := nsize\<rparr>)) (\<lambda>h.
       ret (True, unlock_user_mutex (s\<lparr>users := (users s)\<lparr>heap := h\<rparr>\<rparr>))))))"

definition update_user :: "nat option \<Rightarrow> (user \<Rightarrow> user) \<Rightarrow> user_store \<Rightarrow> user_store res" where
  "update_user target f s =
     bindR (set_item (heap (users s)) target f) (\<lambda>h. ret (s\<lparr>users := (users s)\<lparr>heap := h\<rparr>\<rparr>))"

definition user_should_shutdown :: "nat option \<Rightarrow> user_store \<Rightarrow> user_store res" where
  "user_should_shutdown target s = update_user target (\<lambda>u. u\<lparr>should_shutdown := True\<rparr>) s"

definition logout_user :: "nat option \<Rightarrow> user_store \<Rightarrow> user_store res" where
  "logout_user target s = update_user target (\<lambda>u. u\<lparr>logged_in := False\<rparr>) s"

definition get_First_User :: "user_store \<Rightarrow> nat option" where
  "get_First_User s = dfront (users s)"

definition iterate_User :: "nat option \<Rightarrow> user_store \<Rightarrow> nat option res" where
  "iterate_User target s = bindR (deref (heap (users s)) target) (\<lambda>n. ret (next_ptr n))"

definition read_user :: "(user \<Rightarrow> 'a) \<Rightarrow> nat option \<Rightarrow> user_store \<Rightarrow> 'a res" where
  "read_user f target s = bindR (deref (heap (users s)) target) (\<lambda>n. ret (f (item n)))"

definition get_User_name :: "nat option \<Rightarrow> user_store \<Rightarrow> byte list res" where
  "get_User_name = read_user name"

definition get_User_name_length :: "nat option \<Rightarrow> user_store \<Rightarrow> u16 res" where
  "get_User_name_length = read_user name_length"

definition is_User_LoggedIn :: "nat option \<Rightarrow> user_store \<Rightarrow> bool res" where
  "is_User_LoggedIn = read_user logged_in"

definition should_User_shutdown :: "nat option \<Rightarrow> user_store \<Rightarrow> bool res" where
  "should_User_shutdown = read_user should_shutdown"

text \<open>\<^verbatim>\<open>target->sock\<close>, read directly by the callers.\<close>

definition user_sock :: "nat option \<Rightarrow> user_store \<Rightarrow> u16 res" where
  "user_sock = read_user sock"

section \<open>ITERATE_OVER_USERS\<close>

text \<open>
  The macro runs its body for every user with the mutex held; a \<^verbatim>\<open>break\<close> in the body (the
  first component of its result) leaves the loop, and the mutex is released in both cases. The
  state of the loop is the caller's; \<open>get\<close> and \<open>put\<close> reach the user store in it.
\<close>

partial_function (option) iterate_from ::
    "('st \<Rightarrow> user_store) \<Rightarrow> (nat \<Rightarrow> 'st \<Rightarrow> (bool \<times> 'st) res) \<Rightarrow> nat option \<Rightarrow> 'st \<Rightarrow> 'st res" where
  "iterate_from get body target st =
     (case target of
        None \<Rightarrow> ret st
      | Some t \<Rightarrow> bindR (body t st) (\<lambda>r.
          if fst r then ret (snd r)
          else bindR (iterate_User (Some t) (get (snd r))) (\<lambda>t'.
                 iterate_from get body t' (snd r))))"

declare iterate_from.simps [code]

definition ITERATE_OVER_USERS ::
    "('st \<Rightarrow> user_store) \<Rightarrow> (user_store \<Rightarrow> 'st \<Rightarrow> 'st) \<Rightarrow> (nat \<Rightarrow> 'st \<Rightarrow> (bool \<times> 'st) res)
     \<Rightarrow> 'st \<Rightarrow> 'st res" where
  "ITERATE_OVER_USERS get put body st =
     bindR (lock_user_mutex (get st)) (\<lambda>s.
     bindR (iterate_from get body (get_First_User s) (put s st)) (\<lambda>st.
       ret (put (unlock_user_mutex (get st)) st)))"

section \<open>The list a store holds\<close>

text \<open>
  \<open>users_at s as\<close>: the store is a well-formed list of the users at the addresses \<open>as\<close> and its
  mutex is free. \<open>users_rep s vs\<close>: it holds the users \<open>vs\<close> in order, whatever their addresses.
\<close>

definition user_at :: "user_store \<Rightarrow> nat \<Rightarrow> user" where
  "user_at s a = item_at (heap (users s)) a"

definition users_at :: "user_store \<Rightarrow> nat list \<Rightarrow> bool" where
  "users_at s as \<longleftrightarrow> dll_ok (users s) as \<and> \<not> user_lock s"

definition users_rep :: "user_store \<Rightarrow> user list \<Rightarrow> bool" where
  "users_rep s vs \<longleftrightarrow> dll_rep (users s) vs \<and> \<not> user_lock s"

lemma users_rep_at: "users_rep s vs \<longleftrightarrow> (\<exists>as. users_at s as \<and> vs = map (user_at s) as)"
  by (auto simp: users_rep_def users_at_def dll_rep_def user_at_def [abs_def])

lemma lock_unlock [simp]:
  "\<not> user_lock s \<Longrightarrow> lock_user_mutex s = ret (s\<lparr>user_lock := True\<rparr>)"
  "user_lock s \<Longrightarrow> lock_user_mutex s = fail Deadlock"
  "unlock_user_mutex (s\<lparr>user_lock := b\<rparr>) = s\<lparr>user_lock := False\<rparr>"
  by (simp_all add: lock_user_mutex_def unlock_user_mutex_def)

lemma unlock_fields [simp]:
  "users (unlock_user_mutex s) = users s" "user_lock (unlock_user_mutex s) = False"
  by (simp_all add: unlock_user_mutex_def)

lemma unlocked_same [simp]: "\<not> user_lock s \<Longrightarrow> s\<lparr>user_lock := False\<rparr> = s"
  by (cases s) simp

lemma f_find_User_at:
  assumes "users_at s as"
  shows "f_find_User sk s = ret (List.find (\<lambda>a. sock (user_at s a) = sk) as, s)"
  using assms dll_find_ok [of "users s" as "\<lambda>u. sock u = sk"]
  by (simp add: users_at_def f_find_User_def user_at_def)

lemma read_user_at [user_simps]:
  assumes "users_at s as" and "a \<in> set as"
  shows "read_user f (Some a) s = ret (f (user_at s a))"
  using assms dll_ok_Some [of "users s" as a]
  by (auto simp: users_at_def read_user_def user_at_def item_at_def)

section \<open>What the operations do to the list\<close>

lemma create_User_at:
  assumes "users_at s as" and "sk \<notin> sock ` user_at s ` set as" and "heap (users s) a = None"
  shows "\<exists>s'. create_User t sk (Some a) s = ret (Some a, s') \<and> users_at s' (as @ [a])
    \<and> user_at s' a = new_user t sk \<and> (\<forall>b \<in> set as. user_at s' b = user_at s b)"
proof -
  have none: "List.find (\<lambda>a. sock (user_at s a) = sk) as = None"
    using assms(2) by (auto simp: find_None_iff)
  from assms have ok: "dll_ok (users s) as" and free: "\<not> user_lock s" by (simp_all add: users_at_def)
  obtain l where l: "dll_append a (new_user t sk) (users s) = ret l" "dll_ok l (as @ [a])"
    "item_at (heap l) a = new_user t sk" "\<forall>b \<in> set as. item_at (heap l) b = item_at (heap (users s)) b"
    using dll_append_ok [OF ok assms(3)] by blast
  then show ?thesis
    using free none
    by (simp add: create_User_def f_find_User_at [OF assms(1)] users_at_def user_at_def)
qed

lemma create_User_in_use:
  assumes "users_at s as" and "sk \<in> sock ` user_at s ` set as"
  shows "create_User t sk malloc s = ret (None, s)"
proof -
  have "List.find (\<lambda>a. sock (user_at s a) = sk) as \<noteq> None"
    using assms(2) by (auto simp: find_None_iff)
  then show ?thesis by (simp add: create_User_def f_find_User_at [OF assms(1)])
qed

lemma create_User_no_memory:
  assumes "users_at s as" and "sk \<notin> sock ` user_at s ` set as"
  shows "create_User t sk None s = ret (None, s\<lparr>user_lock := True\<rparr>)"
proof -
  have "List.find (\<lambda>a. sock (user_at s a) = sk) as = None"
    using assms(2) by (auto simp: find_None_iff)
  then show ?thesis
    using assms(1) by (simp add: create_User_def f_find_User_at [OF assms(1)] users_at_def)
qed

lemma remove_User_at:
  assumes "users_at s (xs @ p # ys)" and "sock (user_at s p) \<notin> sock ` user_at s ` set xs"
  shows "\<exists>s'. remove_User (sock (user_at s p)) s = ret (True, s') \<and> users_at s' (xs @ ys)
    \<and> (\<forall>b \<in> set (xs @ ys). user_at s' b = user_at s b)"
proof -
  have found: "List.find (\<lambda>a. sock (user_at s a) = sock (user_at s p)) (xs @ p # ys) = Some p"
    using assms(2) by (induction xs) auto
  from assms have ok: "dll_ok (users s) (xs @ p # ys)" and free: "\<not> user_lock s"
    by (simp_all add: users_at_def)
  from dll_unlink_ok [OF ok] obtain l where "dll_unlink p (users s) = ret l" "dll_ok l (xs @ ys)"
    "\<forall>b \<in> set (xs @ ys). item_at (heap l) b = item_at (heap (users s)) b" by blast
  then show ?thesis
    using free found
    by (simp add: remove_User_def f_find_User_at [OF assms(1)] users_at_def user_at_def)
qed

lemma remove_User_absent:
  assumes "users_at s as" and "sk \<notin> sock ` user_at s ` set as"
  shows "remove_User sk s = ret (False, s)"
proof -
  have "List.find (\<lambda>a. sock (user_at s a) = sk) as = None"
    using assms(2) by (auto simp: find_None_iff)
  then show ?thesis by (simp add: remove_User_def f_find_User_at [OF assms(1)])
qed

lemma update_user_at [user_simps]:
  assumes "users_at s as" and "a \<in> set as"
  shows "\<exists>s'. update_user (Some a) f s = ret s' \<and> users_at s' as
    \<and> user_at s' = (user_at s)(a := f (user_at s a))"
proof -
  from assms(1) have ok: "dll_ok (users s) as" and free: "\<not> user_lock s"
    by (simp_all add: users_at_def)
  from set_item_ok [OF ok assms(2), of f] obtain h where
    "set_item (heap (users s)) (Some a) f = ret h" "dll_ok ((users s)\<lparr>heap := h\<rparr>) as"
    "\<forall>b. item_at h b = (if b = a then f (item_at (heap (users s)) a) else item_at (heap (users s)) b)"
    by blast
  then show ?thesis
    using free by (auto simp: update_user_def users_at_def user_at_def)
qed

lemma login_User_eq:
  assumes "users_at s as" and "a \<in> set as"
  shows "login_User (Some a) nm n s =
    bindR (c_strncpy (name (user_at s a)) 0 nm (unat n)) (\<lambda>nm'.
    bindR (update_user (Some a) (\<lambda>u. u\<lparr>name := nm', logged_in := True, name_length := n\<rparr>) s)
      (\<lambda>s. ret (True, s)))"
proof -
  from assms have "\<not> user_lock s" and "\<exists>d. heap (users s) a = Some d"
    using dll_ok_Some [of "users s" as a] by (auto simp: users_at_def)
  then show ?thesis
    by (cases s) (auto simp: login_User_def update_user_def set_item_def user_at_def item_at_def
        unlock_user_mutex_def bindR_assoc)
qed

lemma login_User_at:
  assumes "users_at s as" and "a \<in> set as" and "length (name (user_at s a)) = 32"
    and "unat n \<le> 32" and "unat n \<le> length nm \<or> 0 \<in> set nm"
  shows "\<exists>s'. login_User (Some a) nm n s = ret (True, s') \<and> users_at s' as
    \<and> user_at s' = (user_at s)(a := (user_at s a)
        \<lparr>name := patch (name (user_at s a)) 0 (strncpy_image nm (unat n)),
         logged_in := True, name_length := n\<rparr>)"
proof -
  let ?nm = "patch (name (user_at s a)) 0 (strncpy_image nm (unat n))"
  have "c_strncpy (name (user_at s a)) 0 nm (unat n) = ret ?nm"
    using assms(3-5) by (intro c_strncpy_eq) simp_all
  then show ?thesis
    using update_user_at [OF assms(1,2), of "\<lambda>u. u\<lparr>name := ?nm, logged_in := True, name_length := n\<rparr>"]
    by (auto simp: login_User_eq [OF assms(1,2)])
qed

text \<open>The check for a free name: no logged-in user has it.\<close>

definition terminated :: "user_store \<Rightarrow> nat list \<Rightarrow> bool" where
  "terminated s as \<longleftrightarrow> (\<forall>a \<in> set as. 0 \<in> set (name (user_at s a)))"

definition display_name :: "user \<Rightarrow> byte list" where
  "display_name u = takeWhile (\<lambda>c. c \<noteq> 0) (name u)"

lemma c_string_display_name: "0 \<in> set (name u) \<Longrightarrow> c_string (name u) = ret (display_name u)"
  by (simp add: c_string_def display_name_def)

lemma name_free_from_seg:
  assumes "dseg h p pv as None z" and "c_string nm = ret s"
    and "\<forall>a \<in> set as. 0 \<in> set (name (item_at h a))"
  shows "name_free_from nm h p =
    ret (\<forall>a \<in> set as. \<not> (logged_in (item_at h a) \<and> display_name (item_at h a) = s))"
  using assms
proof (induction as arbitrary: p pv)
  case Nil
  then show ?case by (simp add: name_free_from.simps)
next
  case (Cons a as)
  then obtain n where n: "h a = Some n" "p = Some a" "dseg h (next_ptr n) (Some a) as None z"
    by (auto split: option.splits)
  then have "c_string (name (item n)) = ret (display_name (item n))"
    using Cons.prems(3) by (simp add: c_string_display_name item_at_def)
  then have "c_streq nm (name (item n)) = ret (s = display_name (item n))"
    by (rule c_streq_strings [OF Cons.prems(2)])
  with n Cons show ?case
    by (subst name_free_from.simps) (auto simp: item_at_def)
qed

lemma is_name_free_at:
  assumes "users_at s as" and "terminated s as" and "c_string nm = ret n"
  shows "is_name_free nm s =
    ret (\<forall>a \<in> set as. \<not> (logged_in (user_at s a) \<and> display_name (user_at s a) = n), s)"
proof -
  from assms(1) have seg: "dseg (heap (users s)) (dfront (users s)) None as None (dback (users s))"
    and free: "\<not> user_lock s"
    by (simp_all add: users_at_def dll_ok_def)
  from name_free_from_seg [OF seg assms(3)] assms(2) free dseg_first_eq [OF seg] show ?thesis
    by (auto simp: is_name_free_def terminated_def user_at_def)
qed

section \<open>The store as a registry\<close>

text \<open>
  Seen from outside, the store is a list of users with the socket as the key. The interface's
  operations are the module's: adding is \<open>create_User\<close> with the address \<^verbatim>\<open>malloc\<close> gives, looking
  up is \<open>f_find_User\<close> and reading the node it finds.
\<close>

definition add_user :: "nat \<Rightarrow> nat \<times> u16 \<Rightarrow> user_store \<Rightarrow> user_store res" where
  "add_user a x s = bindR (create_User (fst x) (snd x) (Some a) s) (\<lambda>r. ret (snd r))"

definition drop_user :: "u16 \<Rightarrow> user_store \<Rightarrow> user_store res" where
  "drop_user sk s = bindR (remove_User sk s) (\<lambda>r. ret (snd r))"

definition user_of_sock :: "u16 \<Rightarrow> user_store \<Rightarrow> user option res" where
  "user_of_sock sk s =
     bindR (f_find_User sk s) (\<lambda>(p, s).
       (case p of None \<Rightarrow> ret None | Some a \<Rightarrow> bindR (read_user (\<lambda>u. u) (Some a) s) (\<lambda>u. ret (Some u))))"

lemma find_map_eq: "List.find P (map f xs) = map_option f (List.find (\<lambda>x. P (f x)) xs)"
  by (induction xs) auto

lemma find_Some_mem: "List.find P xs = Some x \<Longrightarrow> x \<in> set xs"
  by (induction xs) (auto split: if_splits)

lemma users_rep_split:
  assumes "users_rep s (us @ v # vs)"
  obtains xs p ys where "users_at s (xs @ p # ys)" "us = map (user_at s) xs" "v = user_at s p"
    "vs = map (user_at s) ys"
  using assms by (auto simp: users_rep_at map_eq_append_conv Cons_eq_map_conv
      append_eq_map_conv)

interpretation ur: registry users_rep sock "\<lambda>_. True" "\<lambda>x. new_user (fst x) (snd x)"
  "\<lambda>s a. heap (users s) a = None" add_user drop_user user_of_sock
proof
  fix s vs a and x :: "nat \<times> u16"
  assume "users_rep s vs" and a: "heap (users s) a = None"
    and new: "sock (new_user (fst x) (snd x)) \<notin> sock ` set vs"
  then obtain as where as: "users_at s as" "vs = map (user_at s) as" by (auto simp: users_rep_at)
  with new have "snd x \<notin> sock ` user_at s ` set as" by (simp add: new_user_def)
  from create_User_at [OF as(1) this a, of "fst x"] as
  show "\<exists>s'. add_user a x s = ret s' \<and> users_rep s' (vs @ [new_user (fst x) (snd x)])"
    by (auto simp: add_user_def users_rep_at intro!: exI [of _ "as @ [a]"])
next
  fix s us v vs
  assume "users_rep s (us @ v # vs)" and v: "sock v \<notin> sock ` set us"
  then obtain xs p ys where l: "users_at s (xs @ p # ys)" "us = map (user_at s) xs"
    "v = user_at s p" "vs = map (user_at s) ys" by (blast elim: users_rep_split)
  with v have "sock (user_at s p) \<notin> sock ` user_at s ` set xs" by simp
  from remove_User_at [OF l(1) this] l
  show "\<exists>s'. drop_user (sock v) s = ret s' \<and> users_rep s' (us @ vs)"
    by (auto simp: drop_user_def users_rep_at intro!: exI [of _ "xs @ ys"])
next
  fix s vs k
  assume "users_rep s vs"
  then obtain as where as: "users_at s as" "vs = map (user_at s) as" by (auto simp: users_rep_at)
  show "user_of_sock k s = ret (List.find (\<lambda>v. sock v = k) vs)"
  proof (cases "List.find (\<lambda>a. sock (user_at s a) = k) as")
    case None
    then show ?thesis
      by (simp add: user_of_sock_def f_find_User_at [OF as(1)] as(2) find_map_eq)
  next
    case (Some a)
    moreover have "a \<in> set as" using Some by (rule find_Some_mem)
    ultimately show ?thesis
      by (simp add: user_of_sock_def f_find_User_at [OF as(1)] as(2) find_map_eq
          read_user_at [OF as(1)])
  qed
qed

section \<open>Every sequence of calls\<close>

text \<open>
  The calls of the module with what their callers owe them: \<^verbatim>\<open>malloc\<close> returns an address not in
  use, a \<^verbatim>\<open>User*\<close> is one of the list's, and a name to log in under fits the 31 bytes of the
  name buffers.
\<close>

datatype user_call =
    Create nat u16 nat
  | Remove u16
  | Login nat "byte list" u16
  | Ask_Shutdown nat
  | Logout nat

fun user_call_ok :: "user_store \<Rightarrow> user_call \<Rightarrow> bool" where
  "user_call_ok s (Create t sk a) \<longleftrightarrow> heap (users s) a = None"
| "user_call_ok s (Remove sk) \<longleftrightarrow> True"
| "user_call_ok s (Login a nm n) \<longleftrightarrow> heap (users s) a \<noteq> None \<and> unat n \<le> 31
     \<and> (unat n \<le> length nm \<or> 0 \<in> set nm)"
| "user_call_ok s (Ask_Shutdown a) \<longleftrightarrow> heap (users s) a \<noteq> None"
| "user_call_ok s (Logout a) \<longleftrightarrow> heap (users s) a \<noteq> None"

fun run_user_call :: "user_call \<Rightarrow> user_store \<Rightarrow> user_store res" where
  "run_user_call (Create t sk a) s = bindR (create_User t sk (Some a) s) (\<lambda>r. ret (snd r))"
| "run_user_call (Remove sk) s = bindR (remove_User sk s) (\<lambda>r. ret (snd r))"
| "run_user_call (Login a nm n) s = bindR (login_User (Some a) nm n s) (\<lambda>r. ret (snd r))"
| "run_user_call (Ask_Shutdown a) s = user_should_shutdown (Some a) s"
| "run_user_call (Logout a) s = logout_user (Some a) s"

inductive user_step :: "user_store \<Rightarrow> user_store \<Rightarrow> bool" where
  "user_call_ok s c \<Longrightarrow> run_user_call c s = ret s' \<Longrightarrow> user_step s s'"

inductive users_reachable :: "user_store \<Rightarrow> bool" where
  initial: "users_reachable users_initial"
| step: "users_reachable s \<Longrightarrow> user_step s s' \<Longrightarrow> users_reachable s'"

inductive_cases user_stepE: "user_step s s'"

text \<open>
  The invariant: a well-formed list, no mutex held, no socket twice, and every name a 32-byte
  buffer whose last byte is zero, with a recorded length of at most 31.
\<close>

definition user_ok :: "user \<Rightarrow> bool" where
  "user_ok u \<longleftrightarrow> length (name u) = 32 \<and> name u ! 31 = 0 \<and> unat (name_length u) \<le> 31"

definition users_inv_at :: "user_store \<Rightarrow> nat list \<Rightarrow> bool" where
  "users_inv_at s as \<longleftrightarrow> users_at s as \<and> distinct (map (\<lambda>a. sock (user_at s a)) as)
     \<and> (\<forall>a \<in> set as. user_ok (user_at s a))"

definition users_inv :: "user_store \<Rightarrow> bool" where
  "users_inv s \<longleftrightarrow> (\<exists>as. users_inv_at s as)"

lemma users_inv_atI:
  "users_at s as \<Longrightarrow> distinct (map (\<lambda>a. sock (user_at s a)) as) \<Longrightarrow>
   (\<And>a. a \<in> set as \<Longrightarrow> user_ok (user_at s a)) \<Longrightarrow> users_inv_at s as"
  by (simp add: users_inv_at_def)

lemma users_inv_initial: "users_inv users_initial"
  unfolding users_inv_def
  by (intro exI [of _ "[]"]) (simp add: users_inv_at_def users_at_def users_initial_def)

lemma user_ok_new: "user_ok (new_user t sk)"
  by (simp add: user_ok_def new_user_def)

lemma users_inv_at_dom: "users_inv_at s as \<Longrightarrow> heap (users s) a \<noteq> None \<longleftrightarrow> a \<in> set as"
  by (auto simp: users_inv_at_def users_at_def dll_ok_def)

lemma user_ok_terminated: "user_ok u \<Longrightarrow> 0 \<in> set (name u)"
  using nth_mem [of 31 "name u"] by (auto simp: user_ok_def)

lemma users_inv_terminated: "users_inv_at s as \<Longrightarrow> terminated s as"
  by (simp add: users_inv_at_def terminated_def user_ok_terminated)

text \<open>Changing one user in place keeps the invariant when it stays well formed, on its socket.\<close>

lemma users_inv_update:
  assumes "users_inv_at s as" and "a \<in> set as"
    and "users_at s' as" and "user_at s' = (user_at s)(a := v)"
    and "sock v = sock (user_at s a)" and "user_ok v"
  shows "users_inv_at s' as"
proof (rule users_inv_atI)
  have eq: "map (\<lambda>b. sock (user_at s' b)) as = map (\<lambda>b. sock (user_at s b)) as"
    using assms by simp
  show "distinct (map (\<lambda>b. sock (user_at s' b)) as)"
    unfolding eq using assms(1) by (simp add: users_inv_at_def)
  show "user_ok (user_at s' b)" if "b \<in> set as" for b
    using that assms by (simp add: users_inv_at_def)
qed (rule assms(3))

lemma create_inv:
  assumes "users_inv_at s as" and "sk \<notin> sock ` user_at s ` set as" and "heap (users s) a = None"
  shows "\<exists>s'. create_User t sk (Some a) s = ret (Some a, s') \<and> users_inv_at s' (as @ [a])
    \<and> user_at s' a = new_user t sk \<and> (\<forall>b \<in> set as. user_at s' b = user_at s b)"
proof -
  have at: "users_at s as" using assms(1) by (simp add: users_inv_at_def)
  obtain s' where s': "create_User t sk (Some a) s = ret (Some a, s')" "users_at s' (as @ [a])"
    "user_at s' a = new_user t sk" "\<forall>b \<in> set as. user_at s' b = user_at s b"
    using create_User_at [OF at assms(2,3)] by blast
  have eq: "map (\<lambda>b. sock (user_at s' b)) as = map (\<lambda>b. sock (user_at s b)) as"
    using s'(4) by simp
  have "users_inv_at s' (as @ [a])"
  proof (rule users_inv_atI [OF s'(2)])
    have "sock (new_user t sk) \<notin> set (map (\<lambda>b. sock (user_at s b)) as)"
      using assms(2) by (auto simp: new_user_def)
    then show "distinct (map (\<lambda>b. sock (user_at s' b)) (as @ [a]))"
      using assms(1) by (simp add: eq s'(3) users_inv_at_def del: set_map)
    show "user_ok (user_at s' b)" if "b \<in> set (as @ [a])" for b
      using that s'(3,4) assms(1) by (auto simp: users_inv_at_def user_ok_new)
  qed
  with s' show ?thesis by blast
qed

lemma create_step:
  assumes "users_inv_at s as" and "heap (users s) a = None"
  shows "\<exists>s' bs. run_user_call (Create t sk a) s = ret s' \<and> users_inv_at s' bs"
proof (cases "sk \<in> sock ` user_at s ` set as")
  case True
  then show ?thesis using assms create_User_in_use [of s as sk t "Some a"]
    by (auto simp: users_inv_at_def)
next
  case False
  obtain s' where "create_User t sk (Some a) s = ret (Some a, s')" "users_inv_at s' (as @ [a])"
    using create_inv [OF assms(1) False assms(2), of t] by blast
  then show ?thesis by auto
qed

lemma remove_step:
  assumes "users_inv_at s as"
  shows "\<exists>s' bs. run_user_call (Remove sk) s = ret s' \<and> users_inv_at s' bs"
proof (cases "sk \<in> sock ` user_at s ` set as")
  case False
  then show ?thesis using assms remove_User_absent [of s as sk] by (auto simp: users_inv_at_def)
next
  case True
  then obtain p where "p \<in> set as" and p: "sk = sock (user_at s p)" by auto
  then obtain xs ys where as: "as = xs @ p # ys" by (meson split_list)
  have at: "users_at s (xs @ p # ys)" and new: "sock (user_at s p) \<notin> sock ` user_at s ` set xs"
    using assms by (auto simp: users_inv_at_def as)
  obtain s' where s': "remove_User sk s = ret (True, s')" "users_at s' (xs @ ys)"
    "\<forall>b \<in> set (xs @ ys). user_at s' b = user_at s b"
    using remove_User_at [OF at new] p by blast
  have eq: "map (\<lambda>b. sock (user_at s' b)) (xs @ ys) = map (\<lambda>b. sock (user_at s b)) (xs @ ys)"
    using s'(3) by simp
  have "users_inv_at s' (xs @ ys)"
  proof (rule users_inv_atI [OF s'(2)])
    show "distinct (map (\<lambda>b. sock (user_at s' b)) (xs @ ys))"
      unfolding eq using assms by (simp add: users_inv_at_def as)
    show "user_ok (user_at s' b)" if "b \<in> set (xs @ ys)" for b
      using that s'(3) assms by (auto simp: users_inv_at_def as)
  qed
  with s'(1) show ?thesis by auto
qed

lemma update_step:
  assumes "users_inv_at s as" and "a \<in> set as"
    and "sock (f (user_at s a)) = sock (user_at s a)" and "user_ok (f (user_at s a))"
  shows "\<exists>s'. update_user (Some a) f s = ret s' \<and> users_inv_at s' as
    \<and> user_at s' = (user_at s)(a := f (user_at s a))"
proof -
  have at: "users_at s as" using assms(1) by (simp add: users_inv_at_def)
  from update_user_at [OF at assms(2), of f] users_inv_update [OF assms(1,2) _ _ assms(3,4)]
  show ?thesis by blast
qed

lemma user_ok_login:
  assumes "user_ok u" and "unat n \<le> 31"
  shows "user_ok (u\<lparr>name := patch (name u) 0 (strncpy_image nm (unat n)), logged_in := b,
    name_length := n\<rparr>)"
  using assms nth_patch [of 0 "strncpy_image nm (unat n)" "name u" 31]
  by (simp add: user_ok_def)

lemma login_step:
  assumes "users_inv_at s as" and "a \<in> set as" and "unat n \<le> 31"
    and "unat n \<le> length nm \<or> 0 \<in> set nm"
  shows "\<exists>s'. login_User (Some a) nm n s = ret (True, s') \<and> users_inv_at s' as
    \<and> user_at s' = (user_at s)(a := (user_at s a)
        \<lparr>name := patch (name (user_at s a)) 0 (strncpy_image nm (unat n)),
         logged_in := True, name_length := n\<rparr>)"
proof -
  have at: "users_at s as" and ok: "user_ok (user_at s a)" using assms by (auto simp: users_inv_at_def)
  then have "length (name (user_at s a)) = 32" by (simp add: user_ok_def)
  from login_User_at [OF at assms(2) this _ assms(4)] assms(3)
    users_inv_update [OF assms(1,2) _ _ _ user_ok_login [OF ok assms(3)]]
  show ?thesis by fastforce
qed

lemma user_call_step:
  assumes "users_inv_at s as" and "user_call_ok s c"
  shows "\<exists>s' bs. run_user_call c s = ret s' \<and> users_inv_at s' bs"
proof -
  have mem: "heap (users s) b \<noteq> None \<Longrightarrow> b \<in> set as" for b
    using users_inv_at_dom [OF assms(1)] by blast
  have ok: "b \<in> set as \<Longrightarrow> user_ok (user_at s b)" for b
    using assms(1) by (simp add: users_inv_at_def)
  show ?thesis
  proof (cases c)
    case (Create t sk a)
    then show ?thesis using create_step [OF assms(1)] assms(2) by simp
  next
    case (Remove sk)
    then show ?thesis using remove_step [OF assms(1)] by simp
  next
    case (Login a nm n)
    then show ?thesis using login_step [OF assms(1) mem] assms(2) by fastforce
  next
    case (Ask_Shutdown a)
    then show ?thesis using assms(2) mem [of a] ok [of a]
        update_step [OF assms(1) mem, of a "\<lambda>u. u\<lparr>should_shutdown := True\<rparr>"]
      by (auto simp: user_should_shutdown_def user_ok_def)
  next
    case (Logout a)
    then show ?thesis using assms(2) mem [of a] ok [of a]
        update_step [OF assms(1) mem, of a "\<lambda>u. u\<lparr>logged_in := False\<rparr>"]
      by (auto simp: logout_user_def user_ok_def)
  qed
qed

lemma users_reachable_inv: "users_reachable s \<Longrightarrow> users_inv s"
proof (induction rule: users_reachable.induct)
  case initial
  show ?case by (rule users_inv_initial)
next
  case (step s s')
  then obtain as where as: "users_inv_at s as" by (auto simp: users_inv_def)
  from step.hyps(2) obtain c where "user_call_ok s c" "run_user_call c s = ret s'"
    by (rule user_stepE)
  with user_call_step [OF as] show ?case by (force simp: users_inv_def)
qed

text \<open>Runs of several calls, to reach concrete stores.\<close>

fun run_user_calls :: "user_call list \<Rightarrow> user_store \<Rightarrow> user_store res" where
  "run_user_calls [] s = ret s"
| "run_user_calls (c # cs) s =
     (if user_call_ok s c then bindR (run_user_call c s) (run_user_calls cs) else None)"

lemma run_user_calls_reachable:
  "run_user_calls cs s = ret s' \<Longrightarrow> users_reachable s \<Longrightarrow> users_reachable s'"
proof (induction cs arbitrary: s)
  case (Cons c cs)
  then obtain s1 where "user_call_ok s c" "run_user_call c s = ret s1" "run_user_calls cs s1 = ret s'"
    by (auto simp: bindR_ret_iff split: if_splits)
  with Cons show ?case by (blast intro: users_reachable.step user_step.intros)
qed simp

lemma users_reachable_at:
  assumes "users_reachable s"
    and "dseg (heap (users s)) (dfront (users s)) None as None (dback (users s))"
  shows "users_at s as"
proof -
  obtain bs where bs: "users_at s bs"
    using users_reachable_inv [OF assms(1)] by (auto simp: users_inv_def users_inv_at_def)
  then have "dseg (heap (users s)) (dfront (users s)) None bs None (dback (users s))"
    by (simp add: users_at_def dll_ok_def)
  from dseg_unique [OF assms(2) this] bs show ?thesis by simp
qed

text \<open>Two connected users, on sockets 4 and 5, the first one logged in as \<open>AB\<close>.\<close>

definition example_users :: user_store where
  "example_users = the_ret (run_user_calls
     [Create 1 4 0, Create 2 5 1, Login 0 [65, 66, 0] 2] users_initial)"

lemma example_users_reachable: "users_reachable example_users"
proof -
  have "is_ret (run_user_calls [Create 1 4 0, Create 2 5 1, Login 0 [65, 66, 0] 2] users_initial)"
    by code_simp
  from run_user_calls_reachable [OF is_ret_the [OF this] users_reachable.initial] show ?thesis
    by (simp add: example_users_def)
qed

lemma example_users_at: "users_at example_users [0, 1]"
  by (rule users_reachable_at [OF example_users_reachable]) code_simp

lemma example_users_rep: "users_rep example_users (map (user_at example_users) [0, 1])"
  using example_users_at by (auto simp: users_rep_at)

section \<open>Iterating over the list\<close>

text \<open>
  A loop body that changes no pointer of the list is run on every address of the list in order,
  until one breaks. \<open>user_access\<close> is what the macro's caller gives it: where the store is in the
  caller's state.
\<close>

definition links :: "user_store \<Rightarrow> nat \<Rightarrow> nat option option" where
  "links s a = map_option next_ptr (heap (users s) a)"

fun for_each :: "(nat \<Rightarrow> 'st \<Rightarrow> (bool \<times> 'st) res) \<Rightarrow> nat list \<Rightarrow> 'st \<Rightarrow> 'st res" where
  "for_each body [] st = ret st"
| "for_each body (a # as) st =
     bindR (body a st) (\<lambda>r. if fst r then ret (snd r) else for_each body as (snd r))"

lemma iterate_from_seg:
  assumes "dseg h p pv as None z" and "J st"
    and "\<And>st. J st \<Longrightarrow> links (get st) = (\<lambda>a. map_option next_ptr (h a))"
    and "\<And>a st r. a \<in> set as \<Longrightarrow> J st \<Longrightarrow> body a st = ret r \<Longrightarrow> J (snd r)"
  shows "iterate_from get body p st = for_each body as st"
  using assms
proof (induction as arbitrary: p pv st)
  case Nil
  then show ?case by (simp add: iterate_from.simps)
next
  case (Cons a as)
  then obtain n where n: "h a = Some n" "p = Some a" "dseg h (next_ptr n) (Some a) as None z"
    by (auto split: option.splits)
  have "(if fst r then ret (snd r) else bindR (iterate_User (Some a) (get (snd r)))
           (\<lambda>t'. iterate_from get body t' (snd r)))
      = (if fst r then ret (snd r) else for_each body as (snd r))" if "body a st = ret r" for r
  proof -
    have J: "J (snd r)" using Cons.prems(4) [OF _ Cons.prems(2) that] by simp
    then have "map_option next_ptr (heap (users (get (snd r))) a) = Some (next_ptr n)"
      using n(1) Cons.prems(3) by (metis links_def option.simps(9))
    then have "iterate_User (Some a) (get (snd r)) = ret (next_ptr n)"
      by (auto simp: iterate_User_def)
    moreover have "iterate_from get body (next_ptr n) (snd r) = for_each body as (snd r)"
    proof (rule Cons.IH [OF n(3) J Cons.prems(3)])
      show "b \<in> set as \<Longrightarrow> J st \<Longrightarrow> body b st = ret r \<Longrightarrow> J (snd r)" for b st r
        using Cons.prems(4) [of b st r] by simp
    qed
    ultimately show ?thesis by simp
  qed
  then show ?case
    unfolding n(2) by (subst iterate_from.simps) (auto intro!: bindR_cong)
qed

lemma for_each_fold:
  assumes "\<And>a st. a \<in> set as \<Longrightarrow> I st \<Longrightarrow> body a (g st) = ret (False, g (f a st)) \<and> I (f a st)"
    and "I st"
  shows "for_each body as (g st) = ret (g (fold f as st)) \<and> I (fold f as st)"
  using assms by (induction as arbitrary: st) auto

text \<open>What every round of the loop keeps, the loop keeps, whatever the list looks like.\<close>

lemma iterate_from_keeps_raw:
  assumes "iterate_from get body p st = Some y"
  shows "(\<forall>a st r. J st \<longrightarrow> body a st = ret r \<longrightarrow> J (snd r)) \<longrightarrow> J st \<longrightarrow> (\<forall>st'. y = Inr st' \<longrightarrow> J st')"
proof (rule iterate_from.raw_induct [where
      P = "\<lambda>get body p st y. (\<forall>a st r. J st \<longrightarrow> body a st = ret r \<longrightarrow> J (snd r)) \<longrightarrow> J st
        \<longrightarrow> (\<forall>st'. y = Inr st' \<longrightarrow> J st')", OF _ assms], intro impI allI)
  fix iter get body p st y st'
  assume ih: "\<And>get body p st y. iter get body p st = Some y \<Longrightarrow>
      (\<forall>a st r. J st \<longrightarrow> body a st = ret r \<longrightarrow> J (snd r)) \<longrightarrow> J st \<longrightarrow> (\<forall>st'. y = Inr st' \<longrightarrow> J st')"
    and run: "(case p of None \<Rightarrow> ret st
      | Some t \<Rightarrow> bindR (body t st) (\<lambda>r. if fst r then ret (snd r)
          else bindR (iterate_User (Some t) (get (snd r))) (\<lambda>t'. iter get body t' (snd r)))) = Some y"
    and keep: "\<forall>a st r. J st \<longrightarrow> body a st = ret r \<longrightarrow> J (snd r)" and J: "J st" and y: "y = Inr st'"
  show "J st'"
  proof (cases p)
    case None
    then show ?thesis using run y J by simp
  next
    case (Some t)
    then obtain r where r: "body t st = ret r"
      "(if fst r then ret (snd r) else bindR (iterate_User (Some t) (get (snd r)))
         (\<lambda>t'. iter get body t' (snd r))) = ret st'"
      using run y by (auto simp: bindR_ret_iff)
    have Jr: "J (snd r)" using keep J r(1) by blast
    show ?thesis
    proof (cases "fst r")
      case True
      then show ?thesis using r(2) Jr by simp
    next
      case False
      then obtain t' where "iter get body t' (snd r) = ret st'"
        using r(2) by (auto simp: bindR_ret_iff)
      from ih [OF this] keep Jr show ?thesis by blast
    qed
  qed
qed

lemma iterate_from_keeps:
  assumes "iterate_from get body p st = ret st'" and "J st"
    and "\<And>a st r. J st \<Longrightarrow> body a st = ret r \<Longrightarrow> J (snd r)"
  shows "J st'"
  using iterate_from_keeps_raw [OF assms(1), of J] assms(2,3) by blast

lemma ITERATE_OVER_USERS_keeps:
  assumes "ITERATE_OVER_USERS get put body st = ret st'" and "J st"
    and "\<And>a st r. J st \<Longrightarrow> body a st = ret r \<Longrightarrow> J (snd r)" and "\<And>s st. J st \<Longrightarrow> J (put s st)"
  shows "J st'"
proof -
  obtain s st1 where "iterate_from get body (get_First_User s) (put s st) = ret st1"
    "st' = put (unlock_user_mutex (get st1)) st1"
    using assms(1) by (auto simp: ITERATE_OVER_USERS_def bindR_ret_iff)
  with iterate_from_keeps [OF this(1) assms(4) [OF assms(2)] assms(3)] assms(4) show ?thesis by simp
qed

locale user_access =
  fixes get :: "'st \<Rightarrow> user_store" and put :: "user_store \<Rightarrow> 'st \<Rightarrow> 'st"
  assumes get_put: "get (put s st) = s"
    and put_get: "put (get st) st = st"
    and put_put: "put s (put t st) = put s st"
begin

text \<open>The whole macro: the body sees the store with the mutex held, and it is free afterwards.\<close>

lemma iterate_all:
  assumes "users_at (get st) as" and "J (put ((get st)\<lparr>user_lock := True\<rparr>) st)"
    and "\<And>st'. J st' \<Longrightarrow> links (get st') = links (get st)"
    and "\<And>a st' r. a \<in> set as \<Longrightarrow> J st' \<Longrightarrow> body a st' = ret r \<Longrightarrow> J (snd r)"
  shows "ITERATE_OVER_USERS get put body st =
    bindR (for_each body as (put ((get st)\<lparr>user_lock := True\<rparr>) st)) (\<lambda>st'.
      ret (put (unlock_user_mutex (get st')) st'))"
proof -
  from assms(1) have free: "\<not> user_lock (get st)"
    and seg: "dseg (heap (users (get st))) (dfront (users (get st))) None as None (dback (users (get st)))"
    by (simp_all add: users_at_def dll_ok_def)
  have "links (get st) = (\<lambda>a. map_option next_ptr (heap (users (get st)) a))"
    by (auto simp: links_def)
  with assms(2-4)
    iterate_from_seg [OF seg, of J "put ((get st)\<lparr>user_lock := True\<rparr>) st" get body]
  show ?thesis
    using free by (simp add: ITERATE_OVER_USERS_def get_First_User_def get_put)
qed

text \<open>
  A body that leaves the store alone and always goes on: the macro's effect is that of the body on
  every user in order, and the store is the same afterwards.
\<close>

lemma iterate_reading:
  assumes at: "users_at (get st) as" and "I st"
    and step: "\<And>a st'. a \<in> set as \<Longrightarrow> get st' = get st \<Longrightarrow> I st' \<Longrightarrow>
      body a (put ((get st)\<lparr>user_lock := True\<rparr>) st') =
        ret (False, put ((get st)\<lparr>user_lock := True\<rparr>) (f a st')) \<and> get (f a st') = get st \<and> I (f a st')"
  shows "ITERATE_OVER_USERS get put body st = ret (fold f as st)
    \<and> get (fold f as st) = get st \<and> I (fold f as st)"
proof -
  let ?L = "(get st)\<lparr>user_lock := True\<rparr>"
  have run: "for_each body as (put ?L st) = ret (put ?L (fold f as st))
    \<and> get (fold f as st) = get st \<and> I (fold f as st)"
    using assms
    by (intro for_each_fold [where I = "\<lambda>st'. get st' = get st \<and> I st'"]) auto
  have "ITERATE_OVER_USERS get put body st =
      bindR (for_each body as (put ?L st)) (\<lambda>st'. ret (put (unlock_user_mutex (get st')) st'))"
  proof (rule iterate_all [OF at, of "\<lambda>t. \<exists>st'. t = put ?L st' \<and> get st' = get st \<and> I st'"])
    show "\<exists>st'. put ?L st = put ?L st' \<and> get st' = get st \<and> I st'" using assms(2) by blast
    fix a t r assume "a \<in> set as" "\<exists>st'. t = put ?L st' \<and> get st' = get st \<and> I st'" "body a t = ret r"
    with step show "\<exists>st'. snd r = put ?L st' \<and> get st' = get st \<and> I st'" by fastforce
  qed (auto simp: get_put links_def [abs_def])
  moreover have "\<not> user_lock (get st)" using at by (simp add: users_at_def)
  ultimately show ?thesis
    using run by (simp add: get_put put_put unlock_user_mutex_def)
      (metis put_get)
qed

end

section \<open>Properties\<close>

text \<open>C11: In every store that calls with met preconditions can reach from the empty list, every
  further such call returns normally: it meets no freed or null pointer, no overrun buffer, no held
  mutex and no cycle, and it leaves a well-formed list with the mutex free, distinct sockets and
  terminated names.\<close>

theorem user_store_safe:
  assumes "users_reachable s" and "user_call_ok s c"
  shows "\<exists>s' as. run_user_call c s = ret s' \<and> users_reachable s' \<and> users_at s' as
    \<and> distinct (map (\<lambda>a. sock (user_at s' a)) as) \<and> (\<forall>a \<in> set as. 0 \<in> set (name (user_at s' a)))"
proof -
  obtain as where "users_inv_at s as"
    using users_reachable_inv [OF assms(1)] by (auto simp: users_inv_def)
  from user_call_step [OF this assms(2)] obtain s' bs
    where s': "run_user_call c s = ret s'" "users_inv_at s' bs" by blast
  moreover from s'(1) have "users_reachable s'"
    using assms by (blast intro: users_reachable.step user_step.intros)
  ultimately show ?thesis
    by (auto simp: users_inv_at_def user_ok_terminated intro!: exI [of _ s'] exI [of _ bs])
qed

theorem user_store_safe_witness:
  "\<exists>s' as. run_user_call (Create 7 4 0) users_initial = ret s' \<and> users_at s' as
    \<and> distinct (map (\<lambda>a. sock (user_at s' a)) as)"
  using user_store_safe [OF users_reachable.initial, of "Create 7 4 0"]
  by (auto simp: users_initial_def dll_empty_def)

text \<open>A user created on a socket not in use is appended to the list, cleared and with its thread
  and socket; its socket finds it from then on, and every other socket finds what it found before.\<close>

theorem created_user_is_found:
  assumes "users_rep s us" and "heap (users s) a = None" and "sk \<notin> sock ` set us"
  shows "\<exists>s'. create_User t sk (Some a) s = ret (Some a, s') \<and> users_rep s' (us @ [new_user t sk])
    \<and> user_of_sock sk s' = ret (Some (new_user t sk))
    \<and> (\<forall>k. k \<noteq> sk \<longrightarrow> user_of_sock k s' = user_of_sock k s)"
proof -
  obtain as where as: "users_at s as" "us = map (user_at s) as"
    using assms(1) by (auto simp: users_rep_at)
  with assms(3) have "sk \<notin> sock ` user_at s ` set as" by simp
  then obtain s' where "create_User t sk (Some a) s = ret (Some a, s')"
    using create_User_at [OF as(1) _ assms(2)] by blast
  moreover have "sock (new_user (fst (t, sk)) (snd (t, sk))) = sk" by (simp add: new_user_def)
  ultimately show ?thesis
    using ur.lookup_added [OF assms(1,2), of "(t, sk)"] assms(3) by (simp add: add_user_def)
qed

theorem created_user_is_found_witness:
  "\<exists>s'. create_User 7 4 (Some 0) users_initial = ret (Some 0, s')
    \<and> user_of_sock 4 s' = ret (Some (new_user 7 4))"
proof -
  have "users_rep users_initial []" by (simp add: users_rep_def users_initial_def)
  from created_user_is_found [OF this, of 0 4 7] show ?thesis
    by (auto simp: users_initial_def dll_empty_def)
qed

text \<open>Removing the user of a socket takes exactly that user out of the list, wherever in the list
  it is: its socket finds nothing from then on and every other socket finds what it found before.\<close>

theorem removed_user_is_gone:
  assumes "users_rep s (us @ u # vs)" and "distinct (map sock (us @ u # vs))"
  shows "\<exists>s'. remove_User (sock u) s = ret (True, s') \<and> users_rep s' (us @ vs)
    \<and> user_of_sock (sock u) s' = ret None
    \<and> (\<forall>k. k \<noteq> sock u \<longrightarrow> user_of_sock k s' = user_of_sock k s)"
proof -
  obtain xs p ys where as: "users_at s (xs @ p # ys)" "us = map (user_at s) xs" "u = user_at s p"
    using assms(1) by (blast elim: users_rep_split)
  then have "sock (user_at s p) \<notin> sock ` user_at s ` set xs" using assms(2) by auto
  then obtain s' where "remove_User (sock u) s = ret (True, s')"
    using remove_User_at [OF as(1)] as(3) by blast
  then show ?thesis
    using ur.lookup_removed [OF assms] by (simp add: drop_user_def)
qed

theorem removed_user_is_gone_witness:
  "\<exists>s s'. create_User 7 4 (Some 0) users_initial = ret (Some 0, s) \<and> remove_User 4 s = ret (True, s')
    \<and> user_of_sock 4 s' = ret None"
proof -
  have "users_rep users_initial []" by (simp add: users_rep_def users_initial_def)
  from ur.lookup_added [OF this, of 0 "(7, 4)"] obtain s where
    s: "add_user 0 (7, 4) users_initial = ret s" "users_rep s ([] @ new_user 7 4 # [])"
    by (auto simp: users_initial_def dll_empty_def)
  from s(1) obtain r where "create_User 7 4 (Some 0) users_initial = ret (r, s)"
    by (auto simp: add_user_def bindR_ret_iff)
  moreover have "users_at users_initial []" by (simp add: users_at_def users_initial_def)
  from create_User_at [OF this, of 4 0 7] have "\<exists>s. create_User 7 4 (Some 0) users_initial = ret (Some 0, s)"
    by (auto simp: users_initial_def dll_empty_def)
  ultimately show ?thesis
    using removed_user_is_gone [OF s(2)] by (auto simp: new_user_def)
qed

text \<open>\<open>is_name_free\<close> says whether no logged-in user of the list shows the name, and changes
  nothing.\<close>

theorem is_name_free_decides:
  assumes "users_reachable s" and "users_rep s us" and "c_string nm = ret n"
  shows "is_name_free nm s = ret (\<forall>u \<in> set us. logged_in u \<longrightarrow> display_name u \<noteq> n, s)"
proof -
  obtain bs where inv: "users_inv_at s bs"
    using users_reachable_inv [OF assms(1)] by (auto simp: users_inv_def)
  obtain as where as: "users_at s as" "us = map (user_at s) as"
    using assms(2) by (auto simp: users_rep_at)
  then have "as = bs" using inv dll_ok_unique by (auto simp: users_inv_at_def users_at_def)
  then show ?thesis
    using is_name_free_at [OF as(1) _ assms(3)] users_inv_terminated [OF inv] as(2) by auto
qed

theorem is_name_free_decides_witness:
  "is_name_free [65, 66, 0] example_users = ret (False, example_users)"
proof -
  have "c_string [65, 66, 0] = ret [65, 66]" by code_simp
  from is_name_free_decides [OF example_users_reachable example_users_rep this]
  have "is_name_free [65, 66, 0] example_users =
    ret (\<forall>u \<in> set (map (user_at example_users) [0, 1]). logged_in u \<longrightarrow> display_name u \<noteq> [65, 66],
      example_users)" .
  moreover have "\<not> (\<forall>u \<in> set (map (user_at example_users) [0, 1]).
      logged_in u \<longrightarrow> display_name u \<noteq> [65, 66])"
    by code_simp
  ultimately show ?thesis by simp
qed

lemma display_name_patch:
  assumes "0 \<notin> set t" and "length t \<le> length (name u)"
  shows "display_name (u\<lparr>name := patch (name u) 0 t, logged_in := b, name_length := k\<rparr>)
    = t @ takeWhile (\<lambda>c. c \<noteq> 0) (drop (length t) (name u))"
proof -
  have "takeWhile (\<lambda>c. c \<noteq> 0) (t @ r) = t @ takeWhile (\<lambda>c. c \<noteq> 0) r" for r
    using assms(1) by (intro takeWhile_append2) auto
  then show ?thesis by (simp add: display_name_def patch_def)
qed

lemma login_tail:
  assumes "users_reachable s" and "users_at s as" and "a \<in> set as"
    and "0 \<notin> set t" and "length t \<le> 31"
  shows "\<exists>s'. login_User (Some a) (t @ r) (of_nat (length t)) s = ret (True, s') \<and> users_at s' as
    \<and> logged_in (user_at s' a) \<and> unat (name_length (user_at s' a)) = length t
    \<and> display_name (user_at s' a) =
        t @ takeWhile (\<lambda>c. c \<noteq> 0) (drop (length t) (name (user_at s a)))
    \<and> (\<forall>b. b \<noteq> a \<longrightarrow> user_at s' b = user_at s b)"
proof -
  obtain bs where inv: "users_inv_at s bs"
    using users_reachable_inv [OF assms(1)] by (auto simp: users_inv_def)
  have "as = bs" using inv assms(2) dll_ok_unique by (auto simp: users_inv_at_def users_at_def)
  with inv have inv: "users_inv_at s as" by simp
  have n: "unat (of_nat (length t) :: u16) = length t"
    using assms(5) by (simp add: unat_of_nat)
  have len: "length (name (user_at s a)) = 32"
    using inv assms(3) by (auto simp: users_inv_at_def user_ok_def)
  show ?thesis
    using login_step [OF inv assms(3), of "of_nat (length t)" "t @ r"] assms(4,5) len
    by (auto simp: n users_inv_at_def strncpy_image_exact display_name_patch)
qed

text \<open>Logging a user in under a name of at most 31 bytes writes the name without a terminator over
  the start of the old name: what the user shows afterwards is the new name followed by what is
  left of the old one behind it. Only this user changes, and it is logged in.\<close>

theorem login_keeps_the_tail:
  assumes "users_reachable s" and "users_at s as" and "a \<in> set as"
    and "0 \<notin> set t" and "length t \<le> 31"
  shows "\<exists>s'. login_User (Some a) (t @ r) (of_nat (length t)) s = ret (True, s') \<and> users_at s' as
    \<and> logged_in (user_at s' a) \<and> unat (name_length (user_at s' a)) = length t
    \<and> display_name (user_at s' a) =
        t @ takeWhile (\<lambda>c. c \<noteq> 0) (drop (length t) (name (user_at s a)))
    \<and> (\<forall>b. b \<noteq> a \<longrightarrow> user_at s' b = user_at s b)"
  using assms by (rule login_tail)

theorem login_keeps_the_tail_witness:
  "\<exists>s'. login_User (Some 0) ([88] @ [0]) (of_nat (length ([88] :: byte list))) example_users = ret (True, s')
    \<and> display_name (user_at s' 0) = [88, 66]"
proof -
  have "takeWhile (\<lambda>c. c \<noteq> 0) (drop (length ([88] :: byte list)) (name (user_at example_users 0))) = [66]"
    by code_simp
  moreover have "0 \<notin> set ([88] :: byte list)" and "length ([88] :: byte list) \<le> 31" by simp_all
  ultimately show ?thesis
    using login_keeps_the_tail [OF example_users_reachable example_users_at, of 0 "[88]" "[0]"]
    by fastforce
qed

text \<open>C29: The check for a free name does not keep a second login from taking another user's name: a
  user that first logged in as \<open>xB\<close> is allowed the free name \<open>A\<close> and then shows \<open>AB\<close>, the name the
  other user is logged in under.\<close>

theorem second_login_takes_a_used_name:
  "\<exists>s s'. run_user_calls [Login 1 [120, 66, 0] 2] example_users = ret s
    \<and> is_name_free [65, 0] s = ret (True, s) \<and> login_User (Some 1) [65, 0] 1 s = ret (True, s')
    \<and> logged_in (user_at s' 0) \<and> logged_in (user_at s' 1)
    \<and> display_name (user_at s' 0) = display_name (user_at s' 1)"
proof -
  let ?r = "run_user_calls [Login 1 [120, 66, 0] 2] example_users"
  let ?s = "the_ret ?r"
  have "is_ret ?r" by code_simp
  then have r: "?r = ret ?s" by (rule is_ret_the)
  have reach: "users_reachable ?s"
    by (rule run_user_calls_reachable [OF r example_users_reachable])
  have at: "users_at ?s [0, 1]" by (rule users_reachable_at [OF reach]) code_simp
  have len: "0 \<notin> set ([65] :: byte list)" "length ([65] :: byte list) \<le> 31" by simp_all
  obtain s' where s': "login_User (Some 1) ([65] @ [0]) (of_nat (length ([65] :: byte list))) ?s = ret (True, s')"
    "logged_in (user_at s' 1)"
    "display_name (user_at s' 1) = [65] @ takeWhile (\<lambda>c. c \<noteq> 0) (drop (length ([65] :: byte list)) (name (user_at ?s 1)))"
    "\<forall>b. b \<noteq> 1 \<longrightarrow> user_at s' b = user_at ?s b"
    using login_tail [OF reach at _ len, of 1 "[0]"] by auto
  have "takeWhile (\<lambda>c. c \<noteq> 0) (drop (length ([65] :: byte list)) (name (user_at ?s 1))) = [66]"
    by code_simp
  moreover have "display_name (user_at ?s 0) = [65, 66]" "logged_in (user_at ?s 0)" by code_simp+
  moreover have "is_name_free [65, 0] ?s = ret (True, ?s)"
  proof -
    have c: "c_string [65, 0] = ret [65]" by code_simp
    have f: "(\<forall>a \<in> set [0, 1]. \<not> (logged_in (user_at ?s a) \<and> display_name (user_at ?s a) = [65])) = True"
      by code_simp
    have t: "terminated ?s [0, 1]" unfolding terminated_def by code_simp
    show ?thesis unfolding is_name_free_at [OF at t c] f ..
  qed
  ultimately show ?thesis using r s' by (intro exI [of _ ?s] exI [of _ s'] conjI) simp_all
qed

text \<open>Logged-in users show different names as long as each logs in once: after \<open>is_name_free\<close>
  has allowed a name, logging in under it a user whose name is still blank keeps the names of the
  logged-in users distinct.\<close>

theorem first_login_keeps_names_distinct:
  assumes "users_reachable s" and "users_at s as" and "a \<in> set as"
    and "\<forall>b \<in> set as. \<forall>c \<in> set as. b \<noteq> c \<and> logged_in (user_at s b) \<and> logged_in (user_at s c) \<longrightarrow>
           display_name (user_at s b) \<noteq> display_name (user_at s c)"
    and "name (user_at s a) = replicate 32 0" and "0 \<notin> set t" and "length t \<le> 30"
    and "is_name_free (t @ 0 # r) s = ret (True, s)"
  shows "\<exists>s'. login_User (Some a) (t @ 0 # r) (of_nat (length t)) s = ret (True, s')
    \<and> (\<forall>b \<in> set as. \<forall>c \<in> set as. b \<noteq> c \<and> logged_in (user_at s' b) \<and> logged_in (user_at s' c) \<longrightarrow>
           display_name (user_at s' b) \<noteq> display_name (user_at s' c))"
proof -
  obtain bs where inv: "users_inv_at s bs"
    using users_reachable_inv [OF assms(1)] by (auto simp: users_inv_def)
  have "as = bs" using inv assms(2) dll_ok_unique by (auto simp: users_inv_at_def users_at_def)
  with inv have inv: "users_inv_at s as" by simp
  have "c_string (t @ 0 # r) = ret t" using assms(6) by (rule c_string_app)
  from is_name_free_at [OF assms(2) users_inv_terminated [OF inv] this] assms(8)
  have other: "\<And>b. b \<in> set as \<Longrightarrow> logged_in (user_at s b) \<Longrightarrow> display_name (user_at s b) \<noteq> t"
    by auto
  have n: "unat (of_nat (length t) :: u16) = length t"
    using assms(7) by (simp add: unat_of_nat)
  obtain s' where s': "login_User (Some a) (t @ 0 # r) (of_nat (length t)) s = ret (True, s')"
    "user_at s' = (user_at s)(a := (user_at s a)\<lparr>name := patch (replicate 32 0) 0 t,
        logged_in := True, name_length := of_nat (length t)\<rparr>)"
    using login_step [OF inv assms(3), of "of_nat (length t)" "t @ 0 # r"] assms(5-7)
    by (auto simp: n strncpy_image_exact)
  have "display_name (user_at s' a) = t"
    using display_name_patch [of t "user_at s a"] assms(5-7)
    by (simp add: s'(2) takeWhile_replicate_False)
  moreover have "user_at s' b = user_at s b" if "b \<noteq> a" for b using that s'(2) by simp
  ultimately show ?thesis using s'(1) assms(4) other by (metis s'(1))
qed

theorem first_login_keeps_names_distinct_witness:
  "\<exists>s'. login_User (Some 1) ([65] @ 0 # []) (of_nat (length ([65] :: byte list))) example_users = ret (True, s')
    \<and> (\<forall>b \<in> set [0, 1]. \<forall>c \<in> set [0, 1]. b \<noteq> c \<and> logged_in (user_at s' b) \<and> logged_in (user_at s' c) \<longrightarrow>
           display_name (user_at s' b) \<noteq> display_name (user_at s' c))"
proof (rule first_login_keeps_names_distinct [OF example_users_reachable example_users_at])
  show "\<forall>b \<in> set [0, 1]. \<forall>c \<in> set [0, 1]. b \<noteq> c \<and> logged_in (user_at example_users b)
      \<and> logged_in (user_at example_users c) \<longrightarrow>
      display_name (user_at example_users b) \<noteq> display_name (user_at example_users c)"
    by code_simp
  show "name (user_at example_users 1) = replicate 32 0" by code_simp
  have c: "c_string ([65] @ 0 # []) = ret [65]" by code_simp
  have t: "terminated example_users [0, 1]" unfolding terminated_def by code_simp
  have f: "(\<forall>a \<in> set [0, 1]. \<not> (logged_in (user_at example_users a)
      \<and> display_name (user_at example_users a) = [65])) = True" by code_simp
  show "is_name_free ([65] @ 0 # []) example_users = ret (True, example_users)"
    unfolding is_name_free_at [OF example_users_at t c] f ..
qed simp_all

text \<open>When \<^verbatim>\<open>malloc\<close> fails, \<open>create_User\<close> returns NULL with the mutex still held: every later
  call that searches the list, and every check of a name while the list has a user, never returns.\<close>

theorem create_without_memory_blocks:
  assumes "users_rep s us" and "sk \<notin> sock ` set us"
  shows "\<exists>s'. create_User t sk None s = ret (None, s') \<and> users s' = users s
    \<and> (\<forall>k. f_find_User k s' = fail Deadlock \<and> remove_User k s' = fail Deadlock)
    \<and> (\<forall>t k m. create_User t k m s' = fail Deadlock)
    \<and> (us \<noteq> [] \<longrightarrow> (\<forall>nm. is_name_free nm s' = fail Deadlock))"
proof -
  obtain as where as: "users_at s as" "us = map (user_at s) as"
    using assms(1) by (auto simp: users_rep_at)
  then have "create_User t sk None s = ret (None, s\<lparr>user_lock := True\<rparr>)"
    using assms(2) by (intro create_User_no_memory) auto
  moreover have "us \<noteq> [] \<longrightarrow> dfront (users s) \<noteq> None"
    using as by (auto simp: users_at_def dll_ok_def dest!: dseg_first_eq)
  ultimately show ?thesis
    by (simp add: f_find_User_def remove_User_def create_User_def is_name_free_def)
qed

theorem create_without_memory_blocks_witness:
  "\<exists>s'. create_User 7 4 None users_initial = ret (None, s') \<and> remove_User 4 s' = fail Deadlock"
proof -
  have "users_rep users_initial []" by (simp add: users_rep_def users_initial_def)
  from create_without_memory_blocks [OF this, of 4 7] show ?thesis by auto
qed

end
