(* ===== verification/Commands.thy ===== *)
theory Commands
  imports Network
begin

text \<open>
  The part of \<^verbatim>\<open>src/src/application.c\<close> the client threads use: the server's configuration, the
  table of the administrator's commands and the function that recognises one, with the two
  \<^verbatim>\<open>sscanf\<close> formats of the program.
\<close>

section \<open>Configuration\<close>

text \<open>The two 32-byte name buffers and the port, with the values they are initialised with.\<close>

record config =
  server_name :: "byte list"
  admin_name :: "byte list"
  port :: u16

definition name_buffer :: "string \<Rightarrow> byte list" where
  "name_buffer s = bytes_of s @ replicate (32 - length s) 0"

definition config_initial :: config where
  "config_initial =
     \<lparr>server_name = name_buffer ''Server_04'', admin_name = name_buffer ''Admin'', port = 8111\<rparr>"

definition get_server_name :: "config \<Rightarrow> byte list" where
  "get_server_name = server_name"

definition get_admin_name :: "config \<Rightarrow> byte list" where
  "get_admin_name = admin_name"

definition get_port :: "config \<Rightarrow> u16" where
  "get_port = port"

section \<open>The table of commands\<close>

datatype admin_command_code =
    AC_Kick
  | AC_Pause
  | AC_Resume
  | AC_Shutdown
  | AC_Help
  | AC_No_Valid_Command

record AC_Command_Data =
  ac_command :: string
  ac_syntax :: string
  ac_description :: string
  ac_code :: admin_command_code

definition All_Admin_Commands_Data :: "AC_Command_Data list" where
  "All_Admin_Commands_Data =
     [\<lparr>ac_command = ''kick'', ac_syntax = ''/kick'',
       ac_description = ''Kick a user from the chat'', ac_code = AC_Kick\<rparr>,
      \<lparr>ac_command = ''pause'', ac_syntax = ''/pause'',
       ac_description = ''Pause new incoming messages'', ac_code = AC_Pause\<rparr>,
      \<lparr>ac_command = ''resume'', ac_syntax = ''/resume'',
       ac_description = ''Resume receiving incoming messages'', ac_code = AC_Resume\<rparr>,
      \<lparr>ac_command = ''shutdown'', ac_syntax = ''/shutdown'',
       ac_description = ''Disconnect all clients and shutdown the server'', ac_code = AC_Shutdown\<rparr>,
      \<lparr>ac_command = ''help'', ac_syntax = ''/help'',
       ac_description = ''Display a list of available commands and their usage'', ac_code = AC_Help\<rparr>]"

definition get_length_of_AC_Data :: nat where
  "get_length_of_AC_Data = length All_Admin_Commands_Data"

definition Get_Admin_Command_Data :: "nat \<Rightarrow> AC_Command_Data res" where
  "Get_Admin_Command_Data index =
     (if index < length All_Admin_Commands_Data then ret (All_Admin_Commands_Data ! index)
      else fail Out_Of_Bounds)"

text \<open>\<^verbatim>\<open>ITERATE_OVER_ADMIN_COMMANDS\<close>: the body for the entries from \<open>x\<close> on.\<close>

function admin_commands_from ::
    "(AC_Command_Data \<Rightarrow> 'st \<Rightarrow> 'st res) \<Rightarrow> nat \<Rightarrow> 'st \<Rightarrow> 'st res" where
  "admin_commands_from body x st =
     (if x < get_length_of_AC_Data
      then bindR (Get_Admin_Command_Data x) (\<lambda>current_AC_Data.
             bindR (body current_AC_Data st) (\<lambda>st. admin_commands_from body (x + 1) st))
      else ret st)"
  by pat_completeness auto
termination by (relation "measure (\<lambda>(_, x, _). get_length_of_AC_Data - x)") auto

declare admin_commands_from.simps [simp del]

definition ITERATE_OVER_ADMIN_COMMANDS ::
    "(AC_Command_Data \<Rightarrow> 'st \<Rightarrow> 'st res) \<Rightarrow> 'st \<Rightarrow> 'st res" where
  "ITERATE_OVER_ADMIN_COMMANDS body st = admin_commands_from body 0 st"

section \<open>Recognising a command\<close>

text \<open>
  \<^verbatim>\<open>sscanf(s, "%31s", w)\<close> of a C string: white space is skipped, then up to 31 bytes of the word
  are stored. \<open>None\<close> is no conversion, at the end of the string.
\<close>

definition scan_word :: "nat \<Rightarrow> byte list \<Rightarrow> byte list option" where
  "scan_word n s =
     (case dropWhile c_isspace s of
        [] \<Rightarrow> None
      | t \<Rightarrow> Some (take n (takeWhile (\<lambda>c. \<not> c_isspace c) t)))"

fun find_command :: "byte list \<Rightarrow> AC_Command_Data list \<Rightarrow> admin_command_code" where
  "find_command first_word [] = AC_No_Valid_Command"
| "find_command first_word (d # ds) =
     (if first_word = bytes_of (ac_syntax d) then ac_code d else find_command first_word ds)"

definition get_server_command :: "byte list \<Rightarrow> admin_command_code res" where
  "get_server_command command =
     bindR (c_string command) (\<lambda>s.
       (case scan_word 31 s of
          None \<Rightarrow> ret AC_No_Valid_Command
        | Some first_word \<Rightarrow> ret (find_command first_word All_Admin_Commands_Data)))"

text \<open>
  \<^verbatim>\<open>sscanf(s, "%*s %31[^\n]", name)\<close>: the first word is skipped, and the white space behind it,
  and up to 31 bytes of the rest of the line are stored with a NUL. The destination of the handler
  has \<^const>\<open>NET_NAME_LEN\<close> bytes, of which only the stored string is read later. \<open>None\<close> is no
  conversion: the destination keeps what it held.
\<close>

definition scan_rest_of_line :: "nat \<Rightarrow> byte list \<Rightarrow> byte list option" where
  "scan_rest_of_line n s =
     (case dropWhile c_isspace (dropWhile (\<lambda>c. \<not> c_isspace c) (dropWhile c_isspace s)) of
        [] \<Rightarrow> None
      | t \<Rightarrow> Some (take n (takeWhile (\<lambda>c. c \<noteq> 10) t)))"

definition kick_argument :: "byte list \<Rightarrow> byte list option res" where
  "kick_argument text =
     bindR (c_string text) (\<lambda>s.
       (case scan_rest_of_line 31 s of
          None \<Rightarrow> ret None
        | Some nm \<Rightarrow>
            bindR (mem_write (replicate NET_NAME_LEN 0) 0 (nm @ [0])) (\<lambda>buf. ret (Some buf))))"

section \<open>What the table recognises\<close>

lemma dropWhile_all: "(\<And>x. x \<in> set xs \<Longrightarrow> P x) \<Longrightarrow> dropWhile P (xs @ ys) = dropWhile P ys"
  by (induction xs) auto

lemma c_isspace_nonzero: "c_isspace c \<Longrightarrow> c \<noteq> 0"
  by (auto simp: c_isspace_def)

text \<open>A text is blanks, a word, and then its end or another blank.\<close>

definition words_text :: "byte list \<Rightarrow> byte list \<Rightarrow> byte list \<Rightarrow> bool" where
  "words_text pre w post \<longleftrightarrow> (\<forall>c \<in> set pre. c_isspace c) \<and> w \<noteq> [] \<and> (\<forall>c \<in> set w. \<not> c_isspace c)
     \<and> (post = [] \<or> c_isspace (hd post))"

lemma first_word:
  assumes "words_text pre w post"
  shows "dropWhile c_isspace (pre @ w @ post) = w @ post"
    and "takeWhile (\<lambda>c. \<not> c_isspace c) (w @ post) = w"
    and "dropWhile (\<lambda>c. \<not> c_isspace c) (w @ post) = post"
proof -
  have "dropWhile c_isspace (pre @ w @ post) = dropWhile c_isspace (w @ post)"
    using assms by (intro dropWhile_all) (auto simp: words_text_def)
  also have "\<dots> = w @ post" using assms by (cases w) (auto simp: words_text_def)
  finally show "dropWhile c_isspace (pre @ w @ post) = w @ post" .
  show "takeWhile (\<lambda>c. \<not> c_isspace c) (w @ post) = w"
    using assms by (cases post) (auto simp: words_text_def takeWhile_append2)
  show "dropWhile (\<lambda>c. \<not> c_isspace c) (w @ post) = post"
    using assms by (cases post) (auto simp: words_text_def dropWhile_all)
qed

lemma scan_word_text:
  assumes "words_text pre w post"
  shows "scan_word n (pre @ w @ post) = Some (take n w)"
proof -
  obtain c cs where w: "w = c # cs" using assms by (cases w) (auto simp: words_text_def)
  have "dropWhile c_isspace (pre @ w @ post) = c # (cs @ post)"
    using first_word(1) [OF assms] by (simp add: w)
  then have "scan_word n (pre @ w @ post) = Some (take n (takeWhile (\<lambda>c. \<not> c_isspace c) (w @ post)))"
    by (simp add: scan_word_def w)
  then show ?thesis by (simp only: first_word(2) [OF assms])
qed

definition command_words :: "(byte list \<times> admin_command_code) list" where
  "command_words = [(bytes_of ''/kick'', AC_Kick), (bytes_of ''/pause'', AC_Pause),
     (bytes_of ''/resume'', AC_Resume), (bytes_of ''/shutdown'', AC_Shutdown), (bytes_of ''/help'', AC_Help)]"

definition command_of :: "byte list \<Rightarrow> admin_command_code" where
  "command_of w = (case map_of command_words w of None \<Rightarrow> AC_No_Valid_Command | Some c \<Rightarrow> c)"

lemma find_command_table: "find_command w All_Admin_Commands_Data = command_of w"
  by (simp add: All_Admin_Commands_Data_def command_of_def command_words_def)

lemma command_of_short:
  assumes "31 < length w"
  shows "command_of w = AC_No_Valid_Command" and "command_of (take 31 w) = AC_No_Valid_Command"
proof -
  have no: "command_of v = AC_No_Valid_Command" if "31 \<le> length v" for v
    using that by (auto simp: command_of_def command_words_def)
  show "command_of w = AC_No_Valid_Command" using assms by (intro no) simp
  show "command_of (take 31 w) = AC_No_Valid_Command" using assms by (intro no) simp
qed

section \<open>Properties\<close>

lemma get_server_command_text:
  assumes "words_text pre w post" and "0 \<notin> set (pre @ w @ post)"
  shows "get_server_command ((pre @ w @ post) @ 0 # r) = ret (command_of w)"
proof -
  have "command_of (take 31 w) = command_of w"
    by (cases "length w \<le> 31") (simp_all add: command_of_short)
  then show ?thesis
    using assms(2)
    by (simp add: get_server_command_def c_string_app [OF assms(2)] scan_word_text [OF assms(1)]
        find_command_table del: append_assoc)
qed

text \<open>The command of a text is decided by its first word alone, whatever blanks are before it and
  whatever follows it: the five words of the table have their codes and every other word, however
  long, has none.\<close>

theorem command_is_the_first_word:
  assumes "words_text pre w post" and "0 \<notin> set (pre @ w @ post)"
  shows "get_server_command ((pre @ w @ post) @ 0 # r) = ret (command_of w)"
  using assms by (rule get_server_command_text)

theorem command_is_the_first_word_witness:
  "get_server_command (([32] @ bytes_of ''/kick'' @ bytes_of '' Bob'') @ 0 # []) = ret AC_Kick"
proof -
  have "words_text [32] (bytes_of ''/kick'') (bytes_of '' Bob'')" by code_simp
  moreover have "0 \<notin> set ([32] @ bytes_of ''/kick'' @ bytes_of '' Bob'')" by code_simp
  moreover have "command_of (bytes_of ''/kick'') = AC_Kick" by code_simp
  ultimately show ?thesis using command_is_the_first_word by metis
qed

lemma kick_argument_text:
  assumes "words_text pre w []" and "\<forall>c \<in> set gap. c_isspace c" and "gap \<noteq> []"
    and "0 \<notin> set (pre @ w @ gap @ nm)" and "nm = [] \<or> \<not> c_isspace (hd nm)" and "10 \<notin> set nm"
  shows "kick_argument ((pre @ w @ gap @ nm) @ 0 # r) =
    (if nm = [] then ret None
     else if length nm \<le> 30 then ret (Some (nm @ replicate (31 - length nm) 0))
     else fail Out_Of_Bounds)"
proof -
  have wt: "words_text pre w (gap @ nm)" using assms(1-3) by (cases gap) (auto simp: words_text_def)
  have rest: "dropWhile c_isspace (dropWhile (\<lambda>c. \<not> c_isspace c) (dropWhile c_isspace (pre @ w @ gap @ nm))) = nm"
    using assms(2,5) first_word [OF wt] by (cases nm) (auto simp: dropWhile_all)
  have line: "takeWhile (\<lambda>c. c \<noteq> 10) nm = nm" using assms(6) by (auto simp: takeWhile_eq_all_conv)
  have scan: "scan_rest_of_line 31 (pre @ w @ gap @ nm) = (if nm = [] then None else Some (take 31 nm))"
    unfolding scan_rest_of_line_def rest using line by (cases nm) auto
  have "mem_write (replicate NET_NAME_LEN 0) 0 (take 31 nm @ [0]) =
      (if length nm \<le> 30 then ret (nm @ replicate (31 - length nm) 0) else fail Out_Of_Bounds)"
  proof (cases "length nm \<le> 30")
    case True
    then show ?thesis
      by (simp add: mem_write_def wire_simps replicate_append_same Suc_diff_le flip: replicate_Suc)
  next
    case False
    then show ?thesis by (simp add: mem_write_def wire_simps)
  qed
  then show ?thesis
    by (simp add: kick_argument_def c_string_app [OF assms(4)] scan del: append_assoc)
qed

text \<open>The name a \<^verbatim>\<open>/kick\<close> command stores is the rest of its line behind the blanks, as a
  terminated string, when it has at most 30 bytes. A name of 31 bytes or more is written one byte
  past the 31-byte destination, and a command without a name stores nothing.\<close>

theorem kick_argument_cases:
  assumes "words_text pre w []" and "\<forall>c \<in> set gap. c_isspace c" and "gap \<noteq> []"
    and "0 \<notin> set (pre @ w @ gap @ nm)" and "nm = [] \<or> \<not> c_isspace (hd nm)" and "10 \<notin> set nm"
  shows "kick_argument ((pre @ w @ gap @ nm) @ 0 # r) =
    (if nm = [] then ret None
     else if length nm \<le> 30 then ret (Some (nm @ replicate (31 - length nm) 0))
     else fail Out_Of_Bounds)"
  using assms by (rule kick_argument_text)

theorem kick_argument_cases_witness:
  "kick_argument (([] @ bytes_of ''/kick'' @ [32] @ bytes_of ''Bob Ray'') @ 0 # []) =
     ret (Some (bytes_of ''Bob Ray'' @ replicate 24 0))"
proof -
  have "words_text [] (bytes_of ''/kick'') []" by code_simp
  moreover have "\<forall>c \<in> set [32]. c_isspace c" by code_simp
  moreover have "0 \<notin> set ([] @ bytes_of ''/kick'' @ [32] @ bytes_of ''Bob Ray'')" by code_simp
  moreover have "\<not> c_isspace (hd (bytes_of ''Bob Ray''))" "10 \<notin> set (bytes_of ''Bob Ray'')"
    by code_simp+
  moreover have "bytes_of ''Bob Ray'' \<noteq> []" by (simp add: bytes_of_def)
  ultimately show ?thesis
    using kick_argument_cases [of "[]" "bytes_of ''/kick''" "[32]" "bytes_of ''Bob Ray''" "[]"]
    by (simp del: append_Cons)
qed

end
