(* ===== verification/Broadcast.thy ===== *)
theory Broadcast
  imports Network Users
begin

text \<open>
  \<^verbatim>\<open>src/src/network/broadcastagent.c\<close>: the message queue between the client threads and the
  broadcast agent, the semaphore that pauses the agent, and the agent's loop as a step relation
  beside the calls of the clients. What the kernel's queue and the thread library return to the
  calls is an argument of the operations.
\<close>

section \<open>State\<close>

text \<open>
  What the threads share, in layers: the user store and the bytes handed to the sockets, and the
  queue and the variables of the agent. \<open>agent_buffer\<close> is the agent's local \<^verbatim>\<open>buffer\<close>, \<open>None\<close> before
  anything was received into it; \<open>agent_pc\<close> is where the agent is in its loop.
\<close>

record queue_message =
  sender :: "nat option"
  qmsg :: "byte list"

datatype agent_position = At_Receive | At_Wait | At_Send | At_Post

record net_state =
  ustore :: user_store
  outbox :: "(u16 \<times> byte list) list"

record broadcast_state = net_state +
  broadcast_queue :: "queue_message list"
  mq_maxmsg :: nat
  broadcast_sem :: nat
  broadcast_Paused :: bool
  running :: bool
  agent_buffer :: "queue_message option"
  agent_pc :: "agent_position option"

definition broadcast_initial :: broadcast_state where
  "broadcast_initial =
     \<lparr>ustore = users_initial, outbox = [], broadcast_queue = [], mq_maxmsg = 0, broadcast_sem = 0,
      broadcast_Paused = False, running = True, agent_buffer = None, agent_pc = None\<rparr>"

interpretation acc: user_access "ustore :: 'a net_state_scheme \<Rightarrow> user_store"
  "\<lambda>s st. st\<lparr>ustore := s\<rparr>"
  by unfold_locales simp_all

abbreviation over_users ::
    "(nat \<Rightarrow> 'a net_state_scheme \<Rightarrow> (bool \<times> 'a net_state_scheme) res)
     \<Rightarrow> 'a net_state_scheme \<Rightarrow> 'a net_state_scheme res" where
  "over_users \<equiv> ITERATE_OVER_USERS ustore (\<lambda>s st. st\<lparr>ustore := s\<rparr>)"

text \<open>\<^const>\<open>network_Send\<close> with the bytes it hands over recorded in the state.\<close>

definition send_to :: "env \<Rightarrow> u16 \<Rightarrow> byte list \<Rightarrow> 'a net_state_scheme \<Rightarrow> 'a net_state_scheme res" where
  "send_to E sk m st =
     bindR (network_Send E sk m) (\<lambda>(status, out). ret (st\<lparr>outbox := outbox st @ out\<rparr>))"

section \<open>Operations\<close>

text \<open>
  Starting: \<open>left_over\<close> is \<open>None\<close> when \<^verbatim>\<open>mq_open\<close> fails, and otherwise the messages that are
  already in the named queue, from a server that did not unlink it. Such a queue would keep its own
  limit; it is taken to be this server's ten. The source creates the thread before \<^verbatim>\<open>sem_init\<close>; here
  both are one step.
\<close>

definition broadcast_agent_init ::
    "queue_message list option \<Rightarrow> bool \<Rightarrow> 'a broadcast_state_scheme \<Rightarrow> int \<times> 'a broadcast_state_scheme" where
  "broadcast_agent_init left_over thread_ok st =
     (let st = st\<lparr>mq_maxmsg := 10\<rparr> in
      if left_over = None then (-1, st)
      else let st = st\<lparr>broadcast_queue := the left_over\<rparr> in
        if \<not> thread_ok then (-1, st)
        else (0, st\<lparr>agent_pc := Some At_Receive, broadcast_sem := 1\<rparr>))"

definition broadcast_message ::
    "bool \<Rightarrow> byte list \<Rightarrow> nat option \<Rightarrow> 'a broadcast_state_scheme \<Rightarrow> bool \<times> 'a broadcast_state_scheme" where
  "broadcast_message mq_send_ok m User_to_Ignore st =
     (let loc_msg = \<lparr>sender = User_to_Ignore, qmsg = m\<rparr> in
      if \<not> length (broadcast_queue st) < mq_maxmsg st then (False, st)
      else if \<not> mq_send_ok then (False, st)
      else (True, st\<lparr>broadcast_queue := broadcast_queue st @ [loc_msg]\<rparr>))"

text \<open>
  The calls that pausing and resuming consist of, in their order. \<^verbatim>\<open>sem_wait\<close> of a semaphore at 0 does
  not return until another thread posts.
\<close>

datatype sem_call = Sem_wait | Sem_post | Set_paused bool

fun sem_call_step :: "sem_call \<Rightarrow> 'a broadcast_state_scheme \<Rightarrow> 'a broadcast_state_scheme option" where
  "sem_call_step Sem_wait st =
     (if broadcast_sem st = 0 then None else Some (st\<lparr>broadcast_sem := broadcast_sem st - 1\<rparr>))"
| "sem_call_step Sem_post st = Some (st\<lparr>broadcast_sem := broadcast_sem st + 1\<rparr>)"
| "sem_call_step (Set_paused b) st = Some (st\<lparr>broadcast_Paused := b\<rparr>)"

fun run_calls :: "sem_call list \<Rightarrow> 'a broadcast_state_scheme \<Rightarrow> 'a broadcast_state_scheme res" where
  "run_calls [] st = ret st"
| "run_calls (c # cs) st = (case sem_call_step c st of None \<Rightarrow> fail Deadlock | Some st \<Rightarrow> run_calls cs st)"

definition pause_calls :: "sem_call list" where
  "pause_calls = [Sem_wait, Set_paused True]"

definition resume_calls :: "sem_call list" where
  "resume_calls = [Sem_post, Set_paused False]"

definition pause_broadcast :: "'a broadcast_state_scheme \<Rightarrow> 'a broadcast_state_scheme res" where
  "pause_broadcast st = run_calls pause_calls st"

definition resume_broadcast :: "'a broadcast_state_scheme \<Rightarrow> 'a broadcast_state_scheme" where
  "resume_broadcast st = the_ret (run_calls resume_calls st)"

lemma pause_broadcast_eq:
  "pause_broadcast st =
     (if broadcast_sem st = 0 then fail Deadlock
      else ret (st\<lparr>broadcast_sem := broadcast_sem st - 1, broadcast_Paused := True\<rparr>))"
  by (simp add: pause_broadcast_def pause_calls_def)

lemma resume_broadcast_eq:
  "resume_broadcast st = st\<lparr>broadcast_sem := broadcast_sem st + 1, broadcast_Paused := False\<rparr>"
  by (simp add: resume_broadcast_def resume_calls_def the_ret_def)

definition Is_broadcast_paused :: "'a broadcast_state_scheme \<Rightarrow> bool" where
  "Is_broadcast_paused = broadcast_Paused"

text \<open>The results of \<^verbatim>\<open>mq_close\<close> and \<^verbatim>\<open>mq_unlink\<close>; closing removes the process's queue.\<close>

definition broadcast_agent_cleanup ::
    "bool \<Rightarrow> bool \<Rightarrow> 'a broadcast_state_scheme \<Rightarrow> 'a broadcast_state_scheme" where
  "broadcast_agent_cleanup mq_close_ok mq_unlink_ok st =
     (if \<not> mq_close_ok then st
      else if \<not> mq_unlink_ok then st
      else st\<lparr>broadcast_queue := []\<rparr>)"

section \<open>The agent\<close>

text \<open>
  The four places of the loop: \<^verbatim>\<open>mq_receive\<close> (which waits while the queue is empty, and may fail),
  \<^verbatim>\<open>sem_wait\<close>, the validation with the delivery, and \<^verbatim>\<open>sem_post\<close>. A place that has to wait is
  \<open>None\<close> here: the step is not taken.
\<close>

definition mq_receive :: "'a broadcast_state_scheme \<Rightarrow> (queue_message \<times> 'a broadcast_state_scheme) option" where
  "mq_receive st = (case broadcast_queue st of
       [] \<Rightarrow> None
     | q # qs \<Rightarrow> Some (q, st\<lparr>broadcast_queue := qs\<rparr>))"

definition deliver_body ::
    "env \<Rightarrow> queue_message \<Rightarrow> nat \<Rightarrow> 'a net_state_scheme \<Rightarrow> (bool \<times> 'a net_state_scheme) res" where
  "deliver_body E buffer target st =
     bindR (if Some target \<noteq> sender buffer then is_User_LoggedIn (Some target) (ustore st) else ret False)
       (\<lambda>c. if c
            then bindR (user_sock (Some target) (ustore st)) (\<lambda>sk.
                 bindR (send_to E sk (qmsg buffer) st) (\<lambda>st. ret (False, st)))
            else ret (False, st))"

definition agent_deliver ::
    "env \<Rightarrow> bool \<Rightarrow> 'a broadcast_state_scheme \<Rightarrow> 'a broadcast_state_scheme res" where
  "agent_deliver E received_ok st =
     (let st = (if received_ok then st else st\<lparr>running := False\<rparr>) in
      case agent_buffer st of
        None \<Rightarrow> fail Uninit_Read
      | Some buffer \<Rightarrow> over_users (deliver_body E buffer) st)"

text \<open>
  One step of \<^verbatim>\<open>broadcast_agent\<close> where it stands. \<open>ok\<close> is whether the round's \<^verbatim>\<open>mq_receive\<close>
  succeeds, read again by the validation after the wait.
\<close>

definition broadcast_agent ::
    "env \<Rightarrow> bool \<Rightarrow> 'a broadcast_state_scheme \<Rightarrow> 'a broadcast_state_scheme res option" where
  "broadcast_agent E ok st =
     (case agent_pc st of
        None \<Rightarrow> None
      | Some At_Receive \<Rightarrow>
          (if ok
           then (case mq_receive st of
                   None \<Rightarrow> None
                 | Some (q, st) \<Rightarrow> Some (ret (st\<lparr>agent_buffer := Some q, agent_pc := Some At_Wait\<rparr>)))
           else Some (ret (st\<lparr>agent_pc := Some At_Wait\<rparr>)))
      | Some At_Wait \<Rightarrow>
          (if broadcast_sem st = 0 then None
           else Some (ret (st\<lparr>broadcast_sem := broadcast_sem st - 1, agent_pc := Some At_Send\<rparr>)))
      | Some At_Send \<Rightarrow>
          Some (bindR (agent_deliver E ok st) (\<lambda>st. ret (st\<lparr>agent_pc := Some At_Post\<rparr>)))
      | Some At_Post \<Rightarrow>
          Some (ret (st\<lparr>broadcast_sem := broadcast_sem st + 1, agent_pc := Some At_Receive\<rparr>)))"

section \<open>The queue as an interface\<close>

text \<open>
  A queue with a capacity: adding at the end is refused exactly when it is full, taking removes the
  first. What was accepted is then always what was taken, followed by what is still there.
\<close>

locale bounded_fifo =
  fixes content :: "'s \<Rightarrow> 'm list" and capacity :: "'s \<Rightarrow> nat"
    and put_last :: "'m \<Rightarrow> 's \<Rightarrow> bool \<times> 's" and take_first :: "'s \<Rightarrow> ('m \<times> 's) option"
  assumes put_law: "put_last m s = (b, s') \<Longrightarrow>
      b = (length (content s) < capacity s) \<and> capacity s' = capacity s
      \<and> content s' = (if b then content s @ [m] else content s)"
    and take_law: "take_first s = Some (m, s') \<Longrightarrow> content s = m # content s' \<and> capacity s' = capacity s"
    and take_empty: "take_first s = None \<longleftrightarrow> content s = []"
begin

lemma put_bound:
  "put_last m s = (b, s') \<Longrightarrow> length (content s) \<le> capacity s \<Longrightarrow> length (content s') \<le> capacity s'"
  by (auto dest!: put_law)

lemma take_bound:
  "take_first s = Some (m, s') \<Longrightarrow> length (content s) \<le> capacity s \<Longrightarrow> length (content s') \<le> capacity s'"
  by (auto dest!: take_law)

lemma put_history:
  "put_last m s = (b, s') \<Longrightarrow> accepted = taken @ content s \<Longrightarrow>
   accepted @ (if b then [m] else []) = taken @ content s'"
  by (auto dest!: put_law)

lemma take_history:
  "take_first s = Some (m, s') \<Longrightarrow> accepted = taken @ content s \<Longrightarrow>
   accepted = (taken @ [m]) @ content s'"
  by (auto dest!: take_law)

lemma take_ready: "content s \<noteq> [] \<Longrightarrow> \<exists>s'. take_first s = Some (hd (content s), s')"
proof -
  assume "content s \<noteq> []"
  then obtain m s' where t: "take_first s = Some (m, s')" using take_empty by fastforce
  with take_law [OF t] show ?thesis by simp
qed

end

interpretation bq: bounded_fifo broadcast_queue mq_maxmsg
  "\<lambda>q st. broadcast_message True (qmsg q) (sender q) st" mq_receive
  by unfold_locales
     (auto simp: broadcast_message_def mq_receive_def Let_def split: if_splits list.splits)

section \<open>Delivery\<close>

text \<open>Who gets a broadcast, and what: the frame, as far as the socket takes it.\<close>

definition recipients :: "user_store \<Rightarrow> nat option \<Rightarrow> nat list \<Rightarrow> nat list" where
  "recipients s ignored as = filter (\<lambda>a. Some a \<noteq> ignored \<and> logged_in (user_at s a)) as"

definition sent_on :: "env \<Rightarrow> byte list \<Rightarrow> u16 \<Rightarrow> (u16 \<times> byte list) list" where
  "sent_on E bs sk = (case send_result E sk of None \<Rightarrow> [] | Some k \<Rightarrow> [(sk, take k bs)])"

lemma user_at_lock [simp]: "user_at (s\<lparr>user_lock := b\<rparr>) a = user_at s a"
  by (simp add: user_at_def)

lemma read_user_lock [simp]: "read_user f p (s\<lparr>user_lock := b\<rparr>) = read_user f p s"
  by (simp add: read_user_def)

lemma send_to_frame:
  assumes "carries_frame E m t body"
  shows "send_to E sk m st = ret (st\<lparr>outbox := outbox st @ sent_on E (frame t body) sk\<rparr>)"
  using assms by (simp add: send_to_def network_Send_frame sent_on_def split: option.split)

lemma fold_outbox:
  "fold (\<lambda>a st. st\<lparr>outbox := outbox st @ g a\<rparr>) as st = st\<lparr>outbox := outbox st @ concat (map g as)\<rparr>"
  by (induction as arbitrary: st) simp_all

lemma concat_if_filter:
  "concat (map (\<lambda>a. if P a then g a else []) as) = concat (map g (filter P as))"
  by (induction as) auto

text \<open>
  The loop every sender of the program has: the frame goes to the users that satisfy a test on
  the address and the user, in the order of the list.
\<close>

lemma over_users_sending:
  assumes at: "users_at (ustore st) as"
    and body: "\<And>a st'. a \<in> set as \<Longrightarrow> ustore st' = ustore st \<Longrightarrow>
      body a (st'\<lparr>ustore := (ustore st)\<lparr>user_lock := True\<rparr>\<rparr>) =
      ret (False, st'\<lparr>ustore := (ustore st)\<lparr>user_lock := True\<rparr>, outbox := outbox st' @ g a\<rparr>)"
  shows "over_users body st = ret (st\<lparr>outbox := outbox st @ concat (map g as)\<rparr>)"
proof -
  have "over_users body st = ret (fold (\<lambda>a st. st\<lparr>outbox := outbox st @ g a\<rparr>) as st)"
    using body acc.iterate_reading [of st as "\<lambda>_. True" body
      "\<lambda>a st. st\<lparr>outbox := outbox st @ g a\<rparr>"] at
    by (simp cong: conj_cong)
  then show ?thesis by (simp add: fold_outbox)
qed

lemma deliver_body_eq:
  assumes at: "users_at s as" and a: "a \<in> set as"
    and m: "carries_frame E (qmsg q) t body"
  shows "deliver_body E q a (st\<lparr>ustore := s\<lparr>user_lock := True\<rparr>\<rparr>) =
    ret (False, st\<lparr>ustore := s\<lparr>user_lock := True\<rparr>, outbox := outbox st @
      (if Some a \<noteq> sender q \<and> logged_in (user_at s a) then sent_on E (frame t body) (sock (user_at s a))
       else [])\<rparr>)"
  by (auto simp: deliver_body_def is_User_LoggedIn_def user_sock_def send_to_frame [OF m]
      read_user_at [OF at a])

lemma deliver_eq:
  assumes at: "users_at (ustore st) as" and m: "carries_frame E (qmsg q) t body"
  shows "over_users (deliver_body E q) st = ret (st\<lparr>outbox := outbox st @
    concat (map (\<lambda>a. sent_on E (frame t body) (sock (user_at (ustore st) a)))
      (recipients (ustore st) (sender q) as))\<rparr>)"
  unfolding recipients_def concat_if_filter [symmetric]
  by (rule over_users_sending [OF at]) (rule deliver_body_eq [OF at _ m])

section \<open>The agent beside the clients\<close>

text \<open>
  The interleavings of the agent's steps with what the client threads do: offering a message,
  pausing and resuming (each after the check the handler makes), and changing the users and
  sending on their own. \<open>accepted\<close> and \<open>delivered\<close> are the history: what \<^verbatim>\<open>mq_send\<close> took, and
  what the agent sent to the users.
\<close>

inductive broadcast_run ::
    "env \<Rightarrow> broadcast_state \<Rightarrow> queue_message list \<Rightarrow> queue_message list \<Rightarrow> bool" for E where
  start: "length left_over \<le> 10 \<Longrightarrow>
      broadcast_agent_init (Some left_over) True broadcast_initial = (0, st) \<Longrightarrow>
      broadcast_run E st left_over []"
| offer: "broadcast_run E st accepted delivered \<Longrightarrow>
      broadcast_message True m ignored st = (b, st') \<Longrightarrow>
      broadcast_run E st' (accepted @ (if b then [\<lparr>sender = ignored, qmsg = m\<rparr>] else [])) delivered"
| pause: "broadcast_run E st accepted delivered \<Longrightarrow> \<not> Is_broadcast_paused st \<Longrightarrow>
      pause_broadcast st = ret st' \<Longrightarrow> broadcast_run E st' accepted delivered"
| resume: "broadcast_run E st accepted delivered \<Longrightarrow> Is_broadcast_paused st \<Longrightarrow>
      broadcast_run E (resume_broadcast st) accepted delivered"
| agent: "broadcast_run E st accepted delivered \<Longrightarrow> broadcast_agent E True st = Some (ret st') \<Longrightarrow>
      broadcast_run E st' accepted
        (delivered @ (if agent_pc st = Some At_Send then [the (agent_buffer st)] else []))"
| others: "broadcast_run E st accepted delivered \<Longrightarrow>
      broadcast_run E (st\<lparr>ustore := s, outbox := out\<rparr>) accepted delivered"

definition in_hand :: "broadcast_state \<Rightarrow> queue_message list" where
  "in_hand st = (if agent_pc st = Some At_Wait \<or> agent_pc st = Some At_Send
     then [the (agent_buffer st)] else [])"

definition broadcast_inv :: "broadcast_state \<Rightarrow> queue_message list \<Rightarrow> queue_message list \<Rightarrow> bool" where
  "broadcast_inv st accepted delivered \<longleftrightarrow>
     accepted = (delivered @ in_hand st) @ broadcast_queue st
     \<and> length (broadcast_queue st) \<le> mq_maxmsg st \<and> mq_maxmsg st = 10
     \<and> agent_pc st \<noteq> None \<and> (in_hand st \<noteq> [] \<longrightarrow> agent_buffer st \<noteq> None)
     \<and> broadcast_sem st + (if agent_pc st = Some At_Send \<or> agent_pc st = Some At_Post then 1 else 0)
         + (if broadcast_Paused st then 1 else 0) = 1"

text \<open>The delivery changes nothing but the users' lock and what was sent.\<close>

lemma send_to_ret: "send_to E sk m st = ret st' \<Longrightarrow> \<exists>out. st' = st\<lparr>outbox := out\<rparr>"
  by (auto simp: send_to_def bindR_ret_iff)

lemma deliver_body_ret: "deliver_body E q a st = ret r \<Longrightarrow> \<exists>out. snd r = st\<lparr>outbox := out\<rparr>"
  by (auto simp: deliver_body_def bindR_ret_iff dest!: send_to_ret split: if_splits)
     (metis net_state.surjective net_state.update_convs(2))+

lemma over_users_frame:
  assumes "over_users (deliver_body E q) st = ret (st' :: broadcast_state)"
  shows "broadcast_queue st' = broadcast_queue st \<and> mq_maxmsg st' = mq_maxmsg st
    \<and> broadcast_sem st' = broadcast_sem st \<and> broadcast_Paused st' = broadcast_Paused st
    \<and> agent_buffer st' = agent_buffer st"
  by (rule ITERATE_OVER_USERS_keeps [OF assms]) (auto dest!: deliver_body_ret)

lemma agent_receive_step:
  assumes "broadcast_inv st accepted delivered" and "agent_pc st = Some At_Receive"
    and "mq_receive st = Some (q, st1)"
  shows "broadcast_inv (st1\<lparr>agent_buffer := Some q, agent_pc := Some At_Wait\<rparr>) accepted delivered"
proof -
  have "st1 = st\<lparr>broadcast_queue := broadcast_queue st1\<rparr>"
    using assms(3) by (auto simp: mq_receive_def split: list.splits)
  then obtain qs where st1: "st1 = st\<lparr>broadcast_queue := qs\<rparr>" by blast
  show ?thesis
    using assms(1,2) bq.take_history [OF assms(3), of accepted delivered] bq.take_bound [OF assms(3)]
    unfolding st1 by (auto simp: broadcast_inv_def in_hand_def)
qed

lemma agent_deliver_step:
  assumes "broadcast_inv st accepted delivered" and "agent_pc st = Some At_Send"
    and "agent_deliver E True st = ret st1"
  shows "broadcast_inv (st1\<lparr>agent_pc := Some At_Post\<rparr>) accepted (delivered @ [the (agent_buffer st)])"
proof -
  obtain q where q: "agent_buffer st = Some q"
    using assms(1,2) by (auto simp: broadcast_inv_def in_hand_def)
  with assms(3) have "over_users (deliver_body E q) st = ret st1" by (simp add: agent_deliver_def)
  from over_users_frame [OF this] assms(1,2) q show ?thesis
    by (auto simp: broadcast_inv_def in_hand_def)
qed

lemma agent_step_inv:
  assumes "broadcast_inv st accepted delivered" and "broadcast_agent E True st = Some (ret st')"
  shows "broadcast_inv st' accepted
    (delivered @ (if agent_pc st = Some At_Send then [the (agent_buffer st)] else []))"
proof -
  obtain pc where pc: "agent_pc st = Some pc" using assms(1) by (auto simp: broadcast_inv_def)
  show ?thesis
  proof (cases pc)
    case At_Receive
    then show ?thesis using assms pc agent_receive_step [OF assms(1)]
      by (auto simp: broadcast_agent_def split: option.splits)
  next
    case At_Wait
    then show ?thesis using assms pc
      by (auto simp: broadcast_agent_def broadcast_inv_def in_hand_def split: if_splits)
  next
    case At_Send
    then show ?thesis using assms pc agent_deliver_step [OF assms(1)]
      by (auto simp: broadcast_agent_def bindR_ret_iff)
  next
    case At_Post
    then show ?thesis using assms pc
      by (auto simp: broadcast_agent_def broadcast_inv_def in_hand_def)
  qed
qed

lemma broadcast_run_inv: "broadcast_run E st accepted delivered \<Longrightarrow> broadcast_inv st accepted delivered"
proof (induction rule: broadcast_run.induct)
  case (start left_over st)
  then show ?case
    by (auto simp: broadcast_agent_init_def broadcast_initial_def broadcast_inv_def in_hand_def)
next
  case (offer st accepted delivered m ignored b st')
  have "broadcast_message True (qmsg \<lparr>sender = ignored, qmsg = m\<rparr>) (sender \<lparr>sender = ignored, qmsg = m\<rparr>) st = (b, st')"
    using offer.hyps by simp
  note put = bq.put_history [OF this, of accepted "delivered @ in_hand st"] bq.put_bound [OF this]
  have "st' = st\<lparr>broadcast_queue := broadcast_queue st'\<rparr>"
    using offer.hyps by (auto simp: broadcast_message_def Let_def split: if_splits)
  then obtain qs where qs: "st' = st\<lparr>broadcast_queue := qs\<rparr>" by blast
  show ?case using put offer.IH unfolding qs by (auto simp: broadcast_inv_def in_hand_def)
next
  case (pause st accepted delivered st')
  then show ?case
    by (auto simp: broadcast_inv_def in_hand_def pause_broadcast_eq Is_broadcast_paused_def
        split: if_splits)
next
  case (resume st accepted delivered)
  then show ?case
    by (auto simp: broadcast_inv_def in_hand_def resume_broadcast_eq Is_broadcast_paused_def)
next
  case (agent st accepted delivered st')
  then show ?case by (blast intro: agent_step_inv)
next
  case (others st accepted delivered s out)
  then show ?case by (simp add: broadcast_inv_def in_hand_def)
qed

section \<open>The agent beside the clients, call by call\<close>

text \<open>
  The same with everything that can go wrong in it. \<^verbatim>\<open>mq_receive\<close> and \<^verbatim>\<open>mq_send\<close> may fail, and the calls of
  pausing and resuming are steps of their own: \<open>calls\<close> is what the command that runs has still to do, one
  command after another. \<open>fresh\<close> is whether the last \<^verbatim>\<open>mq_receive\<close> of the agent succeeded. In the
  history of the deliveries each one is marked with that.
\<close>

inductive agent_run ::
    "env \<Rightarrow> broadcast_state \<Rightarrow> sem_call list \<Rightarrow> bool \<Rightarrow> queue_message list \<Rightarrow> (queue_message \<times> bool) list \<Rightarrow> bool"
  for E where
  start: "length left_over \<le> 10 \<Longrightarrow>
      broadcast_agent_init (Some left_over) True broadcast_initial = (0, st) \<Longrightarrow>
      agent_run E st [] True left_over []"
| offer: "agent_run E st calls fresh accepted delivered \<Longrightarrow>
      broadcast_message mq_send_ok m ignored st = (b, st') \<Longrightarrow>
      agent_run E st' calls fresh (accepted @ (if b then [\<lparr>sender = ignored, qmsg = m\<rparr>] else [])) delivered"
| pause: "agent_run E st [] fresh accepted delivered \<Longrightarrow> \<not> Is_broadcast_paused st \<Longrightarrow>
      agent_run E st pause_calls fresh accepted delivered"
| resume: "agent_run E st [] fresh accepted delivered \<Longrightarrow> Is_broadcast_paused st \<Longrightarrow>
      agent_run E st resume_calls fresh accepted delivered"
| call: "agent_run E st (c # calls) fresh accepted delivered \<Longrightarrow> sem_call_step c st = Some st' \<Longrightarrow>
      agent_run E st' calls fresh accepted delivered"
| receive: "agent_run E st calls fresh accepted delivered \<Longrightarrow> agent_pc st = Some At_Receive \<Longrightarrow>
      broadcast_agent E ok st = Some (ret st') \<Longrightarrow> agent_run E st' calls ok accepted delivered"
| agent: "agent_run E st calls fresh accepted delivered \<Longrightarrow> agent_pc st \<noteq> Some At_Receive \<Longrightarrow>
      broadcast_agent E fresh st = Some (ret st') \<Longrightarrow>
      agent_run E st' calls fresh accepted
        (delivered @ (if agent_pc st = Some At_Send then [(the (agent_buffer st), fresh)] else []))"
| others: "agent_run E st calls fresh accepted delivered \<Longrightarrow>
      agent_run E (st\<lparr>ustore := s, outbox := out\<rparr>) calls fresh accepted delivered"

definition first_time :: "(queue_message \<times> bool) list \<Rightarrow> queue_message list" where
  "first_time delivered = map fst (filter snd delivered)"

lemma first_time_simps [simp]:
  "first_time [] = []" "first_time (ds @ es) = first_time ds @ first_time es"
  "first_time [(q, b)] = (if b then [q] else [])"
  by (simp_all add: first_time_def)

text \<open>The history: what the agent holds and has not delivered, and that repetitions follow at once.\<close>

definition holds :: "broadcast_state \<Rightarrow> bool \<Rightarrow> queue_message list" where
  "holds st fresh = (if fresh then in_hand st else [])"

definition repeats_follow :: "(queue_message \<times> bool) list \<Rightarrow> bool" where
  "repeats_follow ds \<longleftrightarrow> (\<forall>i < length ds. \<not> snd (ds ! i) \<longrightarrow> 0 < i \<and> fst (ds ! i) = fst (ds ! (i - 1)))"

lemma repeats_follow_snoc:
  "repeats_follow (ds @ [d]) \<longleftrightarrow> repeats_follow ds \<and> (\<not> snd d \<longrightarrow> ds \<noteq> [] \<and> fst d = fst (last ds))"
  by (auto simp: repeats_follow_def nth_append less_Suc_eq last_conv_nth)

definition last_message :: "(queue_message \<times> bool) list \<Rightarrow> queue_message option" where
  "last_message ds = (if ds = [] then None else Some (fst (last ds)))"

definition history_ok :: "broadcast_state \<Rightarrow> bool \<Rightarrow> queue_message list \<Rightarrow> (queue_message \<times> bool) list \<Rightarrow> bool" where
  "history_ok st fresh accepted delivered \<longleftrightarrow>
     accepted = first_time delivered @ holds st fresh @ broadcast_queue st
     \<and> length (broadcast_queue st) \<le> mq_maxmsg st \<and> mq_maxmsg st = 10
     \<and> (if holds st fresh = [] then agent_buffer st = last_message delivered else agent_buffer st \<noteq> None)
     \<and> repeats_follow delivered"

text \<open>The semaphore: it is free, or the agent has it for a delivery, or a command has it for the pause.\<close>

definition agent_inside :: "broadcast_state \<Rightarrow> bool" where
  "agent_inside st \<longleftrightarrow> agent_pc st = Some At_Send \<or> agent_pc st = Some At_Post"

definition command_inside :: "bool \<Rightarrow> sem_call list \<Rightarrow> bool" where
  "command_inside p calls \<longleftrightarrow> calls = [Set_paused True] \<or> p \<and> calls \<noteq> [Set_paused False]"

definition calls_fit :: "bool \<Rightarrow> sem_call list \<Rightarrow> bool" where
  "calls_fit p calls \<longleftrightarrow> calls = [] \<or> calls \<in> (if p then {resume_calls, [Set_paused False]} else {pause_calls, [Set_paused True]})"

definition turns_ok :: "broadcast_state \<Rightarrow> sem_call list \<Rightarrow> bool" where
  "turns_ok st calls \<longleftrightarrow> agent_pc st \<noteq> None \<and> calls_fit (broadcast_Paused st) calls
     \<and> broadcast_sem st + of_bool (agent_inside st) + of_bool (command_inside (broadcast_Paused st) calls) = 1"

lemma turns_ok_cong:
  "agent_pc st' = agent_pc st \<Longrightarrow> broadcast_Paused st' = broadcast_Paused st \<Longrightarrow> broadcast_sem st' = broadcast_sem st \<Longrightarrow>
   turns_ok st' calls = turns_ok st calls"
  by (simp add: turns_ok_def agent_inside_def)

lemma history_ok_cong:
  "agent_pc st' = agent_pc st \<Longrightarrow> broadcast_queue st' = broadcast_queue st \<Longrightarrow> mq_maxmsg st' = mq_maxmsg st \<Longrightarrow>
   agent_buffer st' = agent_buffer st \<Longrightarrow> history_ok st' fresh accepted delivered = history_ok st fresh accepted delivered"
  by (simp add: history_ok_def holds_def in_hand_def)

lemma sem_call_step_frame:
  "sem_call_step c st = Some st' \<Longrightarrow> agent_pc st' = agent_pc st \<and> broadcast_queue st' = broadcast_queue st
     \<and> mq_maxmsg st' = mq_maxmsg st \<and> agent_buffer st' = agent_buffer st"
  by (cases c) (auto split: if_splits)

lemma turns_call:
  assumes "turns_ok st (c # calls)" and "sem_call_step c st = Some st'"
  shows "turns_ok st' calls"
proof -
  have "(c, calls) \<in> {(Sem_wait, [Set_paused True]), (Set_paused True, []), (Sem_post, [Set_paused False]), (Set_paused False, [])}"
    using assms(1) by (auto simp: turns_ok_def calls_fit_def pause_calls_def resume_calls_def split: if_splits)
  then show ?thesis
    using assms
    by (elim insertE)
       (auto simp: turns_ok_def calls_fit_def command_inside_def agent_inside_def pause_calls_def resume_calls_def
          split: if_splits)
qed

lemma turns_begin:
  "turns_ok st [] \<Longrightarrow> \<not> broadcast_Paused st \<Longrightarrow> turns_ok st pause_calls"
  "turns_ok st [] \<Longrightarrow> broadcast_Paused st \<Longrightarrow> turns_ok st resume_calls"
  by (simp_all add: turns_ok_def calls_fit_def command_inside_def pause_calls_def resume_calls_def)

lemma history_offer:
  assumes "history_ok st fresh accepted delivered" and "broadcast_message ok m ignored st = (b, st')"
  shows "history_ok st' fresh (accepted @ (if b then [\<lparr>sender = ignored, qmsg = m\<rparr>] else [])) delivered"
proof (cases b)
  case True
  then have "st' = st\<lparr>broadcast_queue := broadcast_queue st @ [\<lparr>sender = ignored, qmsg = m\<rparr>]\<rparr>"
    and "length (broadcast_queue st) < mq_maxmsg st"
    using assms(2) by (auto simp: broadcast_message_def Let_def split: if_splits)
  then show ?thesis using assms(1) True by (auto simp: history_ok_def holds_def in_hand_def split: if_splits)
next
  case False
  then show ?thesis using assms by (auto simp: broadcast_message_def Let_def split: if_splits)
qed

lemma receive_ret:
  assumes "agent_pc st = Some At_Receive" and "broadcast_agent E ok st = Some (ret st')"
  shows "if ok then \<exists>q qs. broadcast_queue st = q # qs
      \<and> st' = st\<lparr>broadcast_queue := qs, agent_buffer := Some q, agent_pc := Some At_Wait\<rparr>
    else st' = st\<lparr>agent_pc := Some At_Wait\<rparr>"
  using assms by (cases "broadcast_queue st") (auto simp: broadcast_agent_def mq_receive_def split: if_splits)

lemma receive_inv:
  assumes "history_ok st fresh accepted delivered" and "turns_ok st calls"
    and "agent_pc st = Some At_Receive" and "broadcast_agent E ok st = Some (ret st')"
  shows "history_ok st' ok accepted delivered \<and> turns_ok st' calls"
proof (cases ok)
  case True
  then obtain q qs where "broadcast_queue st = q # qs"
    "st' = st\<lparr>broadcast_queue := qs, agent_buffer := Some q, agent_pc := Some At_Wait\<rparr>"
    using receive_ret [OF assms(3,4)] by auto
  then show ?thesis
    using assms(1-3) True by (simp add: history_ok_def holds_def in_hand_def turns_ok_def agent_inside_def)
next
  case False
  then have "st' = st\<lparr>agent_pc := Some At_Wait\<rparr>" using receive_ret [OF assms(3,4)] by simp
  then show ?thesis
    using assms(1-3) False by (simp add: history_ok_def holds_def in_hand_def turns_ok_def agent_inside_def)
qed

lemma send_frame:
  fixes st st' :: broadcast_state
  assumes "agent_pc st = Some At_Send" and "broadcast_agent E ok st = Some (ret st')"
  shows "agent_buffer st \<noteq> None \<and> agent_pc st' = Some At_Post \<and> broadcast_queue st' = broadcast_queue st
    \<and> mq_maxmsg st' = mq_maxmsg st \<and> broadcast_sem st' = broadcast_sem st \<and> broadcast_Paused st' = broadcast_Paused st
    \<and> agent_buffer st' = agent_buffer st"
proof -
  obtain st1 where st1: "agent_deliver E ok st = ret st1" "st' = st1\<lparr>agent_pc := Some At_Post\<rparr>"
    using assms by (auto simp: broadcast_agent_def bindR_ret_iff)
  let ?s = "if ok then st else st\<lparr>running := False\<rparr>"
  obtain q where q: "agent_buffer ?s = Some q" "over_users (deliver_body E q) ?s = ret st1"
    using st1(1) by (cases "agent_buffer ?s") (simp_all add: agent_deliver_def Let_def split del: if_split)
  have "agent_buffer ?s = agent_buffer st" "broadcast_queue ?s = broadcast_queue st" "mq_maxmsg ?s = mq_maxmsg st"
    "broadcast_sem ?s = broadcast_sem st" "broadcast_Paused ?s = broadcast_Paused st" by simp_all
  with over_users_frame [OF q(2)] q(1) st1(2) show ?thesis by (simp split del: if_split)
qed

lemma send_inv:
  assumes h: "history_ok st fresh accepted delivered" and t: "turns_ok st calls"
    and pc: "agent_pc st = Some At_Send" and step: "broadcast_agent E fresh st = Some (ret st')"
  shows "history_ok st' fresh accepted (delivered @ [(the (agent_buffer st), fresh)]) \<and> turns_ok st' calls"
proof
  note f = send_frame [OF pc step]
  then obtain q where q: "agent_buffer st = Some q" by blast
  show "turns_ok st' calls" using t f pc by (simp add: turns_ok_def agent_inside_def)
  show "history_ok st' fresh accepted (delivered @ [(the (agent_buffer st), fresh)])"
  proof (cases fresh)
    case True
    then show ?thesis
      using h f pc q by (simp add: history_ok_def holds_def in_hand_def repeats_follow_snoc last_message_def)
  next
    case False
    then show ?thesis
      using h f pc q by (simp add: history_ok_def holds_def in_hand_def repeats_follow_snoc last_message_def split: if_splits)
  qed
qed

lemma wait_or_post_inv:
  assumes h: "history_ok st fresh accepted delivered" and t: "turns_ok st calls"
    and pc: "agent_pc st \<noteq> Some At_Receive" "agent_pc st \<noteq> Some At_Send" and step: "broadcast_agent E ok st = Some (ret st')"
  shows "history_ok st' fresh accepted delivered \<and> turns_ok st' calls"
proof -
  consider "agent_pc st = Some At_Wait" | "agent_pc st = Some At_Post"
    using pc step by (cases "agent_pc st") (auto simp: broadcast_agent_def intro: agent_position.exhaust)
  then show ?thesis
  proof cases
    case 1
    then have "0 < broadcast_sem st" "st' = st\<lparr>broadcast_sem := broadcast_sem st - 1, agent_pc := Some At_Send\<rparr>"
      using step by (auto simp: broadcast_agent_def split: if_splits)
    then have "history_ok st' fresh accepted delivered"
      using h 1 by (auto simp: history_ok_def holds_def in_hand_def split: if_splits)
    moreover have "turns_ok st' calls"
      using t 1 \<open>0 < broadcast_sem st\<close> \<open>st' = _\<close>
      by (cases "command_inside (broadcast_Paused st) calls") (simp_all add: turns_ok_def agent_inside_def)
    ultimately show ?thesis ..
  next
    case 2
    then have "st' = st\<lparr>broadcast_sem := broadcast_sem st + 1, agent_pc := Some At_Receive\<rparr>"
      using step by (auto simp: broadcast_agent_def)
    then have "history_ok st' fresh accepted delivered"
      using h 2 by (auto simp: history_ok_def holds_def in_hand_def split: if_splits)
    moreover have "turns_ok st' calls"
      using t 2 \<open>st' = _\<close> by (simp add: turns_ok_def agent_inside_def)
    ultimately show ?thesis ..
  qed
qed

lemma agent_run_inv:
  "agent_run E st calls fresh accepted delivered \<Longrightarrow> history_ok st fresh accepted delivered \<and> turns_ok st calls"
proof (induction rule: agent_run.induct)
  case (start left_over st)
  have st: "st = broadcast_initial\<lparr>mq_maxmsg := 10, broadcast_queue := left_over, agent_pc := Some At_Receive, broadcast_sem := 1\<rparr>"
    using start.hyps(2) by (simp add: broadcast_agent_init_def Let_def)
  have "history_ok st True left_over []"
    using start.hyps(1) by (simp add: st broadcast_initial_def history_ok_def holds_def in_hand_def repeats_follow_def
        last_message_def)
  moreover have "turns_ok st []"
    by (simp add: st broadcast_initial_def turns_ok_def agent_inside_def command_inside_def calls_fit_def)
  ultimately show ?case ..
next
  case (offer st calls fresh accepted delivered mq_send_ok m ignored b st')
  have "agent_pc st' = agent_pc st" "broadcast_Paused st' = broadcast_Paused st" "broadcast_sem st' = broadcast_sem st"
    using offer.hyps(2) by (auto simp: broadcast_message_def Let_def split: if_splits)
  with offer history_offer [OF _ offer.hyps(2), of fresh accepted delivered] show ?case by (simp add: turns_ok_cong [of st' st])
next
  case (pause st fresh accepted delivered)
  then show ?case by (simp add: turns_begin Is_broadcast_paused_def)
next
  case (resume st fresh accepted delivered)
  then show ?case by (simp add: turns_begin Is_broadcast_paused_def)
next
  case (call st c calls fresh accepted delivered st')
  from sem_call_step_frame [OF call.hyps(2)] call show ?case
    using turns_call [OF _ call.hyps(2)] by (simp add: history_ok_cong [of st' st])
next
  case (receive st calls fresh accepted delivered ok st')
  then show ?case using receive_inv by blast
next
  case (agent st calls fresh accepted delivered st')
  show ?case
  proof (cases "agent_pc st = Some At_Send")
    case True
    with agent send_inv [of st fresh accepted delivered calls E st'] show ?thesis by simp
  next
    case False
    with agent wait_or_post_inv [of st fresh accepted delivered calls E fresh st'] show ?thesis by simp
  qed
next
  case (others st calls fresh accepted delivered)
  have "history_ok (st\<lparr>ustore := s, outbox := out\<rparr>) fresh accepted delivered = history_ok st fresh accepted delivered"
    "turns_ok (st\<lparr>ustore := s, outbox := out\<rparr>) calls = turns_ok st calls" for s out
    by (rule history_ok_cong turns_ok_cong; simp)+
  with others show ?case by simp
qed

text \<open>The runs of whole commands without failures are such runs.\<close>

lemma broadcast_run_is_agent_run:
  "broadcast_run E st accepted delivered \<Longrightarrow> agent_run E st [] True accepted (map (\<lambda>q. (q, True)) delivered)"
proof (induction rule: broadcast_run.induct)
  case (pause st accepted delivered st')
  then have "agent_run E st pause_calls True accepted (map (\<lambda>q. (q, True)) delivered)" by (blast intro: agent_run.pause)
  moreover obtain st1 where "sem_call_step Sem_wait st = Some st1" "sem_call_step (Set_paused True) st1 = Some st'"
    using pause.hyps by (auto simp: pause_broadcast_eq split: if_splits)
  ultimately show ?case unfolding pause_calls_def by (blast intro: agent_run.call)
next
  case (resume st accepted delivered)
  then have "agent_run E st resume_calls True accepted (map (\<lambda>q. (q, True)) delivered)" by (blast intro: agent_run.resume)
  moreover obtain st1 where "sem_call_step Sem_post st = Some st1"
    "sem_call_step (Set_paused False) st1 = Some (resume_broadcast st)"
    by (simp add: resume_broadcast_eq)
  ultimately show ?case unfolding resume_calls_def by (blast intro: agent_run.call)
next
  case (agent st accepted delivered st')
  then show ?case
    using agent_run.receive [OF agent.IH _ agent.hyps(2)] agent_run.agent [OF agent.IH _ agent.hyps(2)]
    by (cases "agent_pc st = Some At_Receive") auto
next
  case (offer st accepted delivered m ignored b st')
  then show ?case using agent_run.offer by blast
next
  case (others st accepted delivered s out)
  then show ?case using agent_run.others by blast
next
  case (start left_over st)
  then show ?case using agent_run.start by simp
qed

section \<open>Properties\<close>

text \<open>C12: The agent delivers the accepted messages in the order they were accepted, and none is lost: in
  every interleaving of its calls with messages offered by the clients and with pausing and resuming,
  call by call and one command after another, what it has delivered, without its repetitions, is a prefix
  of what was accepted, and at most eleven messages, ten in the queue and one the agent holds, are still
  to come. A message is delivered again only when an \<^verbatim>\<open>mq_receive\<close> fails, directly after its delivery;
  as long as none fails each one is delivered once.\<close>

theorem broadcasts_are_fifo:
  assumes "agent_run E st calls fresh accepted delivered"
  shows "\<exists>hand. accepted = map fst (filter snd delivered) @ hand @ broadcast_queue st
    \<and> length hand \<le> 1 \<and> length (broadcast_queue st) \<le> 10
    \<and> (\<forall>i < length delivered. \<not> snd (delivered ! i) \<longrightarrow> 0 < i \<and> fst (delivered ! i) = fst (delivered ! (i - 1)))"
  using agent_run_inv [OF assms]
  by (intro exI [of _ "holds st fresh"])
     (simp add: history_ok_def first_time_def repeats_follow_def holds_def in_hand_def)

theorem broadcasts_are_fifo_witness:
  "\<exists>st. agent_run example_env st [] True [\<lparr>sender = None, qmsg = msg_zero\<rparr>] []
    \<and> broadcast_queue st = [\<lparr>sender = None, qmsg = msg_zero\<rparr>]"
proof -
  let ?q = "\<lparr>sender = None, qmsg = msg_zero\<rparr>"
  let ?i = "snd (broadcast_agent_init (Some []) True broadcast_initial)"
  let ?s = "snd (broadcast_message True msg_zero None ?i)"
  have 1: "agent_run example_env ?i [] True [] []"
    by (rule agent_run.start) (simp_all add: broadcast_agent_init_def)
  have m: "broadcast_message True msg_zero None ?i = (True, ?s)" and q: "broadcast_queue ?s = [?q]"
    by (simp_all add: broadcast_message_def broadcast_agent_init_def)
  from agent_run.offer [OF 1 m] have 2: "agent_run example_env ?s [] True [?q] []" by simp
  from broadcasts_are_fifo [OF this] q 2 show ?thesis by blast
qed

text \<open>C20: Pausing works: in every interleaving of the calls of the agent with those of the commands, one
  command after another, from the moment a pause has set its flag until the \<^verbatim>\<open>sem_post\<close> of the resume
  that ends it, the agent is not in its delivery, and its next step, if it can take one, only receives a
  message. Between the \<^verbatim>\<open>sem_post\<close> and the clearing of the flag it may deliver, while the chat still
  counts as paused.\<close>

theorem paused_means_no_delivery:
  assumes "agent_run E st calls fresh accepted delivered" and "Is_broadcast_paused st"
    and "calls \<noteq> [Set_paused False]"
  shows "agent_pc st \<noteq> Some At_Send \<and> agent_pc st \<noteq> Some At_Post
    \<and> (\<forall>ok st'. broadcast_agent E ok st = Some (ret st') \<longrightarrow> agent_pc st' = Some At_Wait \<and> outbox st' = outbox st)"
proof -
  have "turns_ok st calls" using agent_run_inv [OF assms(1)] by blast
  then have out: "\<not> agent_inside st" and sem: "broadcast_sem st = 0"
    using assms(2,3) by (simp_all add: turns_ok_def command_inside_def Is_broadcast_paused_def)
  have "agent_pc st' = Some At_Wait \<and> outbox st' = outbox st" if "broadcast_agent E ok st = Some (ret st')" for ok st'
  proof (cases "agent_pc st = Some At_Receive")
    case True
    from receive_ret [OF this that] show ?thesis by (auto split: if_splits)
  next
    case False
    with that out sem show ?thesis
      by (auto simp: broadcast_agent_def agent_inside_def split: option.splits agent_position.splits)
  qed
  with out show ?thesis by (simp add: agent_inside_def)
qed

lemma example_paused_run:
  "\<exists>st. agent_run example_env st [] True [] [] \<and> Is_broadcast_paused st \<and> broadcast_sem st = 0
    \<and> agent_pc st = Some At_Receive"
proof -
  let ?i = "snd (broadcast_agent_init (Some []) True broadcast_initial)"
  let ?s = "?i\<lparr>broadcast_sem := 0\<rparr>"
  have "agent_run example_env ?i [] True [] []"
    by (rule agent_run.start) (simp_all add: broadcast_agent_init_def)
  then have "agent_run example_env ?i [Sem_wait, Set_paused True] True [] []"
    using agent_run.pause [of example_env ?i True "[]" "[]"]
    by (simp add: pause_calls_def Is_broadcast_paused_def broadcast_agent_init_def broadcast_initial_def)
  then have "agent_run example_env ?s [Set_paused True] True [] []"
    by (rule agent_run.call) (simp add: broadcast_agent_init_def broadcast_initial_def)
  then have "agent_run example_env (?s\<lparr>broadcast_Paused := True\<rparr>) [] True [] []"
    by (rule agent_run.call) simp
  then show ?thesis
    by (intro exI [of _ "?s\<lparr>broadcast_Paused := True\<rparr>"])
       (simp add: Is_broadcast_paused_def broadcast_agent_init_def broadcast_initial_def)
qed

theorem paused_means_no_delivery_witness:
  "\<exists>st. agent_run example_env st [] True [] [] \<and> Is_broadcast_paused st \<and> agent_pc st \<noteq> Some At_Send"
proof -
  obtain st where st: "agent_run example_env st [] True [] []" "Is_broadcast_paused st"
    using example_paused_run by blast
  from paused_means_no_delivery [OF this] st show ?thesis by blast
qed

text \<open>In the gap of a resume the agent can get into its delivery.\<close>

lemma delivery_while_the_flag_is_set:
  "\<exists>st fresh accepted. agent_run example_env st [Set_paused False] fresh accepted []
    \<and> Is_broadcast_paused st \<and> agent_pc st = Some At_Send"
proof -
  obtain st where st: "agent_run example_env st [] True [] []" "Is_broadcast_paused st" "broadcast_sem st = 0"
    "agent_pc st = Some At_Receive" using example_paused_run by blast
  let ?q = "\<lparr>sender = None, qmsg = msg_zero\<rparr>"
  from agent_run_inv [OF st(1)] have e: "broadcast_queue st = []" "mq_maxmsg st = 10"
    by (simp_all add: history_ok_def)
  have "agent_run example_env (st\<lparr>broadcast_queue := [?q]\<rparr>) [] True [?q] []"
    using agent_run.offer [OF st(1), of True msg_zero None True] e by (simp add: broadcast_message_def)
  then have "agent_run example_env (st\<lparr>broadcast_queue := [], agent_buffer := Some ?q, agent_pc := Some At_Wait\<rparr>) [] True [?q] []"
    by (rule agent_run.receive [where ok = True]) (simp_all add: st(4) broadcast_agent_def mq_receive_def)
  from agent_run.resume [OF this] st(2)
  have "agent_run example_env (st\<lparr>broadcast_queue := [], agent_buffer := Some ?q, agent_pc := Some At_Wait\<rparr>)
      [Sem_post, Set_paused False] True [?q] []" by (simp add: resume_calls_def Is_broadcast_paused_def)
  then have "agent_run example_env (st\<lparr>broadcast_queue := [], agent_buffer := Some ?q, agent_pc := Some At_Wait,
      broadcast_sem := 1\<rparr>) [Set_paused False] True [?q] []"
    by (rule agent_run.call) (simp add: st(3))
  from agent_run.agent [OF this, of "st\<lparr>broadcast_queue := [], agent_buffer := Some ?q, agent_pc := Some At_Send,
      broadcast_sem := 0\<rparr>"]
  have "agent_run example_env (st\<lparr>broadcast_queue := [], agent_buffer := Some ?q, agent_pc := Some At_Send,
      broadcast_sem := 0\<rparr>) [Set_paused False] True [?q] []" by (simp add: broadcast_agent_def)
  then show ?thesis using st(2) by (fastforce simp: Is_broadcast_paused_def)
qed

text \<open>Several steps of the agent on its own; \<open>None\<close> when one of them has to wait.\<close>

fun agent_steps :: "env \<Rightarrow> nat \<Rightarrow> broadcast_state \<Rightarrow> broadcast_state res option" where
  "agent_steps E 0 st = Some (ret st)"
| "agent_steps E (Suc n) st =
     (case broadcast_agent E True st of
        None \<Rightarrow> None
      | Some r \<Rightarrow> (case r of Some (Inr st) \<Rightarrow> agent_steps E n st | _ \<Rightarrow> Some r))"

definition broadcast_output :: "env \<Rightarrow> user_store \<Rightarrow> nat list \<Rightarrow> nat option \<Rightarrow> byte list
    \<Rightarrow> (u16 \<times> byte list) list" where
  "broadcast_output E s as ignored bs =
     concat (map (\<lambda>a. sent_on E bs (sock (user_at s a))) (recipients s ignored as))"

definition delivers_next :: "env \<Rightarrow> nat \<Rightarrow> broadcast_state \<Rightarrow> queue_message list \<Rightarrow> queue_message list
    \<Rightarrow> queue_message \<Rightarrow> (u16 \<times> byte list) list \<Rightarrow> bool" where
  "delivers_next E n st accepted delivered q out \<longleftrightarrow> (\<exists>st'. agent_steps E n st = Some (ret st')
     \<and> broadcast_run E st' accepted (delivered @ [q]) \<and> outbox st' = outbox st @ out)"

lemma delivers_next_step:
  assumes "broadcast_run E st accepted delivered" and "agent_pc st \<noteq> Some At_Send"
    and "broadcast_agent E True st = Some (ret st1)" and "outbox st1 = outbox st"
    and "broadcast_run E st1 accepted delivered \<Longrightarrow> delivers_next E n st1 accepted delivered q out"
  shows "delivers_next E (Suc n) st accepted delivered q out"
proof -
  from broadcast_run.agent [OF assms(1,3)] assms(2) have "broadcast_run E st1 accepted delivered"
    by simp
  from assms(5) [OF this] show ?thesis using assms(3,4) by (simp add: delivers_next_def)
qed

lemma delivers_from_send:
  assumes run: "broadcast_run E st accepted delivered" and pc: "agent_pc st = Some At_Send"
    and "accepted = delivered @ q # rest" and at: "users_at (ustore st) as"
    and m: "carries_frame E (qmsg q) t body"
  shows "delivers_next E 1 st accepted delivered q
    (broadcast_output E (ustore st) as (sender q) (frame t body))"
proof -
  from broadcast_run_inv [OF run] pc assms(3) have b: "agent_buffer st = Some q"
    by (auto simp: broadcast_inv_def in_hand_def)
  let ?st = "st\<lparr>outbox := outbox st @ broadcast_output E (ustore st) as (sender q) (frame t body),
    agent_pc := Some At_Post\<rparr>"
  have step: "broadcast_agent E True st = Some (ret ?st)"
    using pc by (simp add: broadcast_agent_def agent_deliver_def b deliver_eq [OF at m]
        broadcast_output_def)
  from broadcast_run.agent [OF run this] pc b show ?thesis
    by (simp add: delivers_next_def step)
qed

lemma delivers_from_wait:
  assumes run: "broadcast_run E st accepted delivered" and pc: "agent_pc st = Some At_Wait"
    and "accepted = delivered @ q # rest" and at: "users_at (ustore st) as"
    and m: "carries_frame E (qmsg q) t body" and "\<not> Is_broadcast_paused st"
  shows "delivers_next E 2 st accepted delivered q
    (broadcast_output E (ustore st) as (sender q) (frame t body))"
proof -
  from broadcast_run_inv [OF run] pc assms(6) have "broadcast_sem st \<noteq> 0"
    by (auto simp: broadcast_inv_def Is_broadcast_paused_def)
  then have "broadcast_agent E True st =
      Some (ret (st\<lparr>broadcast_sem := broadcast_sem st - 1, agent_pc := Some At_Send\<rparr>))"
    using pc by (simp add: broadcast_agent_def)
  from delivers_next_step [OF run _ this, of 1 q] pc assms(3) at m delivers_from_send
  show ?thesis by (fastforce simp: numeral_2_eq_2)
qed

lemma delivers_from_receive:
  assumes run: "broadcast_run E st accepted delivered" and pc: "agent_pc st = Some At_Receive"
    and "accepted = delivered @ q # rest" and at: "users_at (ustore st) as"
    and m: "carries_frame E (qmsg q) t body" and np: "\<not> Is_broadcast_paused st"
  shows "delivers_next E 3 st accepted delivered q
    (broadcast_output E (ustore st) as (sender q) (frame t body))"
proof -
  from broadcast_run_inv [OF run] pc assms(3) have "broadcast_queue st = q # rest"
    by (auto simp: broadcast_inv_def in_hand_def)
  then have step: "broadcast_agent E True st = Some (ret (st\<lparr>broadcast_queue := rest,
      agent_buffer := Some q, agent_pc := Some At_Wait\<rparr>))" (is "_ = Some (ret ?st)")
    using pc by (simp add: broadcast_agent_def mq_receive_def)
  have "delivers_next E 2 ?st accepted delivered q
      (broadcast_output E (ustore ?st) as (sender q) (frame t body))"
    if "broadcast_run E ?st accepted delivered"
    using delivers_from_wait [OF that _ assms(3) _ m, of as] at np
    by (simp add: Is_broadcast_paused_def)
  with delivers_next_step [OF run _ step, of 2 q] pc show ?thesis
    by (simp add: numeral_3_eq_3 numeral_2_eq_2)
qed

lemma delivers_from_post:
  assumes run: "broadcast_run E st accepted delivered" and pc: "agent_pc st = Some At_Post"
    and "accepted = delivered @ q # rest" and at: "users_at (ustore st) as"
    and m: "carries_frame E (qmsg q) t body" and np: "\<not> Is_broadcast_paused st"
  shows "delivers_next E 4 st accepted delivered q
    (broadcast_output E (ustore st) as (sender q) (frame t body))"
proof -
  have step: "broadcast_agent E True st = Some (ret (st\<lparr>broadcast_sem := broadcast_sem st + 1,
      agent_pc := Some At_Receive\<rparr>))" (is "_ = Some (ret ?st)")
    using pc by (simp add: broadcast_agent_def)
  have "delivers_next E 3 ?st accepted delivered q
      (broadcast_output E (ustore ?st) as (sender q) (frame t body))"
    if "broadcast_run E ?st accepted delivered"
    using delivers_from_receive [OF that _ assms(3) _ m, of as] at np
    by (simp add: Is_broadcast_paused_def)
  with delivers_next_step [OF run _ step, of 3 q] pc show ?thesis
    by (simp add: eval_nat_numeral)
qed


text \<open>A frame to show runs with: the notice that \<open>AB\<close> has joined, without a time.\<close>

definition example_notice :: "byte list" where
  "example_notice = patch (patch msg_zero 0 [4, 0, 10]) 11 [65, 66]"

lemma example_notice_frame:
  "carries_frame example_env example_notice MT_UserAdd (replicate 8 0 @ [65, 66])"
proof (rule carries_frameI)
  show "length example_notice = 555" by code_simp
  show "length (replicate 8 0 @ [65, 66] :: byte list) \<le> 552" by simp
  show "example_notice ! 0 = mt_code MT_UserAdd" by code_simp
  show "bslice example_notice 1 2 =
      net_image (of_nat (length (replicate 8 0 @ [65, 66] :: byte list)) :: u16)" by code_simp
  show "bslice example_notice 3 (length (replicate 8 0 @ [65, 66] :: byte list)) =
      replicate 8 0 @ [65, 66]" by code_simp
  show "loggable example_notice" by code_simp
qed

definition example_waiting :: broadcast_state where
  "example_waiting = broadcast_initial\<lparr>ustore := example_users, broadcast_queue :=
     [\<lparr>sender = None, qmsg = example_notice\<rparr>], mq_maxmsg := 10, broadcast_sem := 1,
     agent_pc := Some At_Receive\<rparr>"

lemma example_waiting_run:
  "broadcast_run example_env example_waiting [\<lparr>sender = None, qmsg = example_notice\<rparr>] []"
proof -
  let ?i = "snd (broadcast_agent_init (Some []) True broadcast_initial)"
  have 1: "broadcast_run example_env (?i\<lparr>ustore := example_users, outbox := []\<rparr>) [] []"
    by (rule broadcast_run.others, rule broadcast_run.start) (simp_all add: broadcast_agent_init_def)
  have "broadcast_message True example_notice None (?i\<lparr>ustore := example_users, outbox := []\<rparr>) =
      (True, example_waiting)"
    by (simp add: broadcast_message_def broadcast_agent_init_def broadcast_initial_def
        example_waiting_def)
  from broadcast_run.offer [OF 1 this] show ?thesis by simp
qed


text \<open>A failing \<^verbatim>\<open>mq_receive\<close> does not stop the agent: it goes on with what its buffer holds, so the
  users get the last message again, and before any message was received it sends an uninitialised
  buffer.\<close>

theorem receive_failure_sends_again:
  assumes "agent_pc st = Some At_Receive" and "broadcast_sem st \<noteq> 0"
    and "users_at (ustore st) as"
    and "agent_buffer st = None \<or> (\<exists>q. agent_buffer st = Some q \<and> carries_frame E (qmsg q) t body)"
  shows "\<exists>st1 st2. broadcast_agent E False st = Some (ret st1)
    \<and> broadcast_agent E False st1 = Some (ret st2)
    \<and> (case agent_buffer st of
         None \<Rightarrow> broadcast_agent E False st2 = Some (fail Uninit_Read)
       | Some q \<Rightarrow> \<exists>st3. broadcast_agent E False st2 = Some (ret st3)
           \<and> broadcast_queue st3 = broadcast_queue st \<and> outbox st3 = outbox st
               @ broadcast_output E (ustore st) as (sender q) (frame t body))"
proof -
  let ?s1 = "st\<lparr>agent_pc := Some At_Wait\<rparr>"
  let ?s2 = "?s1\<lparr>broadcast_sem := broadcast_sem st - 1, agent_pc := Some At_Send\<rparr>"
  have "broadcast_agent E False st = Some (ret ?s1)" using assms(1) by (simp add: broadcast_agent_def)
  moreover have "broadcast_agent E False ?s1 = Some (ret ?s2)"
    using assms(2) by (simp add: broadcast_agent_def)
  moreover have "case agent_buffer st of
         None \<Rightarrow> broadcast_agent E False ?s2 = Some (fail Uninit_Read)
       | Some q \<Rightarrow> \<exists>st3. broadcast_agent E False ?s2 = Some (ret st3)
           \<and> broadcast_queue st3 = broadcast_queue st \<and> outbox st3 = outbox st
               @ broadcast_output E (ustore st) as (sender q) (frame t body)"
  proof (cases "agent_buffer st")
    case None
    then show ?thesis by (simp add: broadcast_agent_def agent_deliver_def)
  next
    case (Some q)
    then have m: "carries_frame E (qmsg q) t body" using assms(4) by auto
    have at: "users_at (ustore (?s2\<lparr>running := False\<rparr>)) as" using assms(3) by simp
    show ?thesis
      using Some deliver_eq [OF at m]
      by (simp add: broadcast_agent_def agent_deliver_def broadcast_output_def)
  qed
  ultimately show ?thesis by blast
qed

theorem receive_failure_sends_again_witness:
  "\<exists>st1 st2 st3. broadcast_agent example_env False
       (example_waiting\<lparr>agent_buffer := Some \<lparr>sender = None, qmsg = example_notice\<rparr>\<rparr>) = Some (ret st1)
    \<and> broadcast_agent example_env False st1 = Some (ret st2)
    \<and> broadcast_agent example_env False st2 = Some (ret st3)
    \<and> outbox st3 = [(4, [4, 0, 10, 0, 0, 0, 0, 0, 0, 0, 0, 65, 66])]"
proof -
  let ?q = "\<lparr>sender = None, qmsg = example_notice\<rparr>"
  have "broadcast_output example_env example_users [0, 1] None (frame MT_UserAdd (replicate 8 0 @ [65, 66]))
      = [(4, [4, 0, 10, 0, 0, 0, 0, 0, 0, 0, 0, 65, 66])]" by code_simp
  moreover have "carries_frame example_env (qmsg ?q) MT_UserAdd (replicate 8 0 @ [65, 66])"
    using example_notice_frame by simp
  ultimately show ?thesis
    using receive_failure_sends_again [of "example_waiting\<lparr>agent_buffer := Some ?q\<rparr>" "[0, 1]"
        example_env MT_UserAdd "replicate 8 0 @ [65, 66]"]
    by (simp add: example_waiting_def broadcast_initial_def example_users_at del: One_nat_def) blast
qed

end
