(* ===== verification/Logger.thy ===== *)
theory Logger
  imports DLL CLib "HOL-Library.Char_ord"
begin

text \<open>
  \<^verbatim>\<open>src/src/core/logger.c\<close> and \<^verbatim>\<open>logger.h\<close>: the levels, the expansion of a log format, the
  buffer of messages and when it is written out, the log files and the list of thread names, and
  the settings. Files are a map from names to contents; what the clock and the file system return
  is an environment argument. Standard output is the bytes printed so far; \<^verbatim>\<open>perror\<close> and the
  messages on standard error are left out.
\<close>

section \<open>Levels\<close>

datatype log_level = Fatal | Error | Warn | Info | Debug | Trace

fun level_code :: "log_level \<Rightarrow> nat" where
  "level_code Fatal = 0"
| "level_code Error = 1"
| "level_code Warn = 2"
| "level_code Info = 3"
| "level_code Debug = 4"
| "level_code Trace = 5"

lemma level_code_inj [simp]: "level_code a = level_code b \<longleftrightarrow> a = b"
  by (cases a; cases b) simp_all

lemma level_code_less [simp]: "level_code l < 6"
  by (cases l) simp_all

instantiation log_level :: linorder
begin

definition less_eq_log_level :: "log_level \<Rightarrow> log_level \<Rightarrow> bool" where
  "less_eq_log_level a b \<longleftrightarrow> level_code a \<le> level_code b"

definition less_log_level :: "log_level \<Rightarrow> log_level \<Rightarrow> bool" where
  "less_log_level a b \<longleftrightarrow> level_code a < level_code b"

instance
  by standard (auto simp: less_eq_log_level_def less_log_level_def)

end

definition LL_MAX_NUM :: nat where "LL_MAX_NUM = 6"
definition LOG_LEVEL_ENABLED :: nat where "LOG_LEVEL_ENABLED = 4"
definition MAX_MESSAGE_SIZE :: nat where "MAX_MESSAGE_SIZE = 2048"
definition MAX_BUFFERED_MESSAGES :: nat where "MAX_BUFFERED_MESSAGES = 20"
definition REGISTERED_THREAD_NAME_LEN_MAX :: nat where "REGISTERED_THREAD_NAME_LEN_MAX = 256"

fun level_of :: "nat \<Rightarrow> log_level" where
  "level_of n = [Fatal, Error, Warn, Info, Debug, Trace] ! n"

definition Console_Colour_Strings :: "log_level \<Rightarrow> byte list" where
  "Console_Colour_Strings l =
     27 # bytes_of ([''[1;41m'', ''[1;31m'', ''[1;93m'', ''[1;32m'', ''[1;94m'', ''[0;37m''] ! level_code l)"

definition Console_Colour_Reset :: "byte list" where
  "Console_Colour_Reset = 27 # bytes_of ''[0;39m''"

definition level_str :: "log_level \<Rightarrow> byte list" where
  "level_str l = bytes_of ([''FATAL'', ''ERROR'', ''WARN'', ''INFO'', ''DEBUG'', ''TRACE''] ! level_code l)"

definition separator :: "byte list" where
  "separator = replicate 103 45 @ [10]"

definition separator_Big :: "byte list" where
  "separator_Big = replicate 103 61 @ [10]"

section \<open>State\<close>

record log_env =
  tm_year :: int
  tm_mon :: int
  tm_mday :: int
  tm_hour :: int
  tm_min :: int
  tm_sec :: int
  tv_nsec :: int
  fopen_ok :: "byte list \<Rightarrow> bool"
  rename_ok :: bool
  malloc_ok :: bool

record thread_entry =
  thread_id :: nat
  ename :: "byte list"

record log_state =
  internal_level :: log_level
  log_level_for_buffer :: nat
  Log_Message_Buffer :: "(byte list \<times> nat) list"
  thread_names :: "thread_entry dnode dll"
  LogLock :: bool
  Use_separate_Files_for_every_Thread :: bool
  MainLogFileName :: "byte list"
  GeneralLogFormat :: "byte list"
  GeneralLogFormat_BACKUP :: "byte list"
  SpecificLogFormatArray :: "(bool \<times> byte list) list"
  stdout_text :: "byte list"
  files :: "byte list \<rightharpoonup> byte list"

definition directoryName :: "byte list" where
  "directoryName = bytes_of ''./logs''"

definition log_initial :: log_state where
  "log_initial =
     \<lparr>internal_level = Trace, log_level_for_buffer = 0, Log_Message_Buffer = [],
      thread_names = dll_empty, LogLock = False, Use_separate_Files_for_every_Thread = True,
      MainLogFileName = bytes_of ''unknown.txt'',
      GeneralLogFormat = bytes_of ''[Default] [$B$F: $G$E] - $B$C$E$Z'',
      GeneralLogFormat_BACKUP = bytes_of ''[Default] [$B$F: $G$E] - $B$C$E$Z'',
      SpecificLogFormatArray = replicate 6 (False, bytes_of ''[$B$L$X$E] [$B$F: $G$E] - $B$C$E$Z''),
      stdout_text = [], files = Map.empty\<rparr>"

section \<open>Thread names\<close>

definition f_find_Entry :: "nat \<Rightarrow> log_state \<Rightarrow> nat option res" where
  "f_find_Entry threadID s =
     dll_find_from (\<lambda>e. thread_id e = threadID) (heap (thread_names s)) (dfront (thread_names s))"

text \<open>
  A known thread gets the new name copied over the old one, without a terminator; an unknown one
  gets a cleared entry at the end of the list. The name is a C string in a buffer.
\<close>

definition add_Thread_Name_Mapping ::
    "nat option \<Rightarrow> nat \<Rightarrow> byte list \<Rightarrow> log_state \<Rightarrow> (nat option \<times> log_state) res" where
  "add_Thread_Name_Mapping malloc thread nm s =
     bindR (f_find_Entry thread s) (\<lambda>loc_Found.
     bindR (c_strlen nm) (\<lambda>len.
       (case loc_Found of
          Some a \<Rightarrow>
            bindR (deref (heap (thread_names s)) (Some a)) (\<lambda>n.
            bindR (c_strncpy (ename (item n)) 0 nm (min len REGISTERED_THREAD_NAME_LEN_MAX)) (\<lambda>nm'.
            bindR (set_item (heap (thread_names s)) (Some a) (\<lambda>e. e\<lparr>ename := nm'\<rparr>)) (\<lambda>h.
              ret (Some a, s\<lparr>thread_names := (thread_names s)\<lparr>heap := h\<rparr>\<rparr>))))
        | None \<Rightarrow>
            (case malloc of
               None \<Rightarrow> ret (None, s)
             | Some a \<Rightarrow>
                 bindR (c_strncpy (replicate REGISTERED_THREAD_NAME_LEN_MAX 0) 0 nm
                          (min len REGISTERED_THREAD_NAME_LEN_MAX)) (\<lambda>nm'.
                 bindR (dll_append a \<lparr>thread_id = thread, ename = nm'\<rparr> (thread_names s)) (\<lambda>l.
                   ret (Some a, s\<lparr>thread_names := l\<rparr>)))))))"

text \<open>The mutex is not released when the thread has no entry.\<close>

definition remove_Entry :: "nat \<Rightarrow> log_state \<Rightarrow> log_state res" where
  "remove_Entry threadID s =
     (if LogLock s then fail Deadlock
      else let s = s\<lparr>LogLock := True\<rparr> in
        bindR (f_find_Entry threadID s) (\<lambda>locPointer.
          (case locPointer of
             None \<Rightarrow> ret s
           | Some p \<Rightarrow>
               bindR (dll_unlink p (thread_names s)) (\<lambda>l.
                 ret (s\<lparr>thread_names := l, LogLock := False\<rparr>)))))"

section \<open>Log files\<close>

text \<open>\<^verbatim>\<open>snprintf\<close> into a buffer for a file name: the name, cut to 255 bytes.\<close>

definition file_name :: "byte list \<Rightarrow> byte list" where
  "file_name txt = take (REGISTERED_THREAD_NAME_LEN_MAX - 1) txt"

definition thread_log_name :: "nat \<Rightarrow> byte list" where
  "thread_log_name thread =
     file_name (directoryName @ bytes_of ''/thread_log_'' @ fmt_u thread @ bytes_of ''.log'')"

definition named_log :: "byte list \<Rightarrow> byte list" where
  "named_log nm = file_name (directoryName @ bytes_of ''/'' @ nm @ bytes_of ''.log'')"

definition enabled_levels :: "byte list" where
  "enabled_levels =
     concat (map bytes_of (take (LOG_LEVEL_ENABLED + 2)
       [''FATAL'', '' + ERROR'', '' + WARN'', '' + INFO'', '' + DEBUG'', '' + TRACE'']))"

definition log_title :: "log_env \<Rightarrow> byte list \<Rightarrow> byte list \<Rightarrow> byte list" where
  "log_title E FileName fmt =
     bytes_of ''['' @ fmt_0d 4 (tm_year E + 1900) @ bytes_of ''/'' @ fmt_0d 2 (tm_mon E + 1)
       @ bytes_of ''/'' @ fmt_0d 2 (tm_mday E) @ bytes_of '' - '' @ fmt_0d 2 (tm_hour E)
       @ bytes_of '':'' @ fmt_0d 2 (tm_min E) @ bytes_of '':'' @ fmt_0d 2 (tm_sec E)
       @ bytes_of ''] Log initialized'' @ [10] @ bytes_of ''    Output-file: ['' @ FileName
       @ bytes_of '']'' @ [10] @ bytes_of ''    Starting-format: '' @ fmt @ [10]"

text \<open>
  The title goes to a new or emptied file. Without memory for the list of levels the function
  gives up with what it has written.
\<close>

definition Create_Log_File :: "log_env \<Rightarrow> byte list \<Rightarrow> log_state \<Rightarrow> bool \<times> log_state" where
  "Create_Log_File E FileName s =
     (if \<not> fopen_ok E FileName then (False, s)
      else let title = log_title E FileName (GeneralLogFormat s) in
        if \<not> malloc_ok E then (False, s\<lparr>files := (files s)(FileName \<mapsto> title)\<rparr>)
        else (True, s\<lparr>files := (files s)(FileName \<mapsto> title
               @ bytes_of ''    LOG_LEVEL_ENABLED = '' @ fmt_d (int LOG_LEVEL_ENABLED)
               @ bytes_of ''    enabled log macros are: '' @ enabled_levels @ [10]
               @ separator_Big @ [10])\<rparr>))"

definition append_file :: "log_env \<Rightarrow> byte list \<Rightarrow> byte list \<Rightarrow> log_state \<Rightarrow> log_state" where
  "append_file E filename txt s =
     (if \<not> fopen_ok E filename then s
      else s\<lparr>files := (files s)(filename \<mapsto> (case files s filename of None \<Rightarrow> [] | Some c \<Rightarrow> c) @ txt)\<rparr>)"

definition log_file_of :: "log_env \<Rightarrow> nat \<Rightarrow> log_state \<Rightarrow> (byte list \<times> log_state) res" where
  "log_file_of E thread s =
     (let create = (\<lambda>fn. if files s fn = None then (fn, snd (Create_Log_File E fn s)) else (fn, s)) in
      if Use_separate_Files_for_every_Thread s then
        bindR (f_find_Entry thread s) (\<lambda>loc_Entry.
          (case loc_Entry of
             Some a \<Rightarrow>
               bindR (deref (heap (thread_names s)) (Some a)) (\<lambda>n.
               bindR (c_string (ename (item n))) (\<lambda>nm. ret (file_name nm, s)))
           | None \<Rightarrow> ret (create (thread_log_name thread))))
      else ret (create (named_log (MainLogFileName s))))"

fun write_messages :: "log_env \<Rightarrow> (byte list \<times> nat) list \<Rightarrow> log_state \<Rightarrow> log_state res" where
  "write_messages E [] s = ret s"
| "write_messages E ((txt, thread) # ms) s =
     bindR (log_file_of E thread s) (\<lambda>(filename, s). write_messages E ms (append_file E filename txt s))"

text \<open>The buffer keeps its count: the caller resets it.\<close>

definition WriteMessagesToFile :: "log_env \<Rightarrow> log_state \<Rightarrow> log_state res" where
  "WriteMessagesToFile E s = write_messages E (Log_Message_Buffer s) s"

definition register_thread_log_under_Name ::
    "log_env \<Rightarrow> nat option \<Rightarrow> nat \<Rightarrow> byte list \<Rightarrow> log_state \<Rightarrow> (int \<times> log_state) res" where
  "register_thread_log_under_Name E malloc threadID nm s =
     (let filename = thread_log_name threadID in
      bindR (c_string nm) (\<lambda>nm.
      bindR (add_Thread_Name_Mapping malloc threadID (named_log nm @ [0]) s) (\<lambda>(_, s).
        (case files s filename of
           None \<Rightarrow> ret (-1, s)
         | Some c \<Rightarrow>
             if \<not> rename_ok E then ret (-1, s)
             else ret (0, s\<lparr>files := (files s)(filename := None, named_log nm \<mapsto> c)\<rparr>)))))"

section \<open>Output\<close>

text \<open>
  A message is printed when its level is enabled, and stored in the buffer with the mutex held.
  The buffer is written out when it is nearly full or the level is one that is not buffered. The
  array has \<^const>\<open>MAX_BUFFERED_MESSAGES\<close> places.
\<close>

definition output_Message :: "log_env \<Rightarrow> log_level \<Rightarrow> byte list \<Rightarrow> nat \<Rightarrow> log_state \<Rightarrow> log_state res" where
  "output_Message E level message threadID s =
     (let s = (if level \<le> internal_level s then s\<lparr>stdout_text := stdout_text s @ message\<rparr> else s) in
      if LogLock s then fail Deadlock
      else if \<not> length (Log_Message_Buffer s) < MAX_BUFFERED_MESSAGES then fail Out_Of_Bounds
      else let s = s\<lparr>LogLock := True, Log_Message_Buffer := Log_Message_Buffer s
                      @ [(take (MAX_MESSAGE_SIZE - 1) message, threadID)]\<rparr> in
        bindR (if MAX_BUFFERED_MESSAGES - 1 \<le> length (Log_Message_Buffer s)
                  \<or> level_code level < 6 - log_level_for_buffer s
               then bindR (WriteMessagesToFile E s) (\<lambda>s. ret (s\<lparr>Log_Message_Buffer := []\<rparr>))
               else ret s) (\<lambda>s. ret (s\<lparr>LogLock := False\<rparr>)))"

definition print_Separator :: "log_env \<Rightarrow> nat \<Rightarrow> log_state \<Rightarrow> log_state res" where
  "print_Separator E threadID s = output_Message E Trace separator threadID s"

definition print_Separator_Big :: "log_env \<Rightarrow> nat \<Rightarrow> log_state \<Rightarrow> log_state res" where
  "print_Separator_Big E threadID s = output_Message E Trace separator_Big threadID s"

section \<open>Formatting\<close>

text \<open>What a call of the logging macros knows: where it is, and its thread.\<close>

record log_site =
  prefix :: "byte list"
  funcName :: "byte list"
  fileName :: "byte list"
  Line :: int
  site_thread :: nat

text \<open>The last component of a path.\<close>

definition base_name :: "byte list \<Rightarrow> byte list" where
  "base_name path = rev (takeWhile (\<lambda>c. c \<noteq> of_char (CHR ''/'')) (rev path))"

text \<open>What a tag of a format stands for; an unknown one for nothing.\<close>

definition tag_text :: "log_env \<Rightarrow> log_level \<Rightarrow> log_site \<Rightarrow> byte list \<Rightarrow> byte \<Rightarrow> byte list" where
  "tag_text E level L message_formatted c =
     (if c = of_char (CHR ''B'') then Console_Colour_Strings level
      else if c = of_char (CHR ''E'') then Console_Colour_Reset
      else if c = of_char (CHR ''C'') then prefix L @ message_formatted
      else if c = of_char (CHR ''L'') then level_str level
      else if c = of_char (CHR ''Z'') then [10]
      else if c = of_char (CHR ''X'') then (if level = Info \<or> level = Warn then [32] else [])
      else if c = of_char (CHR ''F'') then funcName L
      else if c = of_char (CHR ''A'') then fileName L
      else if c = of_char (CHR ''P'') then fmt_x (site_thread L mod 2 ^ 32)
      else if c = of_char (CHR ''I'') then base_name (fileName L)
      else if c = of_char (CHR ''G'') then fmt_d (Line L)
      else if c = of_char (CHR ''T'') then
        fmt_0d 2 (tm_hour E) @ [58] @ fmt_0d 2 (tm_min E) @ [58] @ fmt_0d 2 (tm_sec E)
      else if c = of_char (CHR ''H'') then fmt_0d 2 (tm_hour E)
      else if c = of_char (CHR ''M'') then fmt_0d 2 (tm_min E)
      else if c = of_char (CHR ''S'') then fmt_0d 2 (tm_sec E)
      else if c = of_char (CHR ''J'') then fmt_0d 3 (tv_nsec E div 1000000)
      else if c = of_char (CHR ''N'') then
        fmt_0d 4 (tm_year E + 1900) @ [47] @ fmt_0d 2 (tm_mon E + 1) @ [47] @ fmt_0d 2 (tm_mday E)
      else if c = of_char (CHR ''Y'') then fmt_0d 4 (tm_year E + 1900)
      else if c = of_char (CHR ''O'') then fmt_0d 2 (tm_mon E + 1)
      else if c = of_char (CHR ''D'') then fmt_0d 2 (tm_mday E)
      else [])"

text \<open>
  \<^verbatim>\<open>LOGGER_FORMAT_FORMAT_MESSAGE\<close>: the text goes through a buffer of the message size and is then
  appended to the output; both have to hold it with its NUL. The second one is \<^verbatim>\<open>strncat\<close> of one
  byte.
\<close>

definition format_append :: "byte list \<Rightarrow> byte list \<Rightarrow> byte list res" where
  "format_append message_out txt =
     bindR (guardR (length txt < MAX_MESSAGE_SIZE) Out_Of_Bounds) (\<lambda>_.
     bindR (guardR (length message_out + length txt < MAX_MESSAGE_SIZE) Out_Of_Bounds) (\<lambda>_.
       ret (message_out @ txt)))"

definition format_char :: "byte list \<Rightarrow> byte \<Rightarrow> byte list res" where
  "format_char message_out c =
     bindR (guardR (length message_out + 1 < MAX_MESSAGE_SIZE) Out_Of_Bounds) (\<lambda>_.
       ret (message_out @ [c]))"

fun expand_format :: "(byte \<Rightarrow> byte list) \<Rightarrow> byte list \<Rightarrow> byte list \<Rightarrow> byte list res" where
  "expand_format tag [] message_out = ret message_out"
| "expand_format tag [c] message_out = format_char message_out c"
| "expand_format tag (c # d # cs) message_out =
     (if c = of_char (CHR ''$'')
      then bindR (format_append message_out (tag d)) (expand_format tag cs)
      else bindR (format_char message_out c) (expand_format tag (d # cs)))"

text \<open>
  \<open>message\<close> is the format of the call and \<open>formatted\<close> what it expands to with its arguments.
\<close>

definition log_output ::
    "log_env \<Rightarrow> log_level \<Rightarrow> log_site \<Rightarrow> byte list \<Rightarrow> byte list \<Rightarrow> log_state \<Rightarrow> log_state res" where
  "log_output E level L message formatted s =
     (if message = [] \<and> prefix L = [] then ret s
      else let message_formatted = take (MAX_MESSAGE_SIZE - 1) formatted;
             specific = SpecificLogFormatArray s ! level_code level;
             locTargetFormat = (if fst specific then snd specific else GeneralLogFormat s)
        in bindR (expand_format (tag_text E level L message_formatted) locTargetFormat [])
             (\<lambda>message_out. output_Message E level message_out (site_thread L) s))"

section \<open>Settings\<close>

definition set_Formatting :: "byte list \<Rightarrow> log_state \<Rightarrow> log_state" where
  "set_Formatting LogFormat s =
     s\<lparr>GeneralLogFormat_BACKUP := GeneralLogFormat s, GeneralLogFormat := LogFormat\<rparr>"

definition use_Formatting_Backup :: "log_state \<Rightarrow> log_state" where
  "use_Formatting_Backup s = s\<lparr>GeneralLogFormat := GeneralLogFormat_BACKUP s\<rparr>"

definition Set_Format_For_Specific_Log_Level :: "log_level \<Rightarrow> byte list \<Rightarrow> log_state \<Rightarrow> log_state" where
  "Set_Format_For_Specific_Log_Level level Format s =
     s\<lparr>SpecificLogFormatArray := (SpecificLogFormatArray s)[level_code level := (True, Format)]\<rparr>"

definition Disable_Format_For_Specific_Log_Level :: "log_level \<Rightarrow> log_state \<Rightarrow> log_state" where
  "Disable_Format_For_Specific_Log_Level level s =
     s\<lparr>SpecificLogFormatArray := (SpecificLogFormatArray s)
         [level_code level := (False, snd (SpecificLogFormatArray s ! level_code level))]\<rparr>"

text \<open>Calls of the logging macros inside the logger, with their place and their text.\<close>

definition site :: "string \<Rightarrow> string \<Rightarrow> int \<Rightarrow> nat \<Rightarrow> log_site" where
  "site file func line thread =
     \<lparr>prefix = [], funcName = bytes_of func, fileName = bytes_of file, Line = line, site_thread = thread\<rparr>"

definition logger_site :: "string \<Rightarrow> int \<Rightarrow> nat \<Rightarrow> log_site" where
  "logger_site = site ''src/core/logger.c''"

definition set_buffer_Level :: "log_env \<Rightarrow> nat \<Rightarrow> int \<Rightarrow> log_state \<Rightarrow> log_state res" where
  "set_buffer_Level E thread newLevel s =
     (if newLevel \<le> 4 \<and> newLevel \<ge> 0 then ret (s\<lparr>log_level_for_buffer := nat newLevel\<rparr>)
      else log_output E Error (logger_site ''set_buffer_Level'' 566 thread)
             (bytes_of ''Input invalid Level (0 <= newLevel <= 4), input: %d'')
             (bytes_of ''Input invalid Level (0 <= newLevel <= 4), input: '' @ fmt_d newLevel) s)"

text \<open>The enumeration is an unsigned 32-bit integer, and any value of it can be passed.\<close>

definition set_log_level :: "log_env \<Rightarrow> nat \<Rightarrow> u32 \<Rightarrow> log_state \<Rightarrow> log_state res" where
  "set_log_level E thread new_level s =
     (if unat new_level < LL_MAX_NUM \<and> unat new_level > level_code Fatal then
        bindR (log_output E Debug (logger_site ''set_log_level'' 573 thread) [] [] s) (\<lambda>s.
        bindR (log_output E Trace (logger_site ''set_log_level'' 575 thread)
                 (bytes_of ''Setting [log_level: %s]'')
                 (bytes_of ''Setting [log_level: '' @ level_str (level_of (unat new_level)) @ bytes_of '']'') s) (\<lambda>s.
          ret (s\<lparr>internal_level := level_of (unat new_level)\<rparr>)))
      else
        log_output E Error (logger_site ''set_log_level'' 573 thread)
          (bytes_of ''Selected log level is out of bounds (1 <= [new_level: %d] <= 5)'')
          (bytes_of ''Selected log level is out of bounds (1 <= [new_level: '' @ fmt_d (sint new_level)
             @ bytes_of ''] <= 5)'') s)"

text \<open>
  \<open>dir\<close> is what \<^verbatim>\<open>opendir\<close> and \<^verbatim>\<open>readdir\<close> give: the entries with whether they are regular files.
\<close>

fun remove_files :: "(byte list \<Rightarrow> bool) \<Rightarrow> byte list \<Rightarrow> (byte list \<times> bool) list \<Rightarrow> log_state
    \<Rightarrow> int \<times> log_state" where
  "remove_files remove_ok dirName [] s = (0, s)"
| "remove_files remove_ok dirName ((d_name, regular) # es) s =
     (if regular
      then let filepath = take (REGISTERED_THREAD_NAME_LEN_MAX * 2 - 1) (dirName @ bytes_of ''/'' @ d_name) in
        if \<not> remove_ok filepath then (-1, s)
        else remove_files remove_ok dirName es (s\<lparr>files := (files s)(filepath := None)\<rparr>)
      else remove_files remove_ok dirName es s)"

definition remove_all_Files_In_Directory ::
    "(byte list \<times> bool) list option \<Rightarrow> (byte list \<Rightarrow> bool) \<Rightarrow> byte list \<Rightarrow> log_state \<Rightarrow> int \<times> log_state" where
  "remove_all_Files_In_Directory dir remove_ok dirName s =
     (case dir of None \<Rightarrow> (-1, s) | Some es \<Rightarrow> remove_files remove_ok dirName es s)"

section \<open>Start and end\<close>

definition log_init ::
    "log_env \<Rightarrow> bool \<Rightarrow> (byte list \<times> bool) list option \<Rightarrow> (byte list \<Rightarrow> bool) \<Rightarrow> nat option
     \<Rightarrow> byte list \<Rightarrow> byte list \<Rightarrow> nat \<Rightarrow> int \<Rightarrow> log_state \<Rightarrow> log_state res" where
  "log_init E mkdir_ok dir remove_ok malloc LogFileName LogFormat threadID Use_separate s =
     (let s = s\<lparr>MainLogFileName := LogFileName, GeneralLogFormat := LogFormat,
                Use_separate_Files_for_every_Thread := (Use_separate \<noteq> 0)\<rparr>;
          s = (if mkdir_ok then s\<lparr>stdout_text := stdout_text s
                 @ bytes_of ''Folder created successfully.'' @ [10]\<rparr> else s);
          s = snd (remove_all_Files_In_Directory dir remove_ok directoryName s) in
      bindR (log_output E Trace (logger_site ''log_init'' 113 threadID) (bytes_of ''Initialize'')
               (bytes_of ''Initialize'') s) (\<lambda>s.
      bindR (register_thread_log_under_Name E malloc threadID (LogFileName @ [0]) s) (\<lambda>(_, s). ret s)))"

definition log_shutdown :: "log_env \<Rightarrow> nat \<Rightarrow> log_state \<Rightarrow> log_state res" where
  "log_shutdown E thread s =
     bindR (log_output E Trace (logger_site ''log_shutdown'' 163 thread) (bytes_of ''Shutdown'')
              (bytes_of ''Shutdown'') s) (\<lambda>s. WriteMessagesToFile E s)"

section \<open>Measuring time\<close>

record log_time_exact =
  t_year :: int
  t_mon :: int
  t_yday :: int
  t_hour :: int
  t_min :: int
  ts_sec :: int
  ts_nsec :: int

text \<open>The start only stores the time it is given.\<close>

definition Calc_Func_Duration_Start ::
    "log_env \<Rightarrow> nat \<Rightarrow> log_time_exact \<Rightarrow> log_state \<Rightarrow> (log_time_exact \<times> log_state) res" where
  "Calc_Func_Duration_Start E thread time_now s =
     bindR (log_output E Trace (logger_site ''Calc_Func_Duration_Start'' 618 thread)
              (bytes_of ''Starting Tine measurement'') (bytes_of ''Starting Tine measurement'') s)
       (\<lambda>s. ret (time_now, s))"

definition time_difference :: "log_time_exact \<Rightarrow> log_time_exact \<Rightarrow> log_time_exact" where
  "time_difference n st =
     \<lparr>t_year = t_year n - t_year st, t_mon = t_mon n - t_mon st, t_yday = t_yday n - t_yday st,
      t_hour = t_hour n - t_hour st, t_min = t_min n - t_min st, ts_sec = ts_sec n - ts_sec st,
      ts_nsec = ts_nsec n - ts_nsec st\<rparr>"

definition duration_part :: "string \<Rightarrow> int \<Rightarrow> byte list \<Rightarrow> byte list" where
  "duration_part label d shown = (if d > 0 then bytes_of label @ shown else [])"

definition duration_text :: "log_time_exact \<Rightarrow> byte list" where
  "duration_text d =
     duration_part ''years: '' (t_year d) (fmt_0d 4 (t_year d))
     @ duration_part '' months: '' (t_mon d) (fmt_0d 2 (12 mod t_mon d))
     @ duration_part '' days: '' (t_yday d) (fmt_0d 2 (365 mod t_yday d))
     @ duration_part '' hours: '' (t_hour d) (fmt_0d 2 (24 mod t_hour d))
     @ duration_part '' min: '' (t_min d) (fmt_0d 2 (60 mod t_min d))
     @ duration_part '' s:'' (ts_sec d) (fmt_0d 2 (60 mod ts_sec d))
     @ duration_part '' nano-sec:'' (ts_nsec d) (fmt_0d 2 (60 mod ts_nsec d))"

definition Calc_Func_Duration ::
    "log_env \<Rightarrow> nat \<Rightarrow> log_time_exact \<Rightarrow> log_time_exact \<Rightarrow> log_state \<Rightarrow> log_state res" where
  "Calc_Func_Duration E thread StartTime time_now s =
     log_output E Trace (logger_site ''Calc_Func_Duration'' 670 thread) (bytes_of ''Ending %s'')
       (bytes_of ''Ending '' @ duration_text (time_difference time_now StartTime)) s"

section \<open>The thread names as a registry\<close>

definition entry_at :: "log_state \<Rightarrow> nat \<Rightarrow> thread_entry" where
  "entry_at s a = item_at (heap (thread_names s)) a"

definition names_at :: "log_state \<Rightarrow> nat list \<Rightarrow> bool" where
  "names_at s as \<longleftrightarrow> dll_ok (thread_names s) as"

definition names_rep :: "log_state \<Rightarrow> thread_entry list \<Rightarrow> bool" where
  "names_rep s es \<longleftrightarrow> dll_rep (thread_names s) es \<and> \<not> LogLock s"

definition new_entry :: "nat \<times> byte list \<Rightarrow> thread_entry" where
  "new_entry x = \<lparr>thread_id = fst x, ename =
     patch (replicate REGISTERED_THREAD_NAME_LEN_MAX 0) 0 (takeWhile (\<lambda>c. c \<noteq> 0) (snd x))\<rparr>"

definition short_string :: "nat \<times> byte list \<Rightarrow> bool" where
  "short_string x \<longleftrightarrow> (\<exists>n. c_string (snd x) = ret n \<and> length n < REGISTERED_THREAD_NAME_LEN_MAX)"

definition add_name :: "nat \<Rightarrow> nat \<times> byte list \<Rightarrow> log_state \<Rightarrow> log_state res" where
  "add_name a x s = bindR (add_Thread_Name_Mapping (Some a) (fst x) (snd x) s) (\<lambda>r. ret (snd r))"

definition name_of_thread :: "nat \<Rightarrow> log_state \<Rightarrow> thread_entry option res" where
  "name_of_thread t s =
     bindR (f_find_Entry t s) (\<lambda>p. (case p of None \<Rightarrow> ret None
       | Some a \<Rightarrow> bindR (deref (heap (thread_names s)) (Some a)) (\<lambda>n. ret (Some (item n)))))"

lemma names_rep_at: "names_rep s es \<longleftrightarrow> (\<exists>as. names_at s as \<and> es = map (entry_at s) as) \<and> \<not> LogLock s"
  by (auto simp: names_rep_def names_at_def dll_rep_def entry_at_def [abs_def])

lemma f_find_Entry_at:
  "names_at s as \<Longrightarrow> f_find_Entry t s = ret (List.find (\<lambda>a. thread_id (entry_at s a) = t) as)"
  using dll_find_ok [of "thread_names s" as] by (simp add: f_find_Entry_def names_at_def entry_at_def)

lemma find_key_map: "List.find (\<lambda>v. f v = k) (map g xs) = map_option g (List.find (\<lambda>x. f (g x) = k) xs)"
  by (induction xs) auto

lemma find_key_None: "k \<notin> f ` set xs \<Longrightarrow> List.find (\<lambda>x. f x = k) xs = None"
  by (auto simp: find_None_iff)

lemma find_key_mem: "List.find P xs = Some x \<Longrightarrow> x \<in> set xs \<and> P x"
  by (induction xs) (auto split: if_splits)

lemma copy_string:
  assumes "c_string nm = ret n" and "length n \<le> length dst"
  shows "c_strncpy dst 0 nm (length n) = ret (patch dst 0 n)"
proof -
  obtain r where "nm = n @ 0 # r" and "0 \<notin> set n" using assms(1) by (auto simp: c_string_ret_iff)
  then show ?thesis using assms(2) by (simp add: buf_simps strncpy_image_exact)
qed

lemma add_new_name:
  assumes at: "names_at s as" and "t \<notin> thread_id ` entry_at s ` set as"
    and a: "heap (thread_names s) a = None" and nm: "c_string nm = ret n" "length n < 256"
  shows "\<exists>l. add_Thread_Name_Mapping (Some a) t nm s = ret (Some a, s\<lparr>thread_names := l\<rparr>)
    \<and> dll_ok l (as @ [a]) \<and> item_at (heap l) a = new_entry (t, nm)
    \<and> (\<forall>b \<in> set as. item_at (heap l) b = entry_at s b)"
proof -
  have none: "f_find_Entry t s = ret None"
    using assms(2) by (simp add: f_find_Entry_at [OF at] find_key_None image_image)
  have "takeWhile (\<lambda>c. c \<noteq> 0) nm = n" using nm(1) by (auto simp: c_string_ret_iff)
  then have e: "\<lparr>thread_id = t, ename = patch (replicate 256 0) 0 n\<rparr> = new_entry (t, nm)"
    by (simp add: new_entry_def REGISTERED_THREAD_NAME_LEN_MAX_def)
  obtain l where "dll_append a (new_entry (t, nm)) (thread_names s) = ret l" "dll_ok l (as @ [a])"
    "item_at (heap l) a = new_entry (t, nm)"
    "\<forall>b \<in> set as. item_at (heap l) b = item_at (heap (thread_names s)) b"
    using dll_append_ok [OF at [unfolded names_at_def] a] by blast
  then show ?thesis
    using none nm
    by (intro exI [of _ l]) (simp add: add_Thread_Name_Mapping_def c_strlen_def
        REGISTERED_THREAD_NAME_LEN_MAX_def copy_string e entry_at_def)
qed

interpretation tr: registry names_rep thread_id short_string new_entry
  "\<lambda>s a. heap (thread_names s) a = None" add_name remove_Entry name_of_thread
proof
  fix s es a and x :: "nat \<times> byte list"
  assume "names_rep s es" and a: "heap (thread_names s) a = None" and "short_string x"
    and new: "thread_id (new_entry x) \<notin> thread_id ` set es"
  then obtain as n where as: "names_at s as" "es = map (entry_at s) as" "\<not> LogLock s"
    "c_string (snd x) = ret n" "length n < 256"
    by (auto simp: names_rep_at short_string_def REGISTERED_THREAD_NAME_LEN_MAX_def)
  with new have "fst x \<notin> thread_id ` entry_at s ` set as" by (simp add: new_entry_def)
  from add_new_name [OF as(1) this a as(4,5)] as(2,3)
  show "\<exists>s'. add_name a x s = ret s' \<and> names_rep s' (es @ [new_entry x])"
    by (auto simp: add_name_def names_rep_def dll_rep_def intro!: exI [of _ "as @ [a]"])
next
  fix s es fs and e :: thread_entry
  assume "names_rep s (es @ e # fs)" and e: "thread_id e \<notin> thread_id ` set es"
  then obtain xs p ys where l: "names_at s (xs @ p # ys)" "es = map (entry_at s) xs"
    "e = entry_at s p" "fs = map (entry_at s) ys" "\<not> LogLock s"
    by (auto simp: names_rep_at map_eq_append_conv Cons_eq_map_conv append_eq_map_conv)
  have "List.find (\<lambda>a. thread_id (entry_at s a) = thread_id e) (xs @ p # ys) = Some p"
    using e l(2,3) by (induction xs arbitrary: es) auto
  with f_find_Entry_at [OF l(1), of "thread_id e"]
  have found: "f_find_Entry (thread_id e) (s\<lparr>LogLock := True\<rparr>) = ret (Some p)"
    by (simp add: f_find_Entry_def)
  obtain d where "dll_unlink p (thread_names s) = ret d" "dll_ok d (xs @ ys)"
    "\<forall>b \<in> set (xs @ ys). item_at (heap d) b = item_at (heap (thread_names s)) b"
    using dll_unlink_ok [OF l(1) [unfolded names_at_def]] by blast
  then show "\<exists>s'. remove_Entry (thread_id e) s = ret s' \<and> names_rep s' (es @ fs)"
    using l(2,4,5) found
    by (auto simp: remove_Entry_def Let_def names_rep_def dll_rep_def entry_at_def
        intro!: exI [of _ "xs @ ys"])
next
  fix s es k
  assume "names_rep s es"
  then obtain as where as: "names_at s as" "es = map (entry_at s) as" by (auto simp: names_rep_at)
  show "name_of_thread k s = ret (List.find (\<lambda>v. thread_id v = k) es)"
  proof (cases "List.find (\<lambda>a. thread_id (entry_at s a) = k) as")
    case (Some a)
    then have "a \<in> set as" by (blast dest: find_key_mem)
    then obtain n where "heap (thread_names s) a = Some n"
      using as(1) by (auto simp: names_at_def dest: dll_ok_Some)
    then show ?thesis
      using Some by (simp add: name_of_thread_def f_find_Entry_at [OF as(1)] as(2) find_key_map
          entry_at_def item_at_def)
  qed (simp add: name_of_thread_def f_find_Entry_at [OF as(1)] as(2) find_key_map)
qed

section \<open>Writing the buffer out\<close>

definition entry_ok :: "thread_entry \<Rightarrow> bool" where
  "entry_ok e \<longleftrightarrow> length (ename e) = 256 \<and> ename e ! 255 = 0"

definition entry_file :: "thread_entry \<Rightarrow> byte list" where
  "entry_file e = takeWhile (\<lambda>c. c \<noteq> 0) (ename e)"

text \<open>The file the messages of a thread go to.\<close>

definition log_target :: "log_state \<Rightarrow> nat list \<Rightarrow> nat \<Rightarrow> byte list" where
  "log_target s as t =
     (if Use_separate_Files_for_every_Thread s
      then (case List.find (\<lambda>a. thread_id (entry_at s a) = t) as of
              Some a \<Rightarrow> entry_file (entry_at s a)
            | None \<Rightarrow> thread_log_name t)
      else named_log (MainLogFileName s))"

lemma entry_ok_string: "entry_ok e \<Longrightarrow> c_string (ename e) = ret (entry_file e)"
  using nth_mem [of 255 "ename e"] by (auto simp: entry_ok_def c_string_def entry_file_def)

lemma entry_file_short: "entry_ok e \<Longrightarrow> length (entry_file e) \<le> 255"
  using c_string_less [OF entry_ok_string] by (fastforce simp: entry_ok_def)

lemma entry_ok_new: "short_string x \<Longrightarrow> entry_ok (new_entry x)"
proof -
  assume "short_string x"
  then obtain n where n: "c_string (snd x) = ret n" "length n < 256"
    by (auto simp: short_string_def REGISTERED_THREAD_NAME_LEN_MAX_def)
  then have "takeWhile (\<lambda>c. c \<noteq> 0) (snd x) = n" by (auto simp: c_string_ret_iff)
  with n(2) show ?thesis
    using nth_patch [of 0 n "replicate 256 0" 255]
    by (simp add: entry_ok_def new_entry_def REGISTERED_THREAD_NAME_LEN_MAX_def)
qed

definition names_ok :: "log_state \<Rightarrow> nat list \<Rightarrow> bool" where
  "names_ok s as \<longleftrightarrow> names_at s as \<and> (\<forall>a \<in> set as. entry_ok (entry_at s a))"

lemma names_ok_same: "thread_names s' = thread_names s \<Longrightarrow> names_ok s' as = names_ok s as"
  by (simp add: names_ok_def names_at_def entry_at_def)

lemma names_ok_updates [simp]:
  "names_ok (s\<lparr>files := v1\<rparr>) as = names_ok s as"
  "names_ok (s\<lparr>stdout_text := v2\<rparr>) as = names_ok s as"
  "names_ok (s\<lparr>LogLock := v3\<rparr>) as = names_ok s as"
  "names_ok (s\<lparr>Log_Message_Buffer := v4\<rparr>) as = names_ok s as"
  "names_ok (s\<lparr>log_level_for_buffer := v5\<rparr>) as = names_ok s as"
  by (rule names_ok_same, simp)+

lemma log_target_same:
  "thread_names s' = thread_names s \<Longrightarrow>
   Use_separate_Files_for_every_Thread s' = Use_separate_Files_for_every_Thread s \<Longrightarrow>
   MainLogFileName s' = MainLogFileName s \<Longrightarrow> log_target s' as t = log_target s as t"
proof -
  assume "thread_names s' = thread_names s"
  then have "entry_at s' = entry_at s" by (simp add: fun_eq_iff entry_at_def)
  then show "Use_separate_Files_for_every_Thread s' = Use_separate_Files_for_every_Thread s \<Longrightarrow>
      MainLogFileName s' = MainLogFileName s \<Longrightarrow> ?thesis"
    by (simp add: log_target_def split: option.split)
qed

lemma Create_Log_File_files: "\<exists>fs. snd (Create_Log_File E fn s) = s\<lparr>files := fs\<rparr>
    \<and> (\<forall>f. f \<noteq> fn \<longrightarrow> fs f = files s f)"
  by (cases s) (auto simp: Create_Log_File_def Let_def intro: exI [of _ "files s"])

text \<open>Finding a file may create it, and touches no other.\<close>

lemma log_file_of_ok:
  assumes "names_ok s as"
  shows "\<exists>fs. log_file_of E t s = ret (log_target s as t, s\<lparr>files := fs\<rparr>)
    \<and> (\<forall>f. files s f \<noteq> None \<or> f \<noteq> log_target s as t \<longrightarrow> fs f = files s f)"
proof -
  have same: "\<exists>fs. ret (x, s) = ret (x, s\<lparr>files := fs\<rparr>)
      \<and> (\<forall>f. files s f \<noteq> None \<or> f \<noteq> y \<longrightarrow> fs f = files s f)" for x y
    by (intro exI [of _ "files s"]) simp
  have create: "\<exists>fs. ret (if files s fn = None then (fn, snd (Create_Log_File E fn s)) else (fn, s)) =
        ret (fn, s\<lparr>files := fs\<rparr>) \<and> (\<forall>f. files s f \<noteq> None \<or> f \<noteq> fn \<longrightarrow> fs f = files s f)" for fn
  proof (cases "files s fn")
    case None
    from Create_Log_File_files [of E fn s] obtain fs where
      "snd (Create_Log_File E fn s) = s\<lparr>files := fs\<rparr>" "\<forall>f. f \<noteq> fn \<longrightarrow> fs f = files s f" by blast
    moreover from this None have "fs f = files s f" if "files s f \<noteq> None \<or> f \<noteq> fn" for f
      using that by (cases "f = fn") auto
    ultimately show ?thesis using None by (intro exI [of _ fs]) simp
  qed (use same [of fn fn] in auto)
  have at: "names_at s as" using assms by (simp add: names_ok_def)
  show ?thesis
  proof (cases "Use_separate_Files_for_every_Thread s")
    case False
    then show ?thesis using create by (simp add: log_file_of_def log_target_def Let_def)
  next
    case True
    show ?thesis
    proof (cases "List.find (\<lambda>a. thread_id (entry_at s a) = t) as")
      case None
      then show ?thesis using True create [of "thread_log_name t"]
        by (simp add: log_file_of_def log_target_def Let_def f_find_Entry_at [OF at])
    next
      case (Some a)
      then have a: "a \<in> set as" by (blast dest: find_key_mem)
      then obtain n where n: "heap (thread_names s) a = Some n"
        using at by (auto simp: names_at_def dest: dll_ok_Some)
      have ok: "entry_ok (entry_at s a)" using assms a by (simp add: names_ok_def)
      have e: "item n = entry_at s a" using n by (simp add: entry_at_def item_at_def)
      have "file_name (entry_file (entry_at s a)) = entry_file (entry_at s a)"
        using entry_file_short [OF ok] by (simp add: file_name_def REGISTERED_THREAD_NAME_LEN_MAX_def)
      then show ?thesis
        using True Some n same [of "entry_file (entry_at s a)"]
        by (simp add: log_file_of_def log_target_def Let_def f_find_Entry_at [OF at] e entry_ok_string [OF ok])
    qed
  qed
qed

text \<open>
  A file after some texts were written to it: the old contents and the texts, or for a new file
  possibly a title and the texts.
\<close>

fun grown :: "byte list option \<Rightarrow> byte list list \<Rightarrow> byte list option \<Rightarrow> bool" where
  "grown (Some c) ts r \<longleftrightarrow> r = Some (c @ concat ts)"
| "grown None [] r \<longleftrightarrow> r = None"
| "grown None (t # ts) r \<longleftrightarrow> (\<exists>title. r = Some (title @ concat (t # ts)))"

lemma grown_more: "grown (Some (c @ t)) ts r \<Longrightarrow> grown (Some c) (t # ts) r"
  by simp

lemma grown_new: "grown (Some (title @ t)) ts r \<Longrightarrow> grown None (t # ts) r"
  by auto

definition texts_for :: "(nat \<Rightarrow> byte list) \<Rightarrow> byte list \<Rightarrow> (byte list \<times> nat) list \<Rightarrow> byte list list" where
  "texts_for target f ms = map fst (filter (\<lambda>m. target (snd m) = f) ms)"

lemma texts_for_Cons:
  "texts_for target f (m # ms) = (if target (snd m) = f then [fst m] else []) @ texts_for target f ms"
  by (simp add: texts_for_def)

lemma write_messages_ok:
  assumes "names_ok s as"
  shows "\<exists>fs. write_messages E ms s = ret (s\<lparr>files := fs\<rparr>) \<and>
    ((\<forall>f. fopen_ok E f) \<longrightarrow> (\<forall>f. grown (files s f) (texts_for (log_target s as) f ms) (fs f)))"
  using assms
proof (induction ms arbitrary: s)
  case Nil
  have "grown (files s f) [] (files s f)" for f by (cases "files s f") auto
  then show ?case by (intro exI [of _ "files s"]) (simp add: texts_for_def)
next
  case (Cons m ms)
  obtain tx t where m: "m = (tx, t)" by (cases m)
  let ?fn = "log_target s as t"
  obtain fs where fs: "log_file_of E t s = ret (?fn, s\<lparr>files := fs\<rparr>)"
    "\<forall>f. files s f \<noteq> None \<or> f \<noteq> ?fn \<longrightarrow> fs f = files s f"
    using log_file_of_ok [OF Cons.prems] by blast
  define s1 where "s1 = append_file E ?fn tx (s\<lparr>files := fs\<rparr>)"
  have s1: "\<exists>gs. s1 = s\<lparr>files := gs\<rparr>" by (auto simp: s1_def append_file_def)
  then have same: "thread_names s1 = thread_names s"
      "Use_separate_Files_for_every_Thread s1 = Use_separate_Files_for_every_Thread s"
      "MainLogFileName s1 = MainLogFileName s"
    by auto
  have ok: "names_ok s1 as" using Cons.prems by (simp add: names_ok_same [OF same(1)])
  have tg: "log_target s1 as = log_target s as" by (rule ext) (rule log_target_same [OF same])
  obtain hs where hs: "write_messages E ms s1 = ret (s1\<lparr>files := hs\<rparr>)"
    "(\<forall>f. fopen_ok E f) \<Longrightarrow> (\<forall>f. grown (files s1 f) (texts_for (log_target s as) f ms) (hs f))"
    using Cons.IH [OF ok] tg by auto
  have "write_messages E (m # ms) s = ret (s\<lparr>files := hs\<rparr>)"
    using fs(1) hs(1) s1 by (auto simp: m s1_def [symmetric])
  moreover have "grown (files s f) (texts_for (log_target s as) f (m # ms)) (hs f)"
    if o: "\<forall>f. fopen_ok E f" for f
  proof (cases "f = ?fn")
    case False
    then have "files s1 f = files s f" using fs(2) o by (simp add: s1_def append_file_def)
    moreover have "grown (files s1 f) (texts_for (log_target s as) f ms) (hs f)"
      using hs(2) [OF o] by blast
    ultimately show ?thesis using False by (simp add: texts_for_Cons m)
  next
    case True
    then have "files s1 f = Some ((case fs f of None \<Rightarrow> [] | Some c \<Rightarrow> c) @ tx)"
      using o by (simp add: s1_def append_file_def)
    then have g: "grown (Some ((case fs f of None \<Rightarrow> [] | Some c \<Rightarrow> c) @ tx))
        (texts_for (log_target s as) f ms) (hs f)" using hs(2) [OF o] by metis
    have t: "texts_for (log_target s as) f (m # ms) = tx # texts_for (log_target s as) f ms"
      using True by (simp add: texts_for_Cons m)
    show ?thesis
    proof (cases "files s f")
      case None
      then show ?thesis unfolding t using grown_new [OF g] by simp
    next
      case (Some c)
      then have "fs f = Some c" using fs(2) by auto
      then show ?thesis unfolding t using g Some by simp
    qed
  qed
  ultimately show ?case by blast
qed

section \<open>What a call prints\<close>

text \<open>What a format stands for, without the bounds of the buffers.\<close>

fun expansion :: "(byte \<Rightarrow> byte list) \<Rightarrow> byte list \<Rightarrow> byte list" where
  "expansion tag [] = []"
| "expansion tag [c] = [c]"
| "expansion tag (c # d # cs) =
     (if c = of_char (CHR ''$'') then tag d @ expansion tag cs else c # expansion tag (d # cs))"

lemma expand_format_expansion:
  "length out < MAX_MESSAGE_SIZE \<Longrightarrow> expand_format tag fmt out =
     (if length out + length (expansion tag fmt) < MAX_MESSAGE_SIZE
      then ret (out @ expansion tag fmt) else fail Out_Of_Bounds)"
  by (induction tag fmt out rule: expand_format.induct)
     (auto simp: format_char_def format_append_def guardR_def)

definition active_format :: "log_state \<Rightarrow> log_level \<Rightarrow> byte list" where
  "active_format s l =
     (if fst (SpecificLogFormatArray s ! level_code l) then snd (SpecificLogFormatArray s ! level_code l)
      else GeneralLogFormat s)"

lemma log_output_eq:
  "log_output E l L message formatted s =
     (if message = [] \<and> prefix L = [] then ret s
      else let out = expansion (tag_text E l L (take 2047 formatted)) (active_format s l) in
        if length out < 2048 then output_Message E l out (site_thread L) s else fail Out_Of_Bounds)"
  by (simp add: log_output_def Let_def active_format_def MAX_MESSAGE_SIZE_def
      expand_format_expansion [unfolded MAX_MESSAGE_SIZE_def])

definition message_fits :: "log_env \<Rightarrow> log_state \<Rightarrow> log_level \<Rightarrow> log_site \<Rightarrow> byte list \<Rightarrow> byte list \<Rightarrow> bool" where
  "message_fits E s l L message formatted \<longleftrightarrow> message = [] \<and> prefix L = []
     \<or> length (expansion (tag_text E l L (take 2047 formatted)) (active_format s l)) < 2048"

section \<open>Every sequence of logging calls\<close>

text \<open>
  The functions of \<^verbatim>\<open>logger.h\<close> and \<^verbatim>\<open>output_Message\<close>, with what the environment gives each of them. What
  they need: a name is registered with a string, memory is at an address not in use, only a thread with
  an entry is removed, and what a call prints fits the buffer for a message.
\<close>

datatype log_call =
    Output log_level "byte list" nat
  | Log_Message log_level log_site "byte list" "byte list"
  | Register nat "byte list" "nat option"
  | Remove nat
  | Shut_Down nat
  | Buffer_Level nat int
  | Print_Level nat u32
  | General_Format "byte list"
  | Backup_Format
  | Level_Format log_level "byte list"
  | No_Level_Format log_level
  | Start bool "(byte list \<times> bool) list option" "byte list \<Rightarrow> bool" "nat option" "byte list" "byte list" nat int

definition free_memory :: "log_state \<Rightarrow> nat option \<Rightarrow> bool" where
  "free_memory s a \<longleftrightarrow> (\<forall>p. a = Some p \<longrightarrow> heap (thread_names s) p = None)"

fun log_call_ok :: "log_env \<Rightarrow> log_state \<Rightarrow> log_call \<Rightarrow> bool" where
  "log_call_ok E s (Log_Message l L message formatted) = message_fits E s l L message formatted"
| "log_call_ok E s (Register t nm a) \<longleftrightarrow> 0 \<in> set nm \<and> free_memory s a"
| "log_call_ok E s (Remove t) = is_ret (bindR (f_find_Entry t s) (\<lambda>p. guardR (p \<noteq> None) Assert_Failed))"
| "log_call_ok E s (Shut_Down t) =
     message_fits E s Trace (logger_site ''log_shutdown'' 163 t) (bytes_of ''Shutdown'') (bytes_of ''Shutdown'')"
| "log_call_ok E s (Buffer_Level t n) \<longleftrightarrow> 0 \<le> n \<and> n \<le> 4
     \<or> message_fits E s Error (logger_site ''set_buffer_Level'' 566 t) [0]
         (bytes_of ''Input invalid Level (0 <= newLevel <= 4), input: '' @ fmt_d n)"
| "log_call_ok E s (Print_Level t n) \<longleftrightarrow>
     message_fits E s Trace (logger_site ''set_log_level'' 575 t) [0]
       (bytes_of ''Setting [log_level: '' @ level_str (level_of (unat n)) @ bytes_of '']'')
     \<and> message_fits E s Error (logger_site ''set_log_level'' 573 t) [0]
       (bytes_of ''Selected log level is out of bounds (1 <= [new_level: '' @ fmt_d (sint n) @ bytes_of ''] <= 5)'')"
| "log_call_ok E s (Start mkdir_ok dir remove_ok a nm fmt t sep) \<longleftrightarrow> free_memory s a
     \<and> message_fits E (s\<lparr>GeneralLogFormat := fmt\<rparr>) Trace (logger_site ''log_init'' 113 t) [0] (bytes_of ''Initialize'')"
| "log_call_ok E s _ = True"

fun run_log_call :: "log_env \<Rightarrow> log_call \<Rightarrow> log_state \<Rightarrow> log_state res" where
  "run_log_call E (Output l m t) s = output_Message E l m t s"
| "run_log_call E (Log_Message l L message formatted) s = log_output E l L message formatted s"
| "run_log_call E (Register t nm a) s = bindR (register_thread_log_under_Name E a t nm s) (\<lambda>r. ret (snd r))"
| "run_log_call E (Remove t) s = remove_Entry t s"
| "run_log_call E (Shut_Down t) s = log_shutdown E t s"
| "run_log_call E (Buffer_Level t n) s = set_buffer_Level E t n s"
| "run_log_call E (Print_Level t n) s = set_log_level E t n s"
| "run_log_call E (General_Format fmt) s = ret (set_Formatting fmt s)"
| "run_log_call E Backup_Format s = ret (use_Formatting_Backup s)"
| "run_log_call E (Level_Format l fmt) s = ret (Set_Format_For_Specific_Log_Level l fmt s)"
| "run_log_call E (No_Level_Format l) s = ret (Disable_Format_For_Specific_Log_Level l s)"
| "run_log_call E (Start mkdir_ok dir remove_ok a nm fmt t sep) s = log_init E mkdir_ok dir remove_ok a nm fmt t sep s"

inductive log_reachable :: "log_state \<Rightarrow> bool" where
  initial: "log_reachable log_initial"
| step: "log_reachable s \<Longrightarrow> log_call_ok E s c \<Longrightarrow> run_log_call E c s = ret s' \<Longrightarrow> log_reachable s'"

definition log_inv :: "log_state \<Rightarrow> bool" where
  "log_inv s \<longleftrightarrow> (\<exists>as. names_ok s as) \<and> \<not> LogLock s \<and> length (Log_Message_Buffer s) < 19
     \<and> log_level_for_buffer s \<le> 4"

lemma log_inv_same:
  "thread_names s' = thread_names s \<Longrightarrow> LogLock s' = LogLock s \<Longrightarrow> Log_Message_Buffer s' = Log_Message_Buffer s \<Longrightarrow>
   log_level_for_buffer s' = log_level_for_buffer s \<Longrightarrow> log_inv s' = log_inv s"
  by (simp add: log_inv_def names_ok_same [of s' s])

lemma log_inv_formats [simp]:
  "log_inv (set_Formatting fmt s) = log_inv s" "log_inv (use_Formatting_Backup s) = log_inv s"
  "log_inv (Set_Format_For_Specific_Log_Level l fmt s) = log_inv s"
  "log_inv (Disable_Format_For_Specific_Log_Level l s) = log_inv s"
  by (rule log_inv_same; simp add: set_Formatting_def use_Formatting_Backup_def
      Set_Format_For_Specific_Log_Level_def Disable_Format_For_Specific_Log_Level_def)+

lemma log_inv_initial: "log_inv log_initial"
  by (auto simp: log_inv_def names_ok_def names_at_def log_initial_def intro!: exI [of _ "[]"])

text \<open>Which messages stay in the buffer.\<close>

definition stays_buffered :: "log_state \<Rightarrow> log_level \<Rightarrow> bool" where
  "stays_buffered s l \<longleftrightarrow> length (Log_Message_Buffer s) < 18 \<and> 6 - log_level_for_buffer s \<le> level_code l"

definition printed :: "log_state \<Rightarrow> log_level \<Rightarrow> byte list \<Rightarrow> byte list" where
  "printed s l m = stdout_text s @ (if l \<le> internal_level s then m else [])"

lemma output_Message_buffered:
  assumes "log_inv s" and "stays_buffered s l"
  shows "output_Message E l m t s = ret (s\<lparr>stdout_text := printed s l m,
    Log_Message_Buffer := Log_Message_Buffer s @ [(take 2047 m, t)]\<rparr>)"
  using assms
  by (cases s) (auto simp: output_Message_def log_inv_def stays_buffered_def printed_def Let_def
      MAX_BUFFERED_MESSAGES_def MAX_MESSAGE_SIZE_def)

lemma output_Message_written:
  assumes "log_inv s" and "\<not> stays_buffered s l" and "names_ok s as"
  shows "\<exists>fs. output_Message E l m t s = ret (s\<lparr>stdout_text := printed s l m,
      Log_Message_Buffer := [], files := fs\<rparr>)
    \<and> ((\<forall>f. fopen_ok E f) \<longrightarrow> (\<forall>f. grown (files s f)
        (texts_for (log_target s as) f (Log_Message_Buffer s @ [(take 2047 m, t)])) (fs f)))"
proof -
  let ?ms = "Log_Message_Buffer s @ [(take 2047 m, t)]"
  let ?s = "s\<lparr>stdout_text := printed s l m, LogLock := True, Log_Message_Buffer := ?ms\<rparr>"
  have same: "thread_names ?s = thread_names s"
    "Use_separate_Files_for_every_Thread ?s = Use_separate_Files_for_every_Thread s"
    "MainLogFileName ?s = MainLogFileName s" by simp_all
  have tg: "log_target ?s as = log_target s as" by (rule ext) (rule log_target_same [OF same])
  obtain fs where fs: "write_messages E ?ms ?s = ret (?s\<lparr>files := fs\<rparr>)"
    "(\<forall>f. fopen_ok E f) \<longrightarrow> (\<forall>f. grown (files s f) (texts_for (log_target s as) f ?ms) (fs f))"
    using write_messages_ok [of ?s as E ?ms] assms(3) unfolding tg by auto
  have "output_Message E l m t s = bindR (write_messages E ?ms ?s)
      (\<lambda>s. ret (s\<lparr>Log_Message_Buffer := [], LogLock := False\<rparr>))"
    using assms(1,2)
    by (cases s) (auto simp: output_Message_def log_inv_def stays_buffered_def printed_def Let_def
        MAX_BUFFERED_MESSAGES_def MAX_MESSAGE_SIZE_def WriteMessagesToFile_def bindR_assoc)
  moreover have "\<not> LogLock s" using assms(1) by (simp add: log_inv_def)
  ultimately show ?thesis
    using fs by (intro exI [of _ fs]) (cases s, simp)
qed

lemma output_Message_inv:
  assumes "log_inv s"
  shows "\<exists>s'. output_Message E l m t s = ret s' \<and> log_inv s'"
proof -
  obtain as where as: "names_ok s as" using assms by (auto simp: log_inv_def)
  show ?thesis
  proof (cases "stays_buffered s l")
    case True
    then show ?thesis using assms output_Message_buffered [OF assms True]
      by (auto simp: log_inv_def stays_buffered_def)
  next
    case False
    from output_Message_written [OF assms False as, of E m t] obtain fs where
      "output_Message E l m t s = ret (s\<lparr>stdout_text := printed s l m,
        Log_Message_Buffer := [], files := fs\<rparr>)" by blast
    then show ?thesis using assms by (auto simp: log_inv_def)
  qed
qed

lemma find_key_split:
  "List.find P xs = Some x \<Longrightarrow> \<exists>us vs. xs = us @ x # vs"
  by (meson find_key_mem split_list)

text \<open>Registering a name again copies it over the old one.\<close>

lemma add_known_name:
  assumes ok: "names_ok s as" and a: "List.find (\<lambda>a. thread_id (entry_at s a) = t) as = Some a"
    and nm: "c_string nm = ret n" "length n < 256"
  shows "\<exists>h. add_Thread_Name_Mapping malloc t nm s =
      ret (Some a, s\<lparr>thread_names := (thread_names s)\<lparr>heap := h\<rparr>\<rparr>)
    \<and> dll_ok ((thread_names s)\<lparr>heap := h\<rparr>) as
    \<and> (\<forall>b. item_at h b = (if b = a then (entry_at s a)\<lparr>ename := patch (ename (entry_at s a)) 0 n\<rparr>
         else entry_at s b))"
proof -
  have at: "names_at s as" and mem: "a \<in> set as" using ok a by (auto simp: names_ok_def dest: find_key_mem)
  obtain d where d: "heap (thread_names s) a = Some d" "item d = entry_at s a"
    using at mem by (auto simp: names_at_def entry_at_def item_at_def dest: dll_ok_Some)
  have "length (ename (entry_at s a)) = 256" using ok mem by (auto simp: names_ok_def entry_ok_def)
  then have cp: "c_strncpy (ename (entry_at s a)) 0 nm (length n) = ret (patch (ename (entry_at s a)) 0 n)"
    using nm by (intro copy_string) simp_all
  obtain h where "set_item (heap (thread_names s)) (Some a)
      (\<lambda>e. e\<lparr>ename := patch (ename (entry_at s a)) 0 n\<rparr>) = ret h"
    "dll_ok ((thread_names s)\<lparr>heap := h\<rparr>) as"
    "\<forall>b. item_at h b = (if b = a then (entry_at s a)\<lparr>ename := patch (ename (entry_at s a)) 0 n\<rparr>
         else entry_at s b)"
    using set_item_ok [OF at [unfolded names_at_def] mem] by (metis entry_at_def)
  then show ?thesis
    using nm d cp a
    by (intro exI [of _ h]) (simp add: add_Thread_Name_Mapping_def f_find_Entry_at [OF at] c_strlen_def
        REGISTERED_THREAD_NAME_LEN_MAX_def)
qed

lemma entry_ok_patch:
  "entry_ok e \<Longrightarrow> length n < 256 \<Longrightarrow> entry_ok (e\<lparr>ename := patch (ename e) 0 n\<rparr>)"
  using nth_patch [of 0 n "ename e" 255] by (simp add: entry_ok_def)

lemma add_name_inv:
  assumes ok: "names_ok s as" and nm: "c_string nm = ret n" "length n < 256"
    and a: "heap (thread_names s) a = None"
  shows "\<exists>p l bs. add_Thread_Name_Mapping (Some a) t nm s = ret (p, s\<lparr>thread_names := l\<rparr>)
    \<and> names_ok (s\<lparr>thread_names := l\<rparr>) bs"
proof (cases "List.find (\<lambda>a. thread_id (entry_at s a) = t) as")
  case None
  then have "t \<notin> thread_id ` entry_at s ` set as" by (auto simp: find_None_iff)
  moreover have at: "names_at s as" using ok by (simp add: names_ok_def)
  ultimately obtain l where "add_Thread_Name_Mapping (Some a) t nm s = ret (Some a, s\<lparr>thread_names := l\<rparr>)"
    "dll_ok l (as @ [a])" "item_at (heap l) a = new_entry (t, nm)"
    "\<forall>b \<in> set as. item_at (heap l) b = entry_at s b"
    using add_new_name [OF at _ a nm] by blast
  moreover have "entry_ok (new_entry (t, nm))"
    using nm by (intro entry_ok_new) (simp add: short_string_def REGISTERED_THREAD_NAME_LEN_MAX_def)
  ultimately show ?thesis
    using ok by (intro exI [of _ "Some a"] exI [of _ l] exI [of _ "as @ [a]"])
      (auto simp: names_ok_def names_at_def entry_at_def)
next
  case (Some b)
  from add_known_name [OF ok Some nm, of "Some a"] obtain h where
    h: "add_Thread_Name_Mapping (Some a) t nm s = ret (Some b, s\<lparr>thread_names := (thread_names s)\<lparr>heap := h\<rparr>\<rparr>)"
    "dll_ok ((thread_names s)\<lparr>heap := h\<rparr>) as"
    "\<forall>c. item_at h c = (if c = b then (entry_at s b)\<lparr>ename := patch (ename (entry_at s b)) 0 n\<rparr>
         else entry_at s c)" by blast
  have "entry_ok (entry_at s b)" using ok Some by (auto simp: names_ok_def dest: find_key_mem)
  from entry_ok_patch [OF this nm(2)] h ok show ?thesis
    by (intro exI [of _ "Some b"] exI [of _ "(thread_names s)\<lparr>heap := h\<rparr>"] exI [of _ as])
       (simp add: names_ok_def names_at_def entry_at_def)
qed

lemma named_log_short: "length (named_log nm) < 256"
  by (simp add: named_log_def file_name_def REGISTERED_THREAD_NAME_LEN_MAX_def)

lemma named_log_string: "0 \<notin> set nm \<Longrightarrow> c_string (named_log nm @ [0]) = ret (named_log nm)"
proof -
  assume "0 \<notin> set nm"
  then have "0 \<notin> set (directoryName @ bytes_of ''/'' @ nm @ bytes_of ''.log'')"
    by (simp add: directoryName_def bytes_of_def)
  then have "0 \<notin> set (named_log nm)" unfolding named_log_def file_name_def by (meson in_set_takeD)
  then show ?thesis by (rule c_string_app)
qed

lemma add_any_name_inv:
  assumes ok: "names_ok s as" and nm: "c_string nm = ret n" "length n < 256" and a: "free_memory s a"
  shows "\<exists>p l bs. add_Thread_Name_Mapping a t nm s = ret (p, s\<lparr>thread_names := l\<rparr>)
    \<and> names_ok (s\<lparr>thread_names := l\<rparr>) bs"
proof (cases a)
  case (Some b)
  then show ?thesis using add_name_inv [OF ok nm, of b] a by (simp add: free_memory_def)
next
  case None
  have at: "names_at s as" using ok by (simp add: names_ok_def)
  show ?thesis
  proof (cases "List.find (\<lambda>a. thread_id (entry_at s a) = t) as")
    case None
    moreover have "s\<lparr>thread_names := thread_names s\<rparr> = s" by simp
    ultimately show ?thesis
      using ok nm \<open>a = None\<close>
      by (intro exI [of _ None] exI [of _ "thread_names s"] exI [of _ as])
         (simp add: add_Thread_Name_Mapping_def f_find_Entry_at [OF at] c_strlen_def)
  next
    case (Some b)
    from add_known_name [OF ok Some nm, of a] obtain h where
      h: "add_Thread_Name_Mapping a t nm s = ret (Some b, s\<lparr>thread_names := (thread_names s)\<lparr>heap := h\<rparr>\<rparr>)"
      "dll_ok ((thread_names s)\<lparr>heap := h\<rparr>) as"
      "\<forall>c. item_at h c = (if c = b then (entry_at s b)\<lparr>ename := patch (ename (entry_at s b)) 0 n\<rparr>
           else entry_at s c)" by blast
    have "entry_ok (entry_at s b)" using ok Some by (auto simp: names_ok_def dest: find_key_mem)
    from entry_ok_patch [OF this nm(2)] h ok show ?thesis
      by (intro exI [of _ "Some b"] exI [of _ "(thread_names s)\<lparr>heap := h\<rparr>"] exI [of _ as])
         (simp add: names_ok_def names_at_def entry_at_def)
  qed
qed

lemma register_any_ok:
  assumes "log_inv s" and "c_string nm = ret n" and "free_memory s a"
  shows "\<exists>k s'. register_thread_log_under_Name E a t nm s = ret (k, s') \<and> log_inv s'"
proof -
  obtain as where as: "names_ok s as" using assms(1) by (auto simp: log_inv_def)
  from add_any_name_inv [OF as named_log_string [OF c_string_nonzero [OF assms(2)]] named_log_short assms(3)]
  obtain p l bs where p: "add_Thread_Name_Mapping a t (named_log n @ [0]) s = ret (p, s\<lparr>thread_names := l\<rparr>)"
    "names_ok (s\<lparr>thread_names := l\<rparr>) bs" by blast
  then show ?thesis
    using assms(1,2)
    by (auto simp: register_thread_log_under_Name_def Let_def log_inv_def split: option.split)
qed

lemma register_ok:
  assumes "log_inv s" and "c_string nm = ret n" and "heap (thread_names s) a = None"
  shows "\<exists>k s'. register_thread_log_under_Name E (Some a) t nm s = ret (k, s') \<and> log_inv s'"
  using register_any_ok [OF assms(1,2), of "Some a"] assms(3) by (simp add: free_memory_def)

lemma remove_ok:
  assumes inv: "log_inv s" and known: "f_find_Entry t s = ret (Some p)"
  shows "\<exists>s'. remove_Entry t s = ret s' \<and> log_inv s'"
proof -
  obtain as where as: "names_ok s as" using inv by (auto simp: log_inv_def)
  then have at: "names_at s as" by (simp add: names_ok_def)
  have "List.find (\<lambda>a. thread_id (entry_at s a) = t) as = Some p" using known by (simp add: f_find_Entry_at [OF at])
  from find_key_split [OF this] obtain xs ys where l: "as = xs @ p # ys" by blast
  obtain d where d: "dll_unlink p (thread_names s) = ret d" "dll_ok d (xs @ ys)"
    "\<forall>b \<in> set (xs @ ys). item_at (heap d) b = item_at (heap (thread_names s)) b"
    using dll_unlink_ok [OF at [unfolded names_at_def l]] by blast
  have "names_ok (s\<lparr>thread_names := d\<rparr>) (xs @ ys)"
    using as d(2,3) l by (auto simp: names_ok_def names_at_def entry_at_def)
  moreover have "f_find_Entry t (s\<lparr>LogLock := True\<rparr>) = ret (Some p)" using known by (simp add: f_find_Entry_def)
  ultimately show ?thesis
    using inv d(1) names_ok_same [of "s\<lparr>thread_names := d, LogLock := False\<rparr>" "s\<lparr>thread_names := d\<rparr>" "xs @ ys"]
    by (auto simp: remove_Entry_def Let_def log_inv_def)
qed

lemma log_output_ok:
  assumes "log_inv s" and "message_fits E s l L m f" and "m = [] \<longleftrightarrow> m' = []"
  shows "\<exists>s'. log_output E l L m' f s = ret s' \<and> log_inv s'"
  using assms output_Message_inv [OF assms(1)] by (auto simp: log_output_eq message_fits_def Let_def)

lemma write_out_ok: "log_inv s \<Longrightarrow> \<exists>s'. WriteMessagesToFile E s = ret s' \<and> log_inv s'"
proof -
  assume inv: "log_inv s"
  then obtain as where as: "names_ok s as" by (auto simp: log_inv_def)
  from write_messages_ok [OF as, of E "Log_Message_Buffer s"] obtain fs where
    "WriteMessagesToFile E s = ret (s\<lparr>files := fs\<rparr>)" by (auto simp: WriteMessagesToFile_def)
  moreover have "names_ok (s\<lparr>files := fs\<rparr>) as" using as by simp
  ultimately show ?thesis using inv unfolding log_inv_def by fastforce
qed

lemma output_Message_names:
  assumes "log_inv s" and "output_Message E l m t s = ret s'"
  shows "thread_names s' = thread_names s"
proof -
  obtain as where as: "names_ok s as" using assms(1) by (auto simp: log_inv_def)
  show ?thesis
    using output_Message_buffered [OF assms(1), of l E m t]
      output_Message_written [OF assms(1) _ as, of l E m t] assms(2)
    by (cases "stays_buffered s l") auto
qed

lemma log_output_keeps_names:
  "log_inv s \<Longrightarrow> log_output E l L message formatted s = ret s' \<Longrightarrow> thread_names s' = thread_names s"
  by (auto simp: log_output_eq Let_def split: if_splits dest: output_Message_names)

lemma set_level_inv:
  assumes inv: "log_inv s" and ok: "log_call_ok E s (Print_Level t n)"
  shows "\<exists>s'. set_log_level E t n s = ret s' \<and> log_inv s'"
proof (cases "unat n < LL_MAX_NUM \<and> unat n > level_code Fatal")
  case True
  from log_output_ok [OF inv, of E Trace "logger_site ''set_log_level'' 575 t" "[0]" _
      "bytes_of ''Setting [log_level: %s]''"] ok obtain s1 where
    s1: "log_output E Trace (logger_site ''set_log_level'' 575 t) (bytes_of ''Setting [log_level: %s]'')
      (bytes_of ''Setting [log_level: '' @ level_str (level_of (unat n)) @ bytes_of '']'') s = ret s1" "log_inv s1"
    by (auto simp: bytes_of_def)
  have "log_output E Debug (logger_site ''set_log_level'' 573 t) [] [] s = ret s"
    by (simp add: log_output_def logger_site_def site_def)
  then show ?thesis
    using True s1 log_inv_same [of "s1\<lparr>internal_level := level_of (unat n)\<rparr>" s1] by (simp add: set_log_level_def)
next
  case False
  from log_output_ok [OF inv, of E Error "logger_site ''set_log_level'' 573 t" "[0]" _
      "bytes_of ''Selected log level is out of bounds (1 <= [new_level: %d] <= 5)''"] ok False
  show ?thesis by (auto simp: set_log_level_def bytes_of_def)
qed

lemma remove_files_frame: "\<exists>fs. snd (remove_files remove_ok dirName es s) = s\<lparr>files := fs\<rparr>"
proof (induction es arbitrary: s)
  case Nil
  show ?case by (simp, rule exI [of _ "files s"], simp)
next
  case (Cons e es)
  obtain d r where e: "e = (d, r)" by (cases e)
  have "\<exists>fs. s = s\<lparr>files := fs\<rparr>" by (rule exI [of _ "files s"]) simp
  moreover have "\<exists>fs. snd (remove_files remove_ok dirName es (s\<lparr>files := g\<rparr>)) = s\<lparr>files := fs\<rparr>" for g
    using Cons.IH [of "s\<lparr>files := g\<rparr>"] by auto
  ultimately show ?case using Cons.IH [of s] by (simp add: e Let_def)
qed

lemma start_inv:
  assumes inv: "log_inv s" and ok: "log_call_ok E s (Start mkdir_ok dir remove_ok a nm fmt t sep)"
  shows "\<exists>s'. log_init E mkdir_ok dir remove_ok a nm fmt t sep s = ret s' \<and> log_inv s'"
proof -
  define s1 where "s1 = (let s = s\<lparr>MainLogFileName := nm, GeneralLogFormat := fmt,
      Use_separate_Files_for_every_Thread := (sep \<noteq> 0)\<rparr>
    in if mkdir_ok then s\<lparr>stdout_text := stdout_text s @ bytes_of ''Folder created successfully.'' @ [10]\<rparr> else s)"
  define s2 where "s2 = snd (remove_all_Files_In_Directory dir remove_ok directoryName s1)"
  have "\<exists>fs. s2 = s1\<lparr>files := fs\<rparr>"
  proof (cases dir)
    case None
    have "s2 = s1\<lparr>files := files s1\<rparr>" using None by (simp add: s2_def remove_all_Files_In_Directory_def)
    then show ?thesis by (rule exI [of _ "files s1"])
  next
    case (Some es)
    then show ?thesis using remove_files_frame by (simp add: s2_def remove_all_Files_In_Directory_def)
  qed
  then obtain fs where fs: "s2 = s1\<lparr>files := fs\<rparr>" by blast
  have f: "thread_names s2 = thread_names s" "LogLock s2 = LogLock s" "Log_Message_Buffer s2 = Log_Message_Buffer s"
    "log_level_for_buffer s2 = log_level_for_buffer s" "GeneralLogFormat s2 = fmt"
    "SpecificLogFormatArray s2 = SpecificLogFormatArray s"
    by (cases mkdir_ok; simp add: fs s1_def)+
  have inv2: "log_inv s2" using inv f by (simp add: log_inv_same [of s2 s])
  have "active_format s2 Trace = active_format (s\<lparr>GeneralLogFormat := fmt\<rparr>) Trace" using f by (simp add: active_format_def)
  then have "message_fits E s2 Trace (logger_site ''log_init'' 113 t) [0] (bytes_of ''Initialize'')"
    using ok by (simp add: message_fits_def)
  from log_output_ok [OF inv2 this, of "bytes_of ''Initialize''"] obtain s3 where
    s3: "log_output E Trace (logger_site ''log_init'' 113 t) (bytes_of ''Initialize'') (bytes_of ''Initialize'') s2 = ret s3"
    "log_inv s3" by (auto simp: bytes_of_def)
  have "thread_names s3 = thread_names s2" using log_output_keeps_names [OF inv2 s3(1)] .
  then have "free_memory s3 a" using ok f by (simp add: free_memory_def)
  moreover have "c_string (nm @ [0]) = ret (takeWhile (\<lambda>c. c \<noteq> 0) (nm @ [0]))" by (simp add: c_string_def)
  ultimately obtain k s4 where "register_thread_log_under_Name E a t (nm @ [0]) s3 = ret (k, s4)" "log_inv s4"
    using register_any_ok [OF s3(2)] by blast
  then show ?thesis using s3(1) by (simp add: log_init_def Let_def s1_def s2_def)
qed

lemma log_call_inv:
  assumes "log_inv s" and "log_call_ok E s c"
  shows "\<exists>s'. run_log_call E c s = ret s' \<and> log_inv s'"
proof (cases c)
  case (Output l m t)
  then show ?thesis using output_Message_inv [OF assms(1)] by simp
next
  case (Log_Message l L m f)
  then show ?thesis using log_output_ok [OF assms(1)] assms(2) by simp
next
  case (Register t nm a)
  then have "c_string nm = ret (takeWhile (\<lambda>c. c \<noteq> 0) nm)" and a: "free_memory s a"
    using assms(2) by (auto simp: c_string_def)
  from register_any_ok [OF assms(1) this, of E t] Register show ?thesis by auto
next
  case (Remove t)
  then obtain p where "f_find_Entry t s = ret (Some p)"
    using assms(2) by (auto simp: is_ret_def bindR_ret_iff split: option.splits sum.splits)
  then show ?thesis using remove_ok [OF assms(1)] Remove by simp
next
  case (Shut_Down t)
  from log_output_ok [OF assms(1), of E Trace "logger_site ''log_shutdown'' 163 t" "bytes_of ''Shutdown''"
      "bytes_of ''Shutdown''" "bytes_of ''Shutdown''"] Shut_Down assms(2)
  obtain s1 where "log_output E Trace (logger_site ''log_shutdown'' 163 t) (bytes_of ''Shutdown'') (bytes_of ''Shutdown'') s
    = ret s1" "log_inv s1" by auto
  then show ?thesis using write_out_ok Shut_Down by (simp add: log_shutdown_def)
next
  case (Buffer_Level t n)
  show ?thesis
  proof (cases "0 \<le> n \<and> n \<le> 4")
    case True
    then show ?thesis using assms(1) Buffer_Level by (auto simp: set_buffer_Level_def log_inv_def)
  next
    case False
    with log_output_ok [OF assms(1), of E Error "logger_site ''set_buffer_Level'' 566 t" "[0]" _
        "bytes_of ''Input invalid Level (0 <= newLevel <= 4), input: %d''"] assms(2) Buffer_Level
    show ?thesis by (auto simp: set_buffer_Level_def bytes_of_def)
  qed
next
  case (Print_Level t n)
  then show ?thesis using set_level_inv assms by simp
next
  case (Start mkdir_ok dir remove_ok a nm fmt t sep)
  then show ?thesis using start_inv assms by simp
qed (use assms(1) in simp_all)

lemma log_reachable_inv: "log_reachable s \<Longrightarrow> log_inv s"
proof (induction rule: log_reachable.induct)
  case initial
  show ?case by (rule log_inv_initial)
next
  case (step s c E s')
  with log_call_inv [of s c E] show ?case by auto
qed

section \<open>Properties\<close>

text \<open>C36: Logging never stops the server as long as what is printed fits: after any sequence of calls of
  the logger's functions from the start (messages, starts and shutdowns, registrations and removals of
  threads, levels of any value, formats), with any failures of the file system and of memory, every
  further such call returns normally, with the mutex free and room in the buffer for the next message.
  The calls are those in which each name is a string, new memory is not in use, a removed thread has an
  entry, and a message printed through the format, in which every tag counts with what it stands for, is
  shorter than the 2048 bytes of its buffer; without the last two the calls do not return in order.\<close>

theorem logging_never_fails:
  assumes "log_reachable s" and "log_call_ok E s c"
  shows "\<exists>s'. run_log_call E c s = ret s' \<and> log_reachable s' \<and> \<not> LogLock s'
    \<and> length (Log_Message_Buffer s') < MAX_BUFFERED_MESSAGES - 1"
proof -
  from log_call_inv [OF log_reachable_inv [OF assms(1)] assms(2)] obtain s'
    where s': "run_log_call E c s = ret s'" "log_inv s'" by blast
  moreover have "log_reachable s'" by (rule log_reachable.step [OF assms s'(1)])
  ultimately show ?thesis by (auto simp: log_inv_def MAX_BUFFERED_MESSAGES_def)
qed

definition example_log_env :: log_env where
  "example_log_env = \<lparr>tm_year = 124, tm_mon = 0, tm_mday = 12, tm_hour = 19, tm_min = 44, tm_sec = 21,
     tv_nsec = 7000000, fopen_ok = (\<lambda>_. True), rename_ok = True, malloc_ok = True\<rparr>"

theorem logging_never_fails_witness:
  "\<exists>s'. run_log_call example_log_env (Register 9 (bytes_of ''main'' @ [0]) (Some 0)) log_initial = ret s'
    \<and> \<not> LogLock s'"
proof -
  have "log_call_ok example_log_env log_initial (Register 9 (bytes_of ''main'' @ [0]) (Some 0))"
    by (simp add: free_memory_def log_initial_def dll_empty_def)
  from logging_never_fails [OF log_reachable.initial this] show ?thesis by blast
qed

text \<open>One message: it stays in the buffer, or the whole buffer is written out.\<close>

lemma output_reaches_its_file:
  assumes "log_inv s" and "names_ok s as" and "\<forall>f. fopen_ok E f"
  shows "\<exists>fs b ws. output_Message E l m t s = ret (s\<lparr>stdout_text := printed s l m, Log_Message_Buffer := b, files := fs\<rparr>)
    \<and> Log_Message_Buffer s @ [(take 2047 m, t)] = ws @ b
    \<and> (\<forall>f. grown (files s f) (texts_for (log_target s as) f ws) (fs f))"
proof (cases "stays_buffered s l")
  case True
  have "grown (files s f) [] (files s f)" for f by (cases "files s f") auto
  moreover have "s\<lparr>files := files s\<rparr> = s" by simp
  ultimately show ?thesis
    using output_Message_buffered [OF assms(1) True, of E m t]
    by (intro exI [of _ "files s"] exI [of _ "Log_Message_Buffer s @ [(take 2047 m, t)]"] exI [of _ "[]"])
       (simp add: texts_for_def)
next
  case False
  from output_Message_written [OF assms(1) False assms(2), of E m t] assms(3) obtain fs where
    "output_Message E l m t s = ret (s\<lparr>stdout_text := printed s l m, Log_Message_Buffer := [], files := fs\<rparr>)"
    "\<forall>f. grown (files s f) (texts_for (log_target s as) f (Log_Message_Buffer s @ [(take 2047 m, t)])) (fs f)" by blast
  then show ?thesis
    by (intro exI [of _ fs] exI [of _ "[]"] exI [of _ "Log_Message_Buffer s @ [(take 2047 m, t)]"]) simp
qed

lemma grown_append: "grown a ts b \<Longrightarrow> grown b us c \<Longrightarrow> grown a (ts @ us) c"
  by (cases a; cases ts; cases b) auto

lemma texts_for_append: "texts_for target f (ms @ ns) = texts_for target f ms @ texts_for target f ns"
  by (simp add: texts_for_def)

text \<open>Messages one after another, what is kept of each, and what they print.\<close>

fun output_all :: "log_env \<Rightarrow> (log_level \<times> byte list \<times> nat) list \<Rightarrow> log_state \<Rightarrow> log_state res" where
  "output_all E [] s = ret s"
| "output_all E ((l, m, t) # ms) s = bindR (output_Message E l m t s) (output_all E ms)"

definition kept_text :: "log_level \<times> byte list \<times> nat \<Rightarrow> byte list \<times> nat" where
  "kept_text x = (take 2047 (fst (snd x)), snd (snd x))"

definition printed_text :: "log_level \<Rightarrow> log_level \<times> byte list \<times> nat \<Rightarrow> byte list" where
  "printed_text lv x = (if fst x \<le> lv then fst (snd x) else [])"

lemma outputs_reach_their_files:
  assumes "log_inv s" and "names_ok s as" and "\<forall>f. fopen_ok E f"
  shows "\<exists>fs b ws. output_all E ms s = ret (s\<lparr>stdout_text := stdout_text s @ concat (map (printed_text (internal_level s)) ms),
        Log_Message_Buffer := b, files := fs\<rparr>)
    \<and> Log_Message_Buffer s @ map kept_text ms = ws @ b
    \<and> (\<forall>f. grown (files s f) (texts_for (log_target s as) f ws) (fs f))"
  using assms(1,2)
proof (induction ms arbitrary: s)
  case Nil
  have "grown (files s f) [] (files s f)" for f by (cases "files s f") auto
  moreover have "s\<lparr>stdout_text := stdout_text s, Log_Message_Buffer := Log_Message_Buffer s, files := files s\<rparr> = s" by simp
  ultimately show ?case
    by (intro exI [of _ "files s"] exI [of _ "Log_Message_Buffer s"] exI [of _ "[]"]) (simp add: texts_for_def)
next
  case (Cons x ms)
  obtain l m t where x: "x = (l, m, t)" by (cases x)
  obtain fs b ws where o: "output_Message E l m t s = ret (s\<lparr>stdout_text := printed s l m, Log_Message_Buffer := b, files := fs\<rparr>)"
    "Log_Message_Buffer s @ [(take 2047 m, t)] = ws @ b" "\<forall>f. grown (files s f) (texts_for (log_target s as) f ws) (fs f)"
    using output_reaches_its_file [OF Cons.prems assms(3)] by blast
  let ?s = "s\<lparr>stdout_text := printed s l m, Log_Message_Buffer := b, files := fs\<rparr>"
  have inv: "log_inv ?s" using output_Message_inv [OF Cons.prems(1), of E l m t] o(1) by simp
  have ok: "names_ok ?s as" using Cons.prems(2) by simp
  have tg: "log_target ?s as = log_target s as" by (rule ext) (rule log_target_same, simp_all)
  obtain fs' b' ws' where r: "output_all E ms ?s = ret (?s\<lparr>stdout_text := stdout_text ?s @ concat (map (printed_text (internal_level ?s)) ms),
      Log_Message_Buffer := b', files := fs'\<rparr>)"
    "Log_Message_Buffer ?s @ map kept_text ms = ws' @ b'" "\<forall>f. grown (files ?s f) (texts_for (log_target s as) f ws') (fs' f)"
    using Cons.IH [OF inv ok] tg by auto
  have "Log_Message_Buffer s @ map kept_text (x # ms) = (ws @ ws') @ b'"
    using o(2) r(2) by (simp add: x kept_text_def) (metis append.assoc append_Cons append_Nil)
  moreover have "grown (files s f) (texts_for (log_target s as) f (ws @ ws')) (fs' f)" for f
    using grown_append o(3) r(3) by (simp add: texts_for_append) blast
  moreover have "output_all E (x # ms) s = ret (s\<lparr>stdout_text := stdout_text s @ concat (map (printed_text (internal_level s)) (x # ms)),
      Log_Message_Buffer := b', files := fs'\<rparr>)"
    using o(1) r(1) by (simp add: x printed_def printed_text_def)
  ultimately show ?case by blast
qed

text \<open>C37: Messages reach their files in order, each once: when every file can be opened and
  nothing waits in the buffer, any sequence of messages prints those of an enabled level, and with each
  message cut to 2047 bytes the sequence has two parts: the first messages, up to some point, have been
  written out, each one at the end of the file of its thread and in no other file, in their order, and
  nothing else was added but the titles of new files; the messages after that point are in the buffer in
  their order, fewer than 19 of them.\<close>

theorem messages_reach_their_files:
  assumes "log_reachable s" and "names_ok s as" and "\<forall>f. fopen_ok E f" and "Log_Message_Buffer s = []"
  shows "\<exists>s' written. output_all E ms s = ret s'
    \<and> map (\<lambda>(l, m, t). (take 2047 m, t)) ms = written @ Log_Message_Buffer s'
    \<and> length (Log_Message_Buffer s') < 19
    \<and> stdout_text s' = stdout_text s @ concat (map (\<lambda>(l, m, t). if l \<le> internal_level s then m else []) ms)
    \<and> (\<forall>f. grown (files s f) (texts_for (log_target s as) f written) (files s' f))"
proof -
  have inv: "log_inv s" by (rule log_reachable_inv [OF assms(1)])
  obtain fs b ws where o: "output_all E ms s = ret (s\<lparr>stdout_text := stdout_text s @ concat (map (printed_text (internal_level s)) ms),
        Log_Message_Buffer := b, files := fs\<rparr>)" "map kept_text ms = ws @ b"
    "\<forall>f. grown (files s f) (texts_for (log_target s as) f ws) (fs f)"
    using outputs_reach_their_files [OF inv assms(2,3), of ms] assms(4) by auto
  have "log_inv s' \<Longrightarrow> output_all E ms s' = ret s'' \<Longrightarrow> log_inv s''" for s' s''
  proof (induction ms arbitrary: s')
    case (Cons x ms)
    obtain l m t where x: "x = (l, m, t)" by (cases x)
    obtain s1 where "output_Message E l m t s' = ret s1" "log_inv s1" using output_Message_inv [OF Cons.prems(1)] by blast
    then show ?case using Cons.IH [of s1] Cons.prems(2) by (simp add: x)
  qed simp
  from this [OF inv o(1)] have "length b < 19" by (simp add: log_inv_def)
  moreover have "(\<lambda>(l, m, t). (take 2047 m, t)) = kept_text" by (auto simp: kept_text_def)
  moreover have "(\<lambda>(l, m, t). if l \<le> internal_level s then m else []) = printed_text (internal_level s)"
    by (auto simp: printed_text_def)
  ultimately show ?thesis
    using o by (intro exI [of _ "s\<lparr>stdout_text := stdout_text s @ concat (map (printed_text (internal_level s)) ms),
        Log_Message_Buffer := b, files := fs\<rparr>"] exI [of _ ws]) simp
qed

theorem messages_reach_their_files_witness:
  "\<exists>s' title. output_all example_log_env [(Info, [72, 105], 9), (Trace, [33], 9)] log_initial = ret s'
    \<and> stdout_text s' = [72, 105, 33] \<and> Log_Message_Buffer s' = []
    \<and> files s' (bytes_of ''./logs/thread_log_9.log'') = Some (title @ [72, 105, 33])"
proof -
  let ?ms = "[(Info, [72, 105], 9), (Trace, [33], 9)] :: (log_level \<times> byte list \<times> nat) list"
  have "names_ok log_initial []" by (simp add: names_ok_def names_at_def log_initial_def)
  moreover have "\<forall>f. fopen_ok example_log_env f" by (simp add: example_log_env_def)
  moreover have "Log_Message_Buffer log_initial = []" by (simp add: log_initial_def)
  ultimately obtain s' written where s': "output_all example_log_env ?ms log_initial = ret s'"
    "map (\<lambda>(l, m, t). (take 2047 m, t)) ?ms = written @ Log_Message_Buffer s'"
    "stdout_text s' = stdout_text log_initial @ concat (map (\<lambda>(l, m, t). if l \<le> internal_level log_initial then m else []) ?ms)"
    "\<forall>f. grown (files log_initial f) (texts_for (log_target log_initial []) f written) (files s' f)"
    using messages_reach_their_files [OF log_reachable.initial, of "[]" example_log_env ?ms] by blast
  have "Log_Message_Buffer (the_ret (output_all example_log_env ?ms log_initial)) = []" by code_simp
  then have b: "Log_Message_Buffer s' = []" using s'(1) by (simp add: the_ret_def)
  have w: "written = [([72, 105], 9), ([33], 9)]" using s'(2) b by simp
  have f: "log_target log_initial [] 9 = bytes_of ''./logs/thread_log_9.log''" by code_simp
  have "stdout_text log_initial @ concat (map (\<lambda>(l, m, t). if l \<le> internal_level log_initial then m else []) ?ms) = [72, 105, 33]"
    by code_simp
  moreover have "grown (files log_initial (log_target log_initial [] 9))
      (texts_for (log_target log_initial []) (log_target log_initial [] 9) written) (files s' (log_target log_initial [] 9))"
    using s'(4) ..
  moreover have "files log_initial x = None" for x by (simp add: log_initial_def)
  ultimately show ?thesis using s'(1,3) b unfolding w by (auto simp: f texts_for_def)
qed

lemma output_Message_level:
  assumes "log_inv s" and "output_Message E l m t s = ret s'"
  shows "log_inv s' \<and> internal_level s' = internal_level s"
proof -
  obtain as where as: "names_ok s as" using assms(1) by (auto simp: log_inv_def)
  have "internal_level s' = internal_level s"
    using output_Message_buffered [OF assms(1), of l E m t]
      output_Message_written [OF assms(1) _ as, of l E m t] assms(2)
    by (cases "stays_buffered s l") auto
  with output_Message_inv [OF assms(1), of E l m t] assms(2) show ?thesis by auto
qed

lemma log_output_level:
  "log_inv s \<Longrightarrow> log_output E l L message formatted s = ret s' \<Longrightarrow>
   log_inv s' \<and> internal_level s' = internal_level s"
  by (auto simp: log_output_eq Let_def split: if_splits dest: output_Message_level)

text \<open>C38: In every reachable state of the logger, a log call with a text or a prefix outputs the active
  format of its level with every tag replaced by what it stands for and every other byte copied, exactly
  when the result fits the 2048 bytes of the message with its terminator; when it does not, the call
  writes past its buffer.\<close>

theorem log_output_expands_the_format:
  assumes "log_reachable s" and "message \<noteq> [] \<or> prefix L \<noteq> []"
  shows "let out = expansion (tag_text E l L (take 2047 formatted)) (active_format s l) in
    if length out < 2048
    then \<exists>s'. log_output E l L message formatted s = ret s' \<and> stdout_text s' = printed s l out
    else log_output E l L message formatted s = fail Out_Of_Bounds"
proof -
  have inv: "log_inv s" by (rule log_reachable_inv [OF assms(1)])
  then obtain as where as: "names_ok s as" by (auto simp: log_inv_def)
  have "\<exists>s'. output_Message E l m t s = ret s' \<and> stdout_text s' = printed s l m" for m t
    using output_Message_buffered [OF inv, of l E m t] output_Message_written [OF inv _ as, of l E m t]
    by (cases "stays_buffered s l") auto
  then show ?thesis using assms(2) by (auto simp: log_output_eq Let_def)
qed

theorem log_output_expands_the_format_witness:
  "\<exists>s'. log_output example_log_env Info (logger_site ''f'' 7 9) [72, 105] [72, 105] log_initial = ret s'
    \<and> stdout_text s' = bytes_of ''[Default] ['' @ [27] @ bytes_of ''[1;32mf: 7'' @ [27]
        @ bytes_of ''[0;39m] - '' @ [27] @ bytes_of ''[1;32mHi'' @ [27] @ bytes_of ''[0;39m'' @ [10]"
proof -
  let ?out = "expansion (tag_text example_log_env Info (logger_site ''f'' 7 9) (take 2047 [72, 105]))
    (active_format log_initial Info)"
  have "length ?out < 2048" by code_simp
  moreover have "printed log_initial Info ?out = bytes_of ''[Default] ['' @ [27] @ bytes_of ''[1;32mf: 7'' @ [27]
        @ bytes_of ''[0;39m] - '' @ [27] @ bytes_of ''[1;32mHi'' @ [27] @ bytes_of ''[0;39m'' @ [10]"
    by code_simp
  ultimately show ?thesis
    using log_output_expands_the_format [OF log_reachable.initial, of "[72, 105]" "logger_site ''f'' 7 9"
        example_log_env Info "[72, 105]"]
    by (simp add: Let_def)
qed

text \<open>\<open>set_log_level\<close> with 1 to 5 makes exactly the levels up to that number be printed from then on;
  any other number leaves what is printed as it was.\<close>

theorem set_log_level_decides_what_is_printed:
  assumes "log_reachable s" and "set_log_level E t n s = ret s'"
  shows "l \<le> internal_level s' \<longleftrightarrow>
    (if 1 \<le> unat n \<and> unat n \<le> 5 then level_code l \<le> unat n else l \<le> internal_level s)"
proof -
  have inv: "log_inv s" by (rule log_reachable_inv [OF assms(1)])
  have code: "level_code (level_of k) = k" if "k < 6" for k
    using that by (auto simp: less_Suc_eq eval_nat_numeral)
  show ?thesis
  proof (cases "1 \<le> unat n \<and> unat n \<le> 5")
    case True
    then have "unat n < LL_MAX_NUM" "unat n > 0" by (auto simp: LL_MAX_NUM_def)
    then have "internal_level s' = level_of (unat n)"
      using assms(2) by (auto simp: set_log_level_def bindR_ret_iff)
    then show ?thesis using True code [of "unat n"] by (simp add: less_eq_log_level_def)
  next
    case False
    then have "\<not> (unat n < LL_MAX_NUM \<and> unat n > level_code Fatal)" by (auto simp: LL_MAX_NUM_def)
    then have "internal_level s' = internal_level s"
      using assms(2) log_output_level [OF inv] unfolding set_log_level_def by auto
    then show ?thesis using False by auto
  qed
qed

theorem set_log_level_decides_what_is_printed_witness:
  "\<exists>s'. set_log_level example_log_env 9 2 log_initial = ret s' \<and> Warn \<le> internal_level s' \<and> \<not> Info \<le> internal_level s'"
proof -
  have "is_ret (set_log_level example_log_env 9 2 log_initial)" by code_simp
  then obtain s' where s': "set_log_level example_log_env 9 2 log_initial = ret s'"
    by (blast dest: is_ret_the)
  from set_log_level_decides_what_is_printed [OF log_reachable.initial this] s' show ?thesis by auto
qed

text \<open>Registering a thread again under a shorter name does not rename its log: the new file name is
  copied over the old one without a terminator, and the thread's messages go to a file whose name is
  the new one followed by the end of the old one.\<close>

theorem second_registration_keeps_the_tail:
  assumes "log_reachable s" and "names_rep s (es @ e # fs)" and "thread_id e \<notin> thread_id ` set es"
    and "c_string nm = ret n"
  shows "\<exists>k s'. register_thread_log_under_Name E malloc (thread_id e) nm s = ret (k, s')
    \<and> (\<exists>as. names_ok s' as \<and> (Use_separate_Files_for_every_Thread s \<longrightarrow>
         log_target s' as (thread_id e) =
           named_log n @ takeWhile (\<lambda>c. c \<noteq> 0) (drop (length (named_log n)) (ename e))))"
proof -
  obtain as where ok: "names_ok s as" using log_reachable_inv [OF assms(1)] by (auto simp: log_inv_def)
  then have at: "names_at s as" by (simp add: names_ok_def)
  obtain bs where bs: "names_at s bs" "es @ e # fs = map (entry_at s) bs"
    using assms(2) by (auto simp: names_rep_at)
  then have "bs = as" using at dll_ok_unique by (auto simp: names_at_def)
  then obtain xs p ys where l: "as = xs @ p # ys" "es = map (entry_at s) xs" "e = entry_at s p"
    using bs(2) by (auto simp: map_eq_append_conv Cons_eq_map_conv append_eq_map_conv)
  have p: "List.find (\<lambda>a. thread_id (entry_at s a) = thread_id e) as = Some p"
    using assms(3) l by (induction xs arbitrary: es as) auto
  have str: "c_string (named_log n @ [0]) = ret (named_log n)"
    by (rule named_log_string [OF c_string_nonzero [OF assms(4)]])
  obtain h where h: "add_Thread_Name_Mapping malloc (thread_id e) (named_log n @ [0]) s =
      ret (Some p, s\<lparr>thread_names := (thread_names s)\<lparr>heap := h\<rparr>\<rparr>)"
    "dll_ok ((thread_names s)\<lparr>heap := h\<rparr>) as"
    "\<forall>b. item_at h b = (if b = p then (entry_at s p)\<lparr>ename := patch (ename (entry_at s p)) 0 (named_log n)\<rparr>
         else entry_at s b)"
    using add_known_name [OF ok p str named_log_short] by blast
  let ?s = "s\<lparr>thread_names := (thread_names s)\<lparr>heap := h\<rparr>\<rparr>"
  have ent: "entry_at ?s b = (if b = p then e\<lparr>ename := patch (ename e) 0 (named_log n)\<rparr> else entry_at s b)" for b
    using h(3) by (simp add: entry_at_def l(3))
  have okp: "entry_ok e" using ok l by (simp add: names_ok_def)
  have ok': "names_ok ?s as"
    using ok h(2) entry_ok_patch [OF okp named_log_short]
    by (auto simp: names_ok_def names_at_def ent)
  have "thread_id (entry_at ?s b) = thread_id (entry_at s b)" for b by (simp add: ent l(3))
  then have "List.find (\<lambda>a. thread_id (entry_at ?s a) = thread_id e) as = Some p"
    using p by simp
  moreover have "entry_file (e\<lparr>ename := patch (ename e) 0 (named_log n)\<rparr>) =
      named_log n @ takeWhile (\<lambda>c. c \<noteq> 0) (drop (length (named_log n)) (ename e))"
  proof -
    have "takeWhile (\<lambda>c. c \<noteq> 0) (named_log n @ r) = named_log n @ takeWhile (\<lambda>c. c \<noteq> 0) r" for r
      using c_string_nonzero [OF str] by (intro takeWhile_append2) auto
    then show ?thesis by (simp add: entry_file_def patch_def)
  qed
  ultimately have tg: "Use_separate_Files_for_every_Thread s \<longrightarrow> log_target ?s as (thread_id e) =
      named_log n @ takeWhile (\<lambda>c. c \<noteq> 0) (drop (length (named_log n)) (ename e))"
    by (simp add: log_target_def ent)
  obtain k fs' where reg: "register_thread_log_under_Name E malloc (thread_id e) nm s = ret (k, ?s\<lparr>files := fs'\<rparr>)"
  proof (cases "files s (thread_log_name (thread_id e)) = None \<or> \<not> rename_ok E")
    case True
    have "?s\<lparr>files := files s\<rparr> = ?s" by simp
    then show ?thesis using h(1) assms(4) True that [of "-1" "files s"]
      by (auto simp: register_thread_log_under_Name_def Let_def split: option.split)
  next
    case False
    then show ?thesis using h(1) assms(4) that
      by (auto simp: register_thread_log_under_Name_def Let_def)
  qed
  have "log_target (?s\<lparr>files := fs'\<rparr>) as = log_target ?s as"
    by (rule ext) (rule log_target_same, simp_all)
  moreover have "names_ok (?s\<lparr>files := fs'\<rparr>) as" using ok' by simp
  ultimately have "names_ok (?s\<lparr>files := fs'\<rparr>) as \<and> (Use_separate_Files_for_every_Thread s \<longrightarrow>
      log_target (?s\<lparr>files := fs'\<rparr>) as (thread_id e) =
        named_log n @ takeWhile (\<lambda>c. c \<noteq> 0) (drop (length (named_log n)) (ename e)))"
    using tg by simp
  with reg show ?thesis by blast
qed

theorem second_registration_keeps_the_tail_witness:
  "\<exists>s0 k s' as. register_thread_log_under_Name example_log_env (Some 0) 9 (bytes_of ''anna'' @ [0]) log_initial
       = ret (-1, s0)
    \<and> register_thread_log_under_Name example_log_env None 9 (bytes_of ''bo'' @ [0]) s0 = ret (k, s')
    \<and> log_target s' as 9 = bytes_of ''./logs/bo.logog''"
proof -
  let ?r = "register_thread_log_under_Name example_log_env (Some 0) 9 (bytes_of ''anna'' @ [0]) log_initial"
  let ?s = "snd (the_ret ?r)"
  have "is_ret ?r" by code_simp
  moreover have "fst (the_ret ?r) = -1" by code_simp
  ultimately have r: "?r = ret (-1, ?s)" by (metis is_ret_the prod.collapse)
  have "log_call_ok example_log_env log_initial (Register 9 (bytes_of ''anna'' @ [0]) (Some 0))"
    by (simp add: free_memory_def log_initial_def dll_empty_def)
  moreover have "run_log_call example_log_env (Register 9 (bytes_of ''anna'' @ [0]) (Some 0)) log_initial = ret ?s"
    unfolding run_log_call.simps by (subst r) simp
  ultimately have reach: "log_reachable ?s" by (rule log_reachable.step [OF log_reachable.initial])
  have at: "names_at ?s [0]"
  proof -
    obtain as where as: "names_at ?s as"
      using log_reachable_inv [OF reach] by (auto simp: log_inv_def names_ok_def)
    have "dseg (heap (thread_names ?s)) (dfront (thread_names ?s)) None [0] None (dback (thread_names ?s))"
      by code_simp
    moreover have "dseg (heap (thread_names ?s)) (dfront (thread_names ?s)) None as None (dback (thread_names ?s))"
      using as by (simp only: names_at_def dll_ok_def)
    ultimately have "as = [0]" using dseg_unique by metis
    with as show ?thesis by simp
  qed
  have "\<not> LogLock ?s" by code_simp
  then have rep: "names_rep ?s ([] @ entry_at ?s 0 # [])"
    using at by (auto simp: names_rep_at)
  have t: "thread_id (entry_at ?s 0) = 9" by code_simp
  have n: "c_string (bytes_of ''bo'' @ [0]) = ret (bytes_of ''bo'')" by code_simp
  have sep: "Use_separate_Files_for_every_Thread ?s" by code_simp
  have "named_log (bytes_of ''bo'') @ takeWhile (\<lambda>c. c \<noteq> 0)
      (drop (length (named_log (bytes_of ''bo''))) (ename (entry_at ?s 0))) = bytes_of ''./logs/bo.logog''"
    by code_simp
  then show ?thesis
    using second_registration_keeps_the_tail [OF reach rep _ n, of example_log_env None] r t sep by auto
qed

text \<open>\<open>remove_Entry\<close> of a thread without an entry returns with the mutex held: every later log message
  blocks for ever.\<close>

theorem removing_an_unknown_thread_blocks:
  assumes "names_rep s es" and "t \<notin> thread_id ` set es"
  shows "\<exists>s'. remove_Entry t s = ret s' \<and> (\<forall>E l m th. output_Message E l m th s' = fail Deadlock)
    \<and> (\<forall>th. remove_Entry th s' = fail Deadlock)"
proof -
  obtain as where as: "names_at s as" "es = map (entry_at s) as" and free: "\<not> LogLock s"
    using assms(1) by (auto simp: names_rep_at)
  then have "f_find_Entry t s = ret None"
    using assms(2) by (simp add: f_find_Entry_at find_key_None image_image)
  then have "remove_Entry t s = ret (s\<lparr>LogLock := True\<rparr>)"
    using free by (simp add: remove_Entry_def f_find_Entry_def Let_def)
  then show ?thesis by (simp add: output_Message_def remove_Entry_def Let_def)
qed

theorem removing_an_unknown_thread_blocks_witness:
  "\<exists>s'. remove_Entry 9 log_initial = ret s' \<and> output_Message example_log_env Info [72] 9 s' = fail Deadlock"
proof -
  have "names_rep log_initial []" by (simp add: names_rep_def log_initial_def)
  from removing_an_unknown_thread_blocks [OF this, of 9] show ?thesis by auto
qed

end
