(* ===== verification/Log_Macros.thy ===== *)
theory Log_Macros
  imports Logger
begin

text \<open>
  The macros of \<^verbatim>\<open>src/src/core/logger.h\<close> the rest of the program logs with. Which of them expand to
  something is decided when the program is compiled, by \<^verbatim>\<open>LOG_LEVEL_ENABLED\<close>; here it is the argument
  \<open>en\<close>, so that what is shown holds for every setting of it. The level that \<^verbatim>\<open>set_log_level\<close> sets while the
  program runs comes on top of that: it decides what is printed of what is compiled.
\<close>

section \<open>The macros\<close>

text \<open>The conditions around the macros of the levels.\<close>

fun compiled :: "nat \<Rightarrow> log_level \<Rightarrow> bool" where
  "compiled en Fatal = True"
| "compiled en Error = True"
| "compiled en Warn = (en \<ge> 1)"
| "compiled en Info = (en \<ge> 2)"
| "compiled en Debug = (en \<ge> 3)"
| "compiled en Trace = (en \<ge> 4)"

definition CL_LOG ::
    "log_env \<Rightarrow> nat \<Rightarrow> log_level \<Rightarrow> log_site \<Rightarrow> byte list \<times> byte list \<Rightarrow> log_state \<Rightarrow> log_state res" where
  "CL_LOG E en level L message s =
     (if compiled en level then log_output E level (L\<lparr>prefix := []\<rparr>) (fst message) (snd message) s else ret s)"

definition CL_LOG_FUNC_START ::
    "log_env \<Rightarrow> nat \<Rightarrow> log_site \<Rightarrow> byte list \<times> byte list \<Rightarrow> log_state \<Rightarrow> log_state res" where
  "CL_LOG_FUNC_START E en L message s =
     (if en \<ge> 4 then log_output E Trace (L\<lparr>prefix := bytes_of ''START ''\<rparr>) (fst message) (snd message) s
      else ret s)"

definition CL_LOG_FUNC_END ::
    "log_env \<Rightarrow> nat \<Rightarrow> log_site \<Rightarrow> byte list \<times> byte list \<Rightarrow> log_state \<Rightarrow> log_state res" where
  "CL_LOG_FUNC_END E en L message s =
     (if en \<ge> 4 then log_output E Trace (L\<lparr>prefix := bytes_of ''END ''\<rparr>) (fst message) (snd message) s
      else ret s)"

definition CL_SEPARATOR :: "log_env \<Rightarrow> nat \<Rightarrow> nat \<Rightarrow> log_state \<Rightarrow> log_state res" where
  "CL_SEPARATOR E en thread s = (if en \<ge> 4 then print_Separator E thread s else ret s)"

definition CL_SEPARATOR_BIG :: "log_env \<Rightarrow> nat \<Rightarrow> nat \<Rightarrow> log_state \<Rightarrow> log_state res" where
  "CL_SEPARATOR_BIG E en thread s = (if en \<ge> 4 then print_Separator_Big E thread s else ret s)"

text \<open>\<open>abortCommand\<close> is whatever the caller writes there, and \<open>rest\<close> what it does after the macro.\<close>

definition CL_VALIDATE ::
    "log_env \<Rightarrow> nat \<Rightarrow> log_site \<Rightarrow> bool \<Rightarrow> byte list \<times> byte list \<Rightarrow> byte list \<times> byte list
     \<Rightarrow> (log_state \<Rightarrow> 'r res) \<Rightarrow> (log_state \<Rightarrow> 'r res) \<Rightarrow> log_state \<Rightarrow> 'r res" where
  "CL_VALIDATE E en L expr messageSuccess messageFailure abortCommand rest s =
     (if expr then bindR (CL_LOG E en Debug L messageSuccess s) rest
      else bindR (CL_LOG E en Error L messageFailure s) abortCommand)"

text \<open>
  The break of a failed assertion: an instruction that traps with the compilers that are known to have
  one, and nothing with another compiler.
\<close>

datatype compiler = GNUC_Or_Clang | MSC_VER | Unsupported_Platform

datatype 'a at_break = Goes_On 'a | Trapped 'a

fun MY_DEBUG_BREAK :: "compiler \<Rightarrow> 'a \<Rightarrow> 'a at_break" where
  "MY_DEBUG_BREAK GNUC_Or_Clang s = Trapped s"
| "MY_DEBUG_BREAK MSC_VER s = Trapped s"
| "MY_DEBUG_BREAK Unsupported_Platform s = Goes_On s"

definition CL_ASSERT ::
    "log_env \<Rightarrow> nat \<Rightarrow> compiler \<Rightarrow> log_site \<Rightarrow> bool \<Rightarrow> byte list \<times> byte list \<Rightarrow> byte list \<times> byte list
     \<Rightarrow> log_state \<Rightarrow> log_state at_break res" where
  "CL_ASSERT E en cc L expr messageSuccess messageFailure s =
     (if expr then bindR (CL_LOG E en Trace L messageSuccess s) (\<lambda>s. ret (Goes_On s))
      else bindR (CL_LOG E en Fatal L messageFailure s) (\<lambda>s. ret (MY_DEBUG_BREAK cc s)))"

text \<open>The start declares a variable for its time, which is what the other one reads.\<close>

definition CL_FUNC_DURATION_START ::
    "log_env \<Rightarrow> nat \<Rightarrow> log_time_exact \<Rightarrow> log_state \<Rightarrow> (log_time_exact \<times> log_state) res" where
  "CL_FUNC_DURATION_START E thread time_now s = Calc_Func_Duration_Start E thread time_now s"

definition CL_FUNC_DURATION ::
    "log_env \<Rightarrow> nat \<Rightarrow> log_time_exact \<Rightarrow> log_time_exact \<Rightarrow> log_state \<Rightarrow> log_state res" where
  "CL_FUNC_DURATION E thread Log_Duration_Calc_Struct_Start time_now s =
     Calc_Func_Duration E thread Log_Duration_Calc_Struct_Start time_now s"

text \<open>What the messages show of a pointer and, from \<^verbatim>\<open>defines.h\<close>, of a truth value.\<close>

definition bool_To_String :: "bool \<Rightarrow> byte list" where
  "bool_To_String boolValue = (if boolValue then bytes_of '' true'' else bytes_of ''false'')"

definition ptr_To_String :: "nat option \<Rightarrow> byte list" where
  "ptr_To_String pointer = (if pointer = None then bytes_of '' NULL'' else bytes_of ''valid'')"

section \<open>What is compiled\<close>

text \<open>The table in the comment on \<^verbatim>\<open>LOG_LEVEL_ENABLED\<close>: a setting enables one level more than its number.\<close>

lemma compiled_table: "compiled en l \<longleftrightarrow> level_code l \<le> Suc en"
  by (cases l) auto

lemma highest_setting [simp]: "4 \<le> LOG_LEVEL_ENABLED"
  by (simp add: LOG_LEVEL_ENABLED_def)

lemma everything_is_compiled [simp]: "compiled LOG_LEVEL_ENABLED l"
  by (cases l) (simp_all add: LOG_LEVEL_ENABLED_def)

text \<open>The calls of the macros that only log, in any order.\<close>

datatype macro_call =
    Log log_level log_site "byte list \<times> byte list"
  | Func_Start log_site "byte list \<times> byte list"
  | Func_End log_site "byte list \<times> byte list"
  | Separator nat
  | Separator_Big nat

fun macro_level :: "macro_call \<Rightarrow> log_level" where
  "macro_level (Log l L m) = l"
| "macro_level _ = Trace"

fun expand_macro :: "log_env \<Rightarrow> nat \<Rightarrow> macro_call \<Rightarrow> log_state \<Rightarrow> log_state res" where
  "expand_macro E en (Log l L m) s = CL_LOG E en l L m s"
| "expand_macro E en (Func_Start L m) s = CL_LOG_FUNC_START E en L m s"
| "expand_macro E en (Func_End L m) s = CL_LOG_FUNC_END E en L m s"
| "expand_macro E en (Separator t) s = CL_SEPARATOR E en t s"
| "expand_macro E en (Separator_Big t) s = CL_SEPARATOR_BIG E en t s"

fun run_macros :: "log_env \<Rightarrow> nat \<Rightarrow> macro_call list \<Rightarrow> log_state \<Rightarrow> log_state res" where
  "run_macros E en [] s = ret s"
| "run_macros E en (c # cs) s = bindR (expand_macro E en c s) (run_macros E en cs)"

lemmas macro_defs = CL_LOG_def CL_LOG_FUNC_START_def CL_LOG_FUNC_END_def CL_SEPARATOR_def CL_SEPARATOR_BIG_def

lemma not_compiled_is_nothing: "\<not> compiled en (macro_level c) \<Longrightarrow> expand_macro E en c s = ret s"
  by (cases c) (simp_all add: macro_defs)

lemma compiled_is_everything:
  "compiled en (macro_level c) \<Longrightarrow> expand_macro E en c s = expand_macro E LOG_LEVEL_ENABLED c s"
  by (cases c) (simp_all add: macro_defs)

text \<open>
  A program compiled with a lower setting does what it does with the highest one after the calls above
  its setting are taken out: none of the others is lost, changed or moved.
\<close>

theorem lower_setting_leaves_calls_out:
  "run_macros E en cs s =
     run_macros E LOG_LEVEL_ENABLED (filter (\<lambda>c. level_code (macro_level c) \<le> Suc en) cs) s"
proof (induction cs arbitrary: s)
  case (Cons c cs)
  show ?case
  proof (cases "compiled en (macro_level c)")
    case True
    with Cons show ?thesis by (simp add: compiled_table compiled_is_everything cong: bindR_cong)
  next
    case False
    with Cons show ?thesis by (simp add: compiled_table not_compiled_is_nothing)
  qed
qed simp

section \<open>Logging through the macros\<close>

text \<open>What a call puts out when it is compiled, if it puts out anything.\<close>

fun macro_text :: "log_env \<Rightarrow> log_state \<Rightarrow> macro_call \<Rightarrow> byte list option" where
  "macro_text E s (Log l L m) = (if fst m = [] then None
     else Some (expansion (tag_text E l (L\<lparr>prefix := []\<rparr>) (take 2047 (snd m))) (active_format s l)))"
| "macro_text E s (Func_Start L m) =
     Some (expansion (tag_text E Trace (L\<lparr>prefix := bytes_of ''START ''\<rparr>) (take 2047 (snd m))) (active_format s Trace))"
| "macro_text E s (Func_End L m) =
     Some (expansion (tag_text E Trace (L\<lparr>prefix := bytes_of ''END ''\<rparr>) (take 2047 (snd m))) (active_format s Trace))"
| "macro_text E s (Separator t) = Some separator"
| "macro_text E s (Separator_Big t) = Some separator_Big"

fun macro_thread :: "macro_call \<Rightarrow> nat" where
  "macro_thread (Log l L m) = site_thread L"
| "macro_thread (Func_Start L m) = site_thread L"
| "macro_thread (Func_End L m) = site_thread L"
| "macro_thread (Separator t) = t"
| "macro_thread (Separator_Big t) = t"

lemma separators_fit: "length separator < 2048" "length separator_Big < 2048"
  by (simp_all add: separator_def separator_Big_def)

lemma expand_macro_eq:
  assumes "compiled en (macro_level c)"
  shows "expand_macro E en c s = (case macro_text E s c of None \<Rightarrow> ret s
    | Some m \<Rightarrow> if length m < 2048 then output_Message E (macro_level c) m (macro_thread c) s else fail Out_Of_Bounds)"
  using assms separators_fit
  by (cases c) (simp_all add: macro_defs log_output_eq Let_def print_Separator_def print_Separator_Big_def bytes_of_def)

text \<open>
  A logging macro returns with the logger in order when its message fits into the buffer; a macro that is
  not compiled needs nothing.
\<close>

theorem macro_keeps_logger_in_order:
  assumes "log_inv s"
    and "\<And>m. compiled en (macro_level c) \<Longrightarrow> macro_text E s c = Some m \<Longrightarrow> length m < 2048"
  shows "\<exists>s'. expand_macro E en c s = ret s' \<and> log_inv s' \<and> internal_level s' = internal_level s"
proof (cases "compiled en (macro_level c)")
  case False
  then show ?thesis using assms(1) by (simp add: not_compiled_is_nothing)
next
  case True
  show ?thesis
  proof (cases "macro_text E s c")
    case None
    then show ?thesis using assms(1) by (simp add: expand_macro_eq [OF True])
  next
    case (Some m)
    from output_Message_inv [OF assms(1)] obtain s' where
      s': "output_Message E (macro_level c) m (macro_thread c) s = ret s'" by blast
    then show ?thesis
      using assms(2) [OF True Some] Some output_Message_level [OF assms(1) s']
      by (simp add: expand_macro_eq [OF True])
  qed
qed

text \<open>
  A validation goes on with the rest or with its command, never with both, on the state the message
  left; and a failed assertion has put its message out before it traps, whatever the setting.
\<close>

lemma validation_decides:
  "CL_VALIDATE E LOG_LEVEL_ENABLED L expr ok bad abort rest s =
     bindR (CL_LOG E LOG_LEVEL_ENABLED (if expr then Debug else Error) L (if expr then ok else bad) s)
       (if expr then rest else abort)"
  by (simp add: CL_VALIDATE_def)

lemma failed_assertion_traps:
  assumes "cc \<noteq> Unsupported_Platform"
    and "log_output E Fatal (L\<lparr>prefix := []\<rparr>) (fst bad) (snd bad) s = ret s'"
  shows "CL_ASSERT E en cc L False ok bad s = ret (Trapped s')"
  using assms by (cases cc) (simp_all add: CL_ASSERT_def CL_LOG_def)

text \<open>The two macros around a piece of code log the difference of the times they are given.\<close>

lemma durations_are_differences:
  assumes "CL_FUNC_DURATION_START E thread before s = ret (start, s1)"
  shows "CL_FUNC_DURATION E thread start after s2 =
    log_output E Trace (logger_site ''Calc_Func_Duration'' 670 thread) (bytes_of ''Ending %s'')
      (bytes_of ''Ending '' @ duration_text (time_difference after before)) s2"
  using assms
  by (auto simp: CL_FUNC_DURATION_START_def CL_FUNC_DURATION_def Calc_Func_Duration_def Calc_Func_Duration_Start_def
      bindR_ret_iff)

end
