(* ===== verification/Client.thy ===== *)
theory Client
  imports Broadcast Commands Logger
begin

text \<open>
  \<^verbatim>\<open>src/src/clientthread.c\<close>: the thread of a connected client. Its globals, every handler of its
  loop, the loop over what the socket gives, and the way out. The state extends the one the
  broadcast agent shares; the calls of the logging macros are left out, except for the
  registration of the thread's log file, which is kept with the logger's state.
\<close>

section \<open>State\<close>

text \<open>
  The globals \<^verbatim>\<open>self\<close>, \<^verbatim>\<open>connection_status\<close>, \<^verbatim>\<open>msg\<close>, \<^verbatim>\<open>msg_length\<close> and \<^verbatim>\<open>disconnect_reason\<close>,
  with \<open>msg\<close> and \<open>msg_length\<close> the contents of the memory the two pointers own, the sockets that
  were closed, the configuration and the logger.
\<close>

record server_state = broadcast_state +
  self :: "nat option"
  connection_status :: int
  msg :: "byte list"
  msg_length :: u16
  disconnect_reason :: client_disconnect_code
  closed_socks :: "u16 list"
  conf :: config
  logs :: log_state

text \<open>
  What the system gives one round of the loop: what \<^verbatim>\<open>recv\<close> and \<^verbatim>\<open>read\<close> find on the socket,
  whether \<^verbatim>\<open>mq_send\<close> succeeds, the memory for a thread name, and the environments of sending and
  logging.
\<close>

record round_input =
  header_io :: io
  body_io :: io
  mq_send_ok :: bool
  entry_memory :: "nat option"
  net_env :: env
  file_env :: log_env
  own_thread :: nat

section \<open>Small steps\<close>

definition clear_msg :: "server_state \<Rightarrow> server_state" where
  "clear_msg st = st\<lparr>msg := msg_zero\<rparr>"

definition self_sock :: "server_state \<Rightarrow> u16 res" where
  "self_sock st = user_sock (self st) (ustore st)"

text \<open>\<^verbatim>\<open>network_Send(self->sock, msg)\<close>.\<close>

definition send_self :: "env \<Rightarrow> server_state \<Rightarrow> server_state res" where
  "send_self E st = bindR (self_sock st) (\<lambda>sk. send_to E sk (msg st) st)"

text \<open>\<^verbatim>\<open>build_Server_response(msg, ...)\<close> of a formatted text, and the same followed by the sending.\<close>

definition respond :: "env \<Rightarrow> byte list \<Rightarrow> server_state \<Rightarrow> server_state res" where
  "respond E formatted st =
     bindR (build_Server_response E (get_server_name (conf st)) (msg st) formatted) (\<lambda>m.
       ret (st\<lparr>msg := m\<rparr>))"

definition respond_self :: "env \<Rightarrow> byte list \<Rightarrow> server_state \<Rightarrow> server_state res" where
  "respond_self E formatted st = bindR (respond E formatted st) (send_self E)"

text \<open>Sending the message to the users a test admits.\<close>

definition send_if ::
    "env \<Rightarrow> (nat \<Rightarrow> server_state \<Rightarrow> bool res) \<Rightarrow> nat \<Rightarrow> server_state \<Rightarrow> (bool \<times> server_state) res" where
  "send_if E test target st =
     bindR (test target st) (\<lambda>c.
       if c then bindR (user_sock (Some target) (ustore st)) (\<lambda>sk.
                 bindR (send_to E sk (msg st) st) (\<lambda>st. ret (False, st)))
       else ret (False, st))"

definition logged_in_test :: "nat \<Rightarrow> server_state \<Rightarrow> bool res" where
  "logged_in_test target st = is_User_LoggedIn (Some target) (ustore st)"

section \<open>Names\<close>

text \<open>The comparisons are on a signed \<^verbatim>\<open>char\<close>.\<close>

definition forbidden_char :: "byte \<Rightarrow> bool" where
  "forbidden_char c \<longleftrightarrow> sint c < 33 \<or> c = 34 \<or> c = 39 \<or> c = 96 \<or> sint c \<ge> 127"

fun forbidden_from :: "byte list \<Rightarrow> bool" where
  "forbidden_from [] = False"
| "forbidden_from (c # cs) = (if forbidden_char c then True else forbidden_from cs)"

definition f_Name_has_forbidden_char :: "byte list \<Rightarrow> bool res" where
  "f_Name_has_forbidden_char nm = bindR (c_string nm) (\<lambda>s. ret (forbidden_from s))"

section \<open>Login\<close>

text \<open>\<^verbatim>\<open>*msg_length - 5\<close> is an \<^verbatim>\<open>int\<close>, converted to the type of the parameter it is passed for.\<close>

definition name_size :: "u16 \<Rightarrow> nat" where
  "name_size len = nat ((int (unat len) - 5) mod 2 ^ 64)"

definition login_response_for :: "byte list \<Rightarrow> server_state \<Rightarrow> (login_response_code \<times> server_state) res" where
  "login_response_for login_name st =
     (let response_Code = LR_success in
      bindR (is_name_free login_name (ustore st)) (\<lambda>(free, us).
      (let st = st\<lparr>ustore := us\<rparr>;
           response_Code = (if free then response_Code else LR_name_taken) in
      bindR (f_Name_has_forbidden_char login_name) (\<lambda>bad.
        ret (if bad then LR_name_invalid else response_Code, st)))))"

definition old_user_body :: "env \<Rightarrow> nat \<Rightarrow> server_state \<Rightarrow> (bool \<times> server_state) res" where
  "old_user_body E target st =
     bindR (if Some target \<noteq> self st then is_User_LoggedIn (Some target) (ustore st) else ret False) (\<lambda>c.
       if c
       then bindR (get_User_name (Some target) (ustore st)) (\<lambda>nm.
            bindR (get_User_name_length (Some target) (ustore st)) (\<lambda>len.
            bindR (build_User_Added E (msg st) nm len False) (\<lambda>m.
            bindR (send_self E (st\<lparr>msg := m\<rparr>)) (\<lambda>st.
              ret (False, clear_msg st)))))
       else ret (False, st))"

definition announce_login :: "round_input \<Rightarrow> server_state \<Rightarrow> server_state res" where
  "announce_login R st =
     (let E = net_env R in
      bindR (get_User_name (self st) (ustore st)) (\<lambda>nm.
      bindR (get_User_name_length (self st) (ustore st)) (\<lambda>len.
      bindR (build_User_Added E (msg st) nm len True) (\<lambda>m.
      (let st = st\<lparr>msg := m\<rparr>;
           st = snd (broadcast_message (mq_send_ok R) (msg st) None st)
       in over_users (old_user_body E) (clear_msg st))))))"

definition handle_login :: "round_input \<Rightarrow> server_state \<Rightarrow> server_state res" where
  "handle_login R st =
     (let E = net_env R in
      bindR (c_strncpy (replicate NET_NAME_LEN 0) 0 (drop off_auth_name (msg st))
               (name_size (msg_length st))) (\<lambda>login_name.
      bindR (login_response_for login_name st) (\<lambda>(response_Code, st).
      bindR (build_login_response E (get_server_name (conf st)) (msg st) response_Code) (\<lambda>m.
      bindR (send_self E (st\<lparr>msg := m\<rparr>)) (\<lambda>st.
      (let st = clear_msg st in
       if response_Code = LR_success then
         bindR (login_User (self st) login_name (of_nat (name_size (msg_length st))) (ustore st)) (\<lambda>(_, us).
         (let st = st\<lparr>ustore := us\<rparr> in
         bindR (get_User_name (self st) (ustore st)) (\<lambda>nm.
         bindR (register_thread_log_under_Name (file_env R) (entry_memory R) (own_thread R) nm (logs st))
           (\<lambda>(_, lg).
             announce_login R (clear_msg (st\<lparr>logs := lg\<rparr>))))))
       else ret st))))))"

section \<open>Chat texts\<close>

definition handle_message :: "round_input \<Rightarrow> server_state \<Rightarrow> server_state res" where
  "handle_message R st =
     (let E = net_env R in
      bindR (get_User_name (self st) (ustore st)) (\<lambda>nm.
      bindR (get_User_name_length (self st) (ustore st)) (\<lambda>len.
      bindR (build_Server_to_client E (msg st) (msg_length st) nm len) (\<lambda>m.
      (let st = st\<lparr>msg := m\<rparr>;
           (sent, st) = broadcast_message (mq_send_ok R) (msg st) None st
       in if sent then ret st
          else respond_self E (bytes_of ''Message Queue is sadly full, wait for admin to resume chat'') st)))))"

section \<open>The administrator's commands\<close>

text \<open>
  The loop of the kick also sets the flag \<^verbatim>\<open>found_name\<close>, so its state is a pair. The name to kick is
  \<open>None\<close> while it is uninitialised.
\<close>

interpretation kick: user_access "\<lambda>p :: bool \<times> server_state. ustore (snd p)"
  "\<lambda>s p. (fst p, (snd p)\<lparr>ustore := s\<rparr>)"
  by unfold_locales simp_all

definition kick_body ::
    "byte list option \<Rightarrow> nat \<Rightarrow> bool \<times> server_state \<Rightarrow> (bool \<times> bool \<times> server_state) res" where
  "kick_body name_to_kick target p =
     (let (found_name, st) = p in
      bindR (get_User_name (Some target) (ustore st)) (\<lambda>nm.
      (case name_to_kick of
         None \<Rightarrow> fail Uninit_Read
       | Some nk \<Rightarrow>
           bindR (c_streq nm nk) (\<lambda>eq.
           bindR (if eq then is_User_LoggedIn (Some target) (ustore st) else ret False) (\<lambda>c.
             if c
             then bindR (user_sock (Some target) (ustore st)) (\<lambda>sk.
                  (let st = st\<lparr>closed_socks := closed_socks st @ [sk]\<rparr> in
                  bindR (user_should_shutdown (Some target) (ustore st)) (\<lambda>us.
                    ret (True, True, st\<lparr>ustore := us\<rparr>))))
             else ret (False, found_name, st))))))"

definition command_kick :: "env \<Rightarrow> server_state \<Rightarrow> server_state res" where
  "command_kick E st =
     bindR (kick_argument (drop off_text (msg st))) (\<lambda>name_to_kick.
     bindR (ITERATE_OVER_USERS (\<lambda>p. ustore (snd p)) (\<lambda>s p. (fst p, (snd p)\<lparr>ustore := s\<rparr>))
              (kick_body name_to_kick) (False, st)) (\<lambda>(found_name, st).
       if found_name then ret st
       else (case name_to_kick of
               None \<Rightarrow> fail Uninit_Read
             | Some nk \<Rightarrow>
                 bindR (c_string nk) (\<lambda>s.
                   respond_self E (bytes_of ''[name: '' @ s @ bytes_of ''] is not in user list'') st))))"

definition command_pause :: "env \<Rightarrow> server_state \<Rightarrow> server_state res" where
  "command_pause E st =
     (if Is_broadcast_paused st then respond_self E (bytes_of ''Server is already paused'') st
      else bindR (pause_broadcast st) (\<lambda>st.
           bindR (respond E (bytes_of ''admin has paused the server'') st) (\<lambda>st.
             over_users (send_if E logged_in_test) st)))"

definition command_resume :: "env \<Rightarrow> server_state \<Rightarrow> server_state res" where
  "command_resume E st =
     (if \<not> Is_broadcast_paused st
      then respond_self E (bytes_of ''Server is not paused, [/resume] makes no sense'') st
      else bindR (respond E (bytes_of ''admin has resumed the server'') st) (\<lambda>st.
           bindR (over_users (send_if E logged_in_test) st) (\<lambda>st.
             ret (resume_broadcast st))))"

definition help_body :: "env \<Rightarrow> AC_Command_Data \<Rightarrow> server_state \<Rightarrow> server_state res" where
  "help_body E d st =
     bindR (build_Server_response_Special E (msg st) (bytes_of (ac_syntax d) @ [0])
              (bytes_of (ac_description d))) (\<lambda>m.
     bindR (send_self E (st\<lparr>msg := m\<rparr>)) (\<lambda>st. ret (clear_msg st)))"

definition command_help :: "env \<Rightarrow> server_state \<Rightarrow> server_state res" where
  "command_help E st = ITERATE_OVER_ADMIN_COMMANDS (help_body E) st"

definition command_invalid :: "env \<Rightarrow> server_state \<Rightarrow> server_state res" where
  "command_invalid E st =
     bindR (c_string (drop off_text (msg st))) (\<lambda>s.
       respond_self E (bytes_of ''Caution! detected invalid [server_commands] '' @ s) st)"

text \<open>\<^verbatim>\<open>AC_Shutdown\<close> has no case of its own.\<close>

definition handle_command :: "round_input \<Rightarrow> server_state \<Rightarrow> server_state res" where
  "handle_command R st =
     (let E = net_env R in
      bindR (get_User_name (self st) (ustore st)) (\<lambda>nm.
      bindR (c_streq nm (get_admin_name (conf st))) (\<lambda>is_admin.
        if \<not> is_admin
        then respond_self E (bytes_of ''Caution! You dont have required permissions for [server_commands]'') st
        else bindR (get_server_command (drop off_text (msg st))) (\<lambda>admin_code.
          (case admin_code of
             AC_Kick \<Rightarrow> command_kick E st
           | AC_Pause \<Rightarrow> command_pause E st
           | AC_Resume \<Rightarrow> command_resume E st
           | AC_Help \<Rightarrow> command_help E st
           | _ \<Rightarrow> command_invalid E st)))))"

section \<open>The loop\<close>

definition handle_invalid :: "server_state \<Rightarrow> server_state res" where
  "handle_invalid st = bindR (user_should_shutdown (self st) (ustore st)) (\<lambda>us. ret (st\<lparr>ustore := us\<rparr>))"

definition dispatch :: "round_input \<Rightarrow> network_validation_code \<Rightarrow> server_state \<Rightarrow> server_state res" where
  "dispatch R ValidationCode st =
     (case ValidationCode of
        NV_Received_login \<Rightarrow> handle_login R st
      | NV_Received_Message \<Rightarrow> handle_message R st
      | NV_Received_Server_command \<Rightarrow> handle_command R st
      | NV_unset \<Rightarrow> ret st
      | _ \<Rightarrow> handle_invalid st)"

text \<open>One round; the first component is whether the loop goes on.\<close>

definition client_round :: "round_input \<Rightarrow> server_state \<Rightarrow> (bool \<times> server_state) res" where
  "client_round R st =
     (let st = clear_msg st in
      bindR (self_sock st) (\<lambda>_.
      bindR (Check_for_Message (header_io R) (msg st)) (\<lambda>(got, m).
      (let st = st\<lparr>connection_status := got, msg := m\<rparr> in
       if connection_status st \<le> 0 then ret (False, st)
       else let st = st\<lparr>msg_length := ntohs (host (net_env R)) (hdr_length (host (net_env R)) (msg st))\<rparr> in
         bindR (network_Receive (net_env R) (body_io R) (msg st)) (\<lambda>(ValidationCode, m).
         bindR (dispatch R ValidationCode (st\<lparr>msg := m\<rparr>)) (\<lambda>st. ret (True, st)))))))"

text \<open>
  The rounds for a list of inputs; the thread still waits for the next message when they are used
  up, and has left the loop when the first component is false.
\<close>

fun client_loop :: "round_input list \<Rightarrow> server_state \<Rightarrow> (bool \<times> server_state) res" where
  "client_loop [] st = ret (True, st)"
| "client_loop (R # Rs) st =
     bindR (client_round R st) (\<lambda>(go_on, st). if go_on then client_loop Rs st else ret (False, st))"

section \<open>Start and end of the thread\<close>

definition others_test :: "nat \<Rightarrow> server_state \<Rightarrow> bool res" where
  "others_test target st =
     bindR (is_User_LoggedIn (Some target) (ustore st)) (\<lambda>l. ret (l \<and> Some target \<noteq> self st))"

definition client_end :: "env \<Rightarrow> server_state \<Rightarrow> server_state res" where
  "client_end E st =
     bindR (logout_user (self st) (ustore st)) (\<lambda>us.
     (let st = st\<lparr>ustore := us\<rparr> in
     bindR (if connection_status st = cs_code CS_Closed_Connection
            then ret (st\<lparr>disconnect_reason := CD_connection_closed_by_client\<rparr>)
            else bindR (should_User_shutdown (self st) (ustore st)) (\<lambda>sd.
              ret (if sd then st\<lparr>disconnect_reason := CD_kicked_from_the_server\<rparr> else st))) (\<lambda>st.
     bindR (get_User_name_length (self st) (ustore st)) (\<lambda>len.
     bindR (if len \<noteq> 0
            then bindR (get_User_name (self st) (ustore st)) (\<lambda>nm.
                 bindR (build_User_Removed E (msg st) (disconnect_reason st) nm len) (\<lambda>m.
                   over_users (send_if E others_test) (st\<lparr>msg := m\<rparr>)))
            else ret st) (\<lambda>st.
     bindR (self_sock st) (\<lambda>sk.
     (let st = st\<lparr>closed_socks := closed_socks st @ [sk]\<rparr> in
     bindR (self_sock st) (\<lambda>sk.
     bindR (remove_User sk (ustore st)) (\<lambda>(_, us).
       ret (st\<lparr>ustore := us\<rparr>))))))))))"

definition client_begin :: "nat \<Rightarrow> u16 \<Rightarrow> nat option \<Rightarrow> server_state \<Rightarrow> server_state res" where
  "client_begin threadID arg user_memory st =
     bindR (create_User threadID arg user_memory (ustore st)) (\<lambda>(u, us).
       ret (st\<lparr>ustore := us, self := u, msg := msg_zero, msg_length := 0,
               disconnect_reason := CD_communication_error\<rparr>))"

text \<open>
  The whole thread, up to the end of its inputs: whether it still waits, and the state. The memory
  for the message and its length is assumed to be there.
\<close>

definition client_Thread ::
    "nat \<Rightarrow> u16 \<Rightarrow> nat option \<Rightarrow> env \<Rightarrow> round_input list \<Rightarrow> server_state \<Rightarrow> (bool \<times> server_state) res" where
  "client_Thread threadID arg user_memory E Rs st =
     bindR (client_begin threadID arg user_memory st) (\<lambda>st.
     bindR (client_loop Rs st) (\<lambda>(waiting, st).
       if waiting then ret (True, st)
       else bindR (client_end E st) (\<lambda>st. ret (False, st))))"

end
