(* ===== verification/Client_Behaviour.thy ===== *)
theory Client_Behaviour
  imports Client
begin

text \<open>
  What a client's thread does with the messages it receives: the effect of every handler on the
  users, the sockets and the broadcast queue, for whole rounds of the loop, and that honest
  messages never take the server out of its defined behaviour.
\<close>

section \<open>Reading the own user\<close>

definition own_user :: "server_state \<Rightarrow> user" where
  "own_user st = user_at (ustore st) (the (self st))"

definition own_name :: "server_state \<Rightarrow> byte list" where
  "own_name st = display_name (own_user st)"

definition server_string :: "server_state \<Rightarrow> byte list" where
  "server_string st = takeWhile (\<lambda>c. c \<noteq> 0) (server_name (conf st))"

definition admin_string :: "server_state \<Rightarrow> byte list" where
  "admin_string st = takeWhile (\<lambda>c. c \<noteq> 0) (admin_name (conf st))"

definition config_ok :: "config \<Rightarrow> bool" where
  "config_ok c \<longleftrightarrow> length (server_name c) = 32 \<and> 0 \<in> set (server_name c)
     \<and> length (admin_name c) = 32 \<and> 0 \<in> set (admin_name c)"

text \<open>
  A state in which the thread of the user at \<open>a\<close> is between two messages: the list and the
  configuration are well formed, the logger is, and the agent is not in the middle of a delivery.
\<close>

definition client_ok :: "server_state \<Rightarrow> nat list \<Rightarrow> nat \<Rightarrow> bool" where
  "client_ok st as a \<longleftrightarrow> users_inv_at (ustore st) as \<and> a \<in> set as \<and> self st = Some a
     \<and> config_ok (conf st) \<and> log_inv (logs st)
     \<and> broadcast_sem st = (if broadcast_Paused st then 0 else 1)"

text \<open>What no message changes.\<close>

definition unmoved :: "server_state \<Rightarrow> server_state \<Rightarrow> bool" where
  "unmoved st st' \<longleftrightarrow> self st' = self st \<and> conf st' = conf st
     \<and> disconnect_reason st' = disconnect_reason st \<and> mq_maxmsg st' = mq_maxmsg st
     \<and> agent_pc st' = agent_pc st \<and> agent_buffer st' = agent_buffer st"

lemma client_ok_at: "client_ok st as a \<Longrightarrow> users_at (ustore st) as"
  by (simp add: client_ok_def users_inv_at_def)

lemma client_ok_user: "client_ok st as a \<Longrightarrow> b \<in> set as \<Longrightarrow> user_ok (user_at (ustore st) b)"
  by (simp add: client_ok_def users_inv_at_def)

lemma read_self:
  "client_ok st as a \<Longrightarrow> read_user f (self st) (ustore st) = ret (f (own_user st))"
  by (frule client_ok_at) (auto simp: client_ok_def own_user_def intro: read_user_at)

lemma read_selfs [user_simps]:
  assumes "client_ok st as a"
  shows "self_sock st = ret (sock (own_user st))"
    and "get_User_name (self st) (ustore st) = ret (name (own_user st))"
    and "get_User_name_length (self st) (ustore st) = ret (name_length (own_user st))"
    and "is_User_LoggedIn (self st) (ustore st) = ret (logged_in (own_user st))"
    and "should_User_shutdown (self st) (ustore st) = ret (should_shutdown (own_user st))"
  using assms
  by (simp_all add: self_sock_def user_sock_def get_User_name_def get_User_name_length_def
      is_User_LoggedIn_def should_User_shutdown_def read_self)

lemma user_name_string:
  assumes "user_ok u"
  shows "c_string (name u) = ret (display_name u)" and "length (display_name u) \<le> 31"
    and "unat (name_length u) \<le> 31"
proof -
  show s: "c_string (name u) = ret (display_name u)"
    by (rule c_string_display_name [OF user_ok_terminated [OF assms]])
  show "length (display_name u) \<le> 31" "unat (name_length u) \<le> 31"
    using c_string_less [OF s] assms by (auto simp: user_ok_def)
qed

lemma own_name_string:
  assumes "client_ok st as a"
  shows "c_string (name (own_user st)) = ret (own_name st)"
    and "length (own_name st) \<le> 31" and "unat (name_length (own_user st)) \<le> 31"
proof -
  have "user_ok (own_user st)"
    using client_ok_user [OF assms] assms by (simp add: client_ok_def own_user_def)
  from user_name_string [OF this] show "c_string (name (own_user st)) = ret (own_name st)"
    "length (own_name st) \<le> 31" "unat (name_length (own_user st)) \<le> 31"
    by (simp_all add: own_name_def)
qed

lemma config_strings:
  assumes "config_ok (conf st)"
  shows "c_string (server_name (conf st)) = ret (server_string st)"
    and "length (server_string st) \<le> 31" and "0 \<notin> set (server_string st)"
    and "c_string (admin_name (conf st)) = ret (admin_string st)"
proof -
  show s: "c_string (server_name (conf st)) = ret (server_string st)"
    "c_string (admin_name (conf st)) = ret (admin_string st)"
    using assms by (simp_all add: config_ok_def c_string_def server_string_def admin_string_def)
  show "length (server_string st) \<le> 31" "0 \<notin> set (server_string st)"
    using c_string_less [OF s(1)] c_string_nonzero [OF s(1)] assms by (simp_all add: config_ok_def)
qed

section \<open>Sending to oneself\<close>

text \<open>The bytes of a protocol message, as far as the socket takes them.\<close>

definition sent_msg :: "env \<Rightarrow> server_msg \<Rightarrow> u16 \<Rightarrow> (u16 \<times> byte list) list" where
  "sent_msg E w sk = sent_on E (encode w) sk"

lemma send_self_frame:
  assumes "client_ok st as a" and "carries_frame E m t body"
  shows "send_self E (st\<lparr>msg := m\<rparr>) =
    ret (st\<lparr>msg := m, outbox := outbox st @ sent_on E (frame t body) (sock (own_user st))\<rparr>)"
proof -
  have "self_sock (st\<lparr>msg := m\<rparr>) = self_sock st" by (simp add: self_sock_def)
  then show ?thesis
    using assms by (simp add: send_self_def read_selfs send_to_frame)
qed

lemma respond_frame:
  assumes "client_ok st as a" and "length (msg st) = 555" and "msg st ! 554 = 0" and "0 \<notin> set f"
  shows "\<exists>m. respond E f st = ret (st\<lparr>msg := m\<rparr>)
    \<and> carries_frame E m MT_ServerToClient (response_body E (server_string st) (msg st) f)"
proof -
  have c: "config_ok (conf st)" using assms(1) by (simp add: client_ok_def)
  have "length (server_string st) \<le> 32" using config_strings(2) [OF c] by simp
  from build_response_as_frame [OF assms(2,3) config_strings(1) [OF c] this assms(4), of E]
  show ?thesis
    by (auto simp: respond_def build_Server_response_def get_server_name_def)
qed

lemma respond_self_frame:
  assumes "client_ok st as a" and "length (msg st) = 555" and "msg st ! 554 = 0" and "0 \<notin> set f"
  shows "\<exists>m. respond_self E f st = ret (st\<lparr>msg := m, outbox := outbox st
      @ sent_on E (frame MT_ServerToClient (response_body E (server_string st) (msg st) f)) (sock (own_user st))\<rparr>)"
proof -
  obtain m where m: "respond E f st = ret (st\<lparr>msg := m\<rparr>)"
    "carries_frame E m MT_ServerToClient (response_body E (server_string st) (msg st) f)"
    using respond_frame [OF assms] by blast
  then show ?thesis by (auto simp: respond_self_def send_self_frame [OF assms(1)])
qed

section \<open>Receiving a whole message\<close>

text \<open>
  An input that brings a whole header, announcing \<open>len\<close> bytes of type \<open>t\<close>, and \<open>body\<close> as what
  can be read behind it.
\<close>

definition brings :: "round_input \<Rightarrow> u8 \<Rightarrow> u16 \<Rightarrow> byte list \<Rightarrow> bool" where
  "brings R t len body \<longleftrightarrow> (\<exists>rest. header_io R = IO_Data (t # net_image len @ rest))
     \<and> body_io R = IO_Data body"

lemma client_round_brings:
  assumes "client_ok st as a" and "brings R t len body"
    and "length body \<le> unat len" and "length body \<le> 552" and "unat len \<noteq> 0" and "t = 0 \<or> t = 2"
  shows "client_round R st =
    bindR (dispatch R (receive_decision t (unat len) body)
      (st\<lparr>connection_status := 3, msg_length := len, msg := received t len body\<rparr>)) (\<lambda>st. ret (True, st))"
proof -
  have "self_sock (clear_msg st) = self_sock st" by (simp add: self_sock_def clear_msg_def)
  moreover have "Check_for_Message (header_io R) (msg (clear_msg st)) = ret (3, header_only (net_env R) t len)"
    using assms(2) by (auto simp: brings_def clear_msg_def Check_for_Message_header)
  moreover obtain m where "network_Receive (net_env R) (body_io R) (header_only (net_env R) t len) =
      ret (receive_decision t (unat len) body, m)" "m = received t len body"
    using network_Receive_decision [OF assms(3,4), of "net_env R" t] assms(2,5,6)
    by (auto simp: brings_def received_def)
  ultimately show ?thesis
    using assms(1) by (simp add: client_round_def Let_def read_selfs clear_msg_def)
qed

lemma client_ok_updates [simp]:
  "client_ok (st\<lparr>connection_status := v1\<rparr>) as a = client_ok st as a"
  "client_ok (st\<lparr>msg := v2\<rparr>) as a = client_ok st as a"
  "client_ok (st\<lparr>msg_length := v3\<rparr>) as a = client_ok st as a"
  "client_ok (st\<lparr>outbox := v4\<rparr>) as a = client_ok st as a"
  "client_ok (st\<lparr>broadcast_queue := v5\<rparr>) as a = client_ok st as a"
  "client_ok (st\<lparr>closed_socks := v6\<rparr>) as a = client_ok st as a"
  "client_ok (st\<lparr>disconnect_reason := v7\<rparr>) as a = client_ok st as a"
  "client_ok (clear_msg st) as a = client_ok st as a"
  by (simp_all add: client_ok_def clear_msg_def)

lemma own_updates [simp]:
  "own_user (st\<lparr>connection_status := v1\<rparr>) = own_user st"
  "own_user (st\<lparr>msg := v2\<rparr>) = own_user st"
  "own_user (st\<lparr>msg_length := v3\<rparr>) = own_user st"
  "own_user (st\<lparr>outbox := v4\<rparr>) = own_user st"
  "own_user (st\<lparr>broadcast_queue := v5\<rparr>) = own_user st"
  "own_user (clear_msg st) = own_user st"
  "server_string (st\<lparr>connection_status := v1\<rparr>) = server_string st"
  "server_string (st\<lparr>msg := v2\<rparr>) = server_string st"
  "server_string (st\<lparr>msg_length := v3\<rparr>) = server_string st"
  "server_string (st\<lparr>outbox := v4\<rparr>) = server_string st"
  "server_string (st\<lparr>broadcast_queue := v5\<rparr>) = server_string st"
  "server_string (clear_msg st) = server_string st"
  by (simp_all add: own_user_def server_string_def clear_msg_def)

text \<open>Whether a broadcast of this round is taken by the queue.\<close>

definition queue_room :: "round_input \<Rightarrow> server_state \<Rightarrow> bool" where
  "queue_room R st \<longleftrightarrow> mq_send_ok R \<and> length (broadcast_queue st) < mq_maxmsg st"

section \<open>An example\<close>

text \<open>
  A room of three users, the first logged in as \<open>AB\<close>, the second not logged in and the third the
  administrator, in a server that just started; the thread is the one of the user at the address
  given. Its inputs bring one message.
\<close>

definition example_room :: user_store where
  "example_room = the_ret (run_user_calls
     [Create 1 4 0, Create 2 5 1, Create 3 6 2, Login 0 [65, 66, 0] 2,
      Login 2 (bytes_of ''Admin'' @ [0]) 5] users_initial)"

definition example_server :: "nat \<Rightarrow> server_state" where
  "example_server a =
     \<lparr>ustore = example_room, outbox = [], broadcast_queue = [], mq_maxmsg = 10, broadcast_sem = 1,
      broadcast_Paused = False, running = True, agent_buffer = None, agent_pc = Some At_Receive,
      self = Some a, connection_status = 0, msg = msg_zero, msg_length = 0,
      disconnect_reason = CD_communication_error, closed_socks = [], conf = config_initial,
      logs = log_initial\<rparr>"

definition example_round :: "u8 \<Rightarrow> byte list \<Rightarrow> round_input" where
  "example_round t body =
     \<lparr>header_io = IO_Data (t # net_image (of_nat (length body) :: u16)), body_io = IO_Data body,
      mq_send_ok = True, entry_memory = Some 0, net_env = example_env, file_env = example_log_env,
      own_thread = 9\<rparr>"

lemma example_room_inv: "users_inv_at example_room [0, 1, 2]"
proof -
  let ?cs = "[Create 1 4 0, Create 2 5 1, Create 3 6 2, Login 0 [65, 66, 0] 2,
    Login 2 (bytes_of ''Admin'' @ [0]) 5]"
  have "is_ret (run_user_calls ?cs users_initial)" by code_simp
  from run_user_calls_reachable [OF is_ret_the [OF this] users_reachable.initial]
  have r: "users_reachable example_room" by (simp add: example_room_def)
  have at: "users_at example_room [0, 1, 2]" by (rule users_reachable_at [OF r]) code_simp
  obtain as where as: "users_inv_at example_room as"
    using users_reachable_inv [OF r] by (auto simp: users_inv_def)
  then have "users_at example_room as" by (simp add: users_inv_at_def)
  then have "as = [0, 1, 2]" using at dll_ok_unique by (auto simp: users_at_def)
  then show ?thesis using as by simp
qed

lemma example_server_ok: "a \<in> {0, 1, 2} \<Longrightarrow> client_ok (example_server a) [0, 1, 2] a"
proof -
  have "config_ok config_initial" unfolding config_ok_def by code_simp
  then show "a \<in> {0, 1, 2} \<Longrightarrow> ?thesis"
    using example_room_inv log_inv_initial by (auto simp: client_ok_def example_server_def)
qed

lemma example_round_brings: "brings (example_round t body) t (of_nat (length body)) body"
  by (simp add: brings_def example_round_def)

lemma example_fields [simp]:
  "ustore (example_server a) = example_room" "broadcast_queue (example_server a) = []"
  "outbox (example_server a) = []" "closed_socks (example_server a) = []"
  "broadcast_Paused (example_server a) = False" "net_env (example_round t body) = example_env"
  "queue_room (example_round t body) (example_server a)"
  by (simp_all add: example_server_def example_round_def queue_room_def)

section \<open>Chat texts\<close>

text \<open>What the queue holds for a message of the protocol that everybody is to get.\<close>

definition queued :: "env \<Rightarrow> queue_message \<Rightarrow> server_msg \<Rightarrow> bool" where
  "queued E q w \<longleftrightarrow> sender q = None \<and> carries E (qmsg q) w"

definition queue_full_text :: "byte list" where
  "queue_full_text = bytes_of ''Message Queue is sadly full, wait for admin to resume chat''"

lemma queue_full_text_nonzero: "0 \<notin> set queue_full_text"
  unfolding queue_full_text_def by code_simp

lemma broadcast_message_room:
  "broadcast_message (mq_send_ok R) m i st =
     (queue_room R st, if queue_room R st
        then st\<lparr>broadcast_queue := broadcast_queue st @ [\<lparr>sender = i, qmsg = m\<rparr>]\<rparr> else st)"
  by (auto simp: broadcast_message_def queue_room_def Let_def)

text \<open>Writes that stay before a byte keep it.\<close>

lemma mem_write_keeps:
  "mem_write b off bs = ret b' \<Longrightarrow> off + length bs \<le> i \<Longrightarrow> i < length b \<Longrightarrow>
   b' ! i = b ! i \<and> length b' = length b"
  by (auto simp: mem_write_ret_iff nth_patch)

lemma c_strncpy_keeps:
  "c_strncpy b off src n = ret b' \<Longrightarrow> off + n \<le> i \<Longrightarrow> i < length b \<Longrightarrow>
   b' ! i = b ! i \<and> length b' = length b"
  by (auto simp: c_strncpy_def mem_write_ret_iff nth_patch split: if_splits)

lemma build_Server_to_client_last:
  assumes "build_Server_to_client E m len nm sz = ret m'" and "length m = 555"
    and "unat len \<le> 511" and "unat sz \<le> 32"
  shows "m' ! 554 = m ! 554 \<and> length m' = 555"
proof -
  obtain m1 t m2 m3 m4 m5 where
    "mem_write m off_type [mt_code MT_ServerToClient] = ret m1"
    "mem_write m1 off_text (replicate NET_TEXT_LEN 0) = ret m2"
    "store64 (host E) m2 off_timestamp (stamp_field E True) = ret m3"
    "c_strncpy m3 off_sender nm (unat sz) = ret m4"
    "c_strncpy m4 off_s2c_text t (unat len) = ret m5"
    "store16 (host E) m5 off_length (htons (host E) (of_nat (40 + unat len))) = ret m'"
    using assms(1) unfolding build_Server_to_client_def Let_def bindR_ret_iff by blast
  note w = this [unfolded wire_simps store16_net store_net(2) [OF refl]]
  show ?thesis
    using mem_write_keeps [OF w(1), of 554] mem_write_keeps [OF w(2), of 554]
      mem_write_keeps [OF w(3), of 554] c_strncpy_keeps [OF w(4), of 554]
      c_strncpy_keeps [OF w(5), of 554] mem_write_keeps [OF w(6), of 554] assms(2-4)
    by simp
qed

lemma handle_message_effect:
  assumes ok: "client_ok st as a" and m: "msg st = received 2 len body" "msg_length st = len"
    and body: "length body \<le> 511" "unat len = length body" "0 \<notin> set body"
  shows "\<exists>m. carries (net_env R) m
      (Server_To_Client (stamp_value (net_env R) True)
        (take (unat (name_length (own_user st))) (own_name st)) body) \<and>
    (if queue_room R st
     then handle_message R st = ret (st\<lparr>msg := m, broadcast_queue := broadcast_queue st @ [\<lparr>sender = None, qmsg = m\<rparr>]\<rparr>)
     else \<exists>m'. handle_message R st = ret (st\<lparr>msg := m', outbox := outbox st
       @ sent_on (net_env R) (frame MT_ServerToClient
           (response_body (net_env R) (server_string st) m queue_full_text)) (sock (own_user st))\<rparr>))"
proof -
  let ?E = "net_env R"
  have sz: "unat (name_length (own_user st)) \<le> 32" using own_name_string(3) [OF ok] by simp
  obtain m1 where m1: "build_Server_to_client ?E (received 2 len body) len (name (own_user st))
      (name_length (own_user st)) = ret m1"
    "carries ?E m1 (Server_To_Client (stamp_value ?E True)
        (take (unat (name_length (own_user st))) (own_name st)) body)"
    using build_Server_to_client_carries [OF body own_name_string(1) [OF ok] sz, of ?E] by blast
  have l: "length (received 2 len body) = 555" "received 2 len body ! 554 = 0"
    using body by (simp_all add: received_last)
  have last: "m1 ! 554 = 0" "length m1 = 555"
    using build_Server_to_client_last [OF m1(1) l(1) _ sz] body l(2) by auto
  have ok1: "client_ok (st\<lparr>msg := m1\<rparr>) as a" using ok by (simp add: client_ok_updates)
  have room: "queue_room R (st\<lparr>msg := m1\<rparr>) = queue_room R st" by (simp add: queue_room_def)
  have "handle_message R st = (if queue_room R st
      then ret (st\<lparr>broadcast_queue := broadcast_queue st @ [\<lparr>sender = None, qmsg = m1\<rparr>], msg := m1\<rparr>)
      else respond_self ?E queue_full_text (st\<lparr>msg := m1\<rparr>))"
    using m m1(1) by (simp add: handle_message_def Let_def read_selfs [OF ok] broadcast_message_room room
        queue_full_text_def)
  moreover obtain m' where "respond_self ?E queue_full_text (st\<lparr>msg := m1\<rparr>) =
      ret ((st\<lparr>msg := m1\<rparr>)\<lparr>msg := m', outbox := outbox (st\<lparr>msg := m1\<rparr>) @ sent_on ?E
        (frame MT_ServerToClient (response_body ?E (server_string (st\<lparr>msg := m1\<rparr>)) (msg (st\<lparr>msg := m1\<rparr>))
          queue_full_text)) (sock (own_user (st\<lparr>msg := m1\<rparr>)))\<rparr>)"
    using respond_self_frame [OF ok1 _ _ queue_full_text_nonzero, of ?E] last by auto
  ultimately show ?thesis
    using m1(2) by (intro exI [of _ m1]) (auto simp: server_string_def own_user_def)
qed

lemma dispatch_message:
  assumes "body \<noteq> []" and "body ! 0 \<noteq> 47" and "n \<noteq> 0"
  shows "dispatch R (receive_decision 2 n body) st = handle_message R st"
  using assms by (simp add: dispatch_def receive_decision_def)

text \<open>A chat text goes to everybody: a round that brings a text of at most 511 bytes without NUL,
  not starting with a slash and announced with its length, from a user logged in or not, puts the
  protocol's message with the clock's time, the user's name and the text at the end of the broadcast
  queue and changes nothing else, when the queue has room. When it has none the text is dropped and
  the user alone gets the server's notice; the users and the queue stay as they were.\<close>

theorem chat_text_is_queued:
  assumes "client_ok st as a" and "brings R 2 len body"
    and "0 < length body" and "length body \<le> 511" and "unat len = length body"
    and "0 \<notin> set body" and "body ! 0 \<noteq> 47"
  shows "\<exists>st'. client_round R st = ret (True, st') \<and> ustore st' = ustore st
    \<and> (if queue_room R st
       then outbox st' = outbox st \<and> (\<exists>q. broadcast_queue st' = broadcast_queue st @ [q]
         \<and> queued (net_env R) q (Server_To_Client (stamp_value (net_env R) True)
             (take (unat (name_length (own_user st))) (own_name st)) body))
       else broadcast_queue st' = broadcast_queue st \<and> (\<exists>bs. outbox st' = outbox st
         @ sent_on (net_env R) (frame MT_ServerToClient (net_image (stamp_value (net_env R) True)
             @ server_string st @ bs @ queue_full_text)) (sock (own_user st))))"
proof -
  let ?st = "st\<lparr>connection_status := 3, msg_length := len, msg := received 2 len body\<rparr>"
  have ok: "client_ok ?st as a" using assms(1) by (simp add: client_ok_updates)
  have round: "client_round R st = bindR (handle_message R ?st) (\<lambda>st. ret (True, st))"
    using client_round_brings [OF assms(1,2)] assms(3-7) by (auto simp: dispatch_message)
  have same: "queue_room R ?st = queue_room R st" "own_user ?st = own_user st" "own_name ?st = own_name st"
    "server_string ?st = server_string st" "ustore ?st = ustore st" "outbox ?st = outbox st"
    "broadcast_queue ?st = broadcast_queue st"
    by (simp_all add: queue_room_def own_user_def own_name_def server_string_def)
  have "take 511 queue_full_text = queue_full_text" by code_simp
  then have rb: "response_body E s m queue_full_text = net_image (stamp_value E True) @ s
      @ bslice m (11 + length s) (32 - length s) @ queue_full_text" for E s m
    by (simp add: response_body_def)
  obtain m where m: "carries (net_env R) m
      (Server_To_Client (stamp_value (net_env R) True)
        (take (unat (name_length (own_user st))) (own_name st)) body)"
    "if queue_room R st
     then handle_message R ?st = ret (?st\<lparr>msg := m, broadcast_queue := broadcast_queue st @ [\<lparr>sender = None, qmsg = m\<rparr>]\<rparr>)
     else \<exists>m'. handle_message R ?st = ret (?st\<lparr>msg := m', outbox := outbox st
       @ sent_on (net_env R) (frame MT_ServerToClient
           (response_body (net_env R) (server_string st) m queue_full_text)) (sock (own_user st))\<rparr>)"
    using handle_message_effect [OF ok _ _ assms(4-6), of R] unfolding same by auto
  show ?thesis
  proof (cases "queue_room R st")
    case True
    then show ?thesis using m round by (simp add: queued_def)
  next
    case False
    then show ?thesis using m(2) round unfolding rb by auto
  qed
qed

theorem chat_text_is_queued_witness:
  "\<exists>st' q. client_round (example_round 2 [72, 105]) (example_server 0) = ret (True, st')
    \<and> broadcast_queue st' = [q]
    \<and> queued example_env q (Server_To_Client (stamp_value example_env True)
        (take (unat (name_length (own_user (example_server 0)))) (own_name (example_server 0))) [72, 105])"
  using chat_text_is_queued [OF example_server_ok example_round_brings, of 0 "[72, 105]"]
  by auto

section \<open>Commands\<close>

definition denied_text :: "byte list" where
  "denied_text = bytes_of ''Caution! You dont have required permissions for [server_commands]''"

lemma answer_texts:
  "0 \<notin> set denied_text" "take 511 denied_text = denied_text"
  "0 \<notin> set (bytes_of ''Server is already paused'')"
  "0 \<notin> set (bytes_of ''admin has paused the server'')"
  "0 \<notin> set (bytes_of ''Server is not paused, [/resume] makes no sense'')"
  "0 \<notin> set (bytes_of ''admin has resumed the server'')"
  unfolding denied_text_def by code_simp+

lemma dispatch_command:
  assumes "body \<noteq> []" and "body ! 0 = 47" and "n \<noteq> 0"
  shows "dispatch R (receive_decision 2 n body) st = handle_command R st"
  using assms by (simp add: dispatch_def receive_decision_def)

text \<open>The answer to the user alone, in the frame of a server text; what is left of the received text
  behind the server's name goes with it.\<close>

definition answer :: "env \<Rightarrow> server_state \<Rightarrow> byte list \<Rightarrow> byte list \<Rightarrow> byte list" where
  "answer E st body f = frame MT_ServerToClient (net_image (stamp_value E True) @ server_string st
     @ take (32 - length (server_string st)) (drop (8 + length (server_string st))
         (body @ replicate (552 - length body) 0))
     @ take 511 f)"

text \<open>The state when a handler starts on a received text.\<close>

definition received_state :: "u16 \<Rightarrow> byte list \<Rightarrow> server_state \<Rightarrow> server_state" where
  "received_state len body st =
     st\<lparr>connection_status := 3, msg_length := len, msg := received 2 len body\<rparr>"

lemma received_state_fields [simp]:
  "ustore (received_state len body st) = ustore st" "outbox (received_state len body st) = outbox st"
  "broadcast_queue (received_state len body st) = broadcast_queue st"
  "broadcast_sem (received_state len body st) = broadcast_sem st"
  "broadcast_Paused (received_state len body st) = broadcast_Paused st"
  "closed_socks (received_state len body st) = closed_socks st"
  "msg (received_state len body st) = received 2 len body"
  "conf (received_state len body st) = conf st" "self (received_state len body st) = self st"
  "msg_length (received_state len body st) = len"
  "logs (received_state len body st) = logs st" "mq_maxmsg (received_state len body st) = mq_maxmsg st"
  "disconnect_reason (received_state len body st) = disconnect_reason st"
  "agent_pc (received_state len body st) = agent_pc st"
  "agent_buffer (received_state len body st) = agent_buffer st"
  "own_user (received_state len body st) = own_user st"
  "own_name (received_state len body st) = own_name st"
  "server_string (received_state len body st) = server_string st"
  "client_ok (received_state len body st) as a = client_ok st as a"
  "queue_room R (received_state len body st) = queue_room R st"
  by (simp_all add: received_state_def own_name_def queue_room_def)

lemma respond_received:
  assumes "client_ok st as a" and "length body \<le> 511" and "0 \<notin> set f"
  shows "\<exists>m. respond E f (received_state len body st) = ret ((received_state len body st)\<lparr>msg := m\<rparr>)
    \<and> carries_frame E m MT_ServerToClient (net_image (stamp_value E True) @ server_string st
     @ take (32 - length (server_string st)) (drop (8 + length (server_string st))
         (body @ replicate (552 - length body) 0))
     @ take 511 f)"
proof -
  let ?st = "received_state len body st"
  have l: "length (msg ?st) = 555" "msg ?st ! 554 = 0"
    using assms(2) by (simp_all add: received_last)
  have ok: "client_ok ?st as a" using assms(1) by simp
  have "bslice (received 2 len body) (3 + (8 + length (server_string st))) (32 - length (server_string st)) =
      take (32 - length (server_string st)) (drop (8 + length (server_string st)) (body @ replicate (552 - length body) 0))"
    by (rule bslice_received)
  then show ?thesis
    using respond_frame [OF ok l assms(3), of E] by (simp add: response_body_def)
qed

lemma respond_self_received:
  assumes "client_ok st as a" and "length body \<le> 511" and "0 \<notin> set f"
  shows "\<exists>m. respond_self E f (received_state len body st) = ret ((received_state len body st)
    \<lparr>msg := m, outbox := outbox st @ sent_on E (answer E st body f) (sock (own_user st))\<rparr>)"
proof -
  have ok: "client_ok (received_state len body st) as a" using assms(1) by simp
  from respond_received [OF assms, of E len] show ?thesis
    by (auto simp: respond_self_def send_self_frame [OF ok] answer_def)
qed

lemma client_round_text:
  assumes "client_ok st as a" and "brings R 2 len body"
    and "body \<noteq> []" and "length body \<le> 511" and "length body \<le> unat len"
  shows "client_round R st = bindR (if body ! 0 = 47 then handle_command R (received_state len body st)
    else handle_message R (received_state len body st)) (\<lambda>st. ret (True, st))"
proof -
  have n: "unat len \<noteq> 0" using assms(3,5) by (cases body) auto
  show ?thesis
    using client_round_brings [OF assms(1,2,5) _ n] assms(3,4) n
    by (auto simp: dispatch_message dispatch_command received_state_def)
qed

text \<open>The handler of a command, by its code.\<close>

definition run_admin_command :: "env \<Rightarrow> admin_command_code \<Rightarrow> server_state \<Rightarrow> server_state res" where
  "run_admin_command E code st =
     (case code of
        AC_Kick \<Rightarrow> command_kick E st
      | AC_Pause \<Rightarrow> command_pause E st
      | AC_Resume \<Rightarrow> command_resume E st
      | AC_Help \<Rightarrow> command_help E st
      | _ \<Rightarrow> command_invalid E st)"

lemma handle_command_eq:
  assumes ok: "client_ok st as a"
  shows "handle_command R st = (if own_name st = admin_string st
    then bindR (get_server_command (drop off_text (msg st))) (\<lambda>admin_code.
           run_admin_command (net_env R) admin_code st)
    else respond_self (net_env R) denied_text st)"
proof -
  have "c_streq (name (own_user st)) (admin_name (conf st)) = ret (own_name st = admin_string st)"
    using own_name_string(1) [OF ok] config_strings(4) [of st] ok
    by (intro c_streq_strings) (simp_all add: client_ok_def)
  then show ?thesis
    by (simp add: handle_command_def Let_def read_selfs [OF ok] get_admin_name_def denied_text_def
        run_admin_command_def)
qed

text \<open>C17: Only the user whose name is the administrator's can command the server: a text that starts
  with a slash from anybody else changes neither the users nor the queue, the pause or any socket,
  and is answered with a refusal to that user alone.\<close>

theorem commands_need_the_admin_name:
  assumes "client_ok st as a" and "brings R 2 len body"
    and "body \<noteq> []" and "length body \<le> 511" and "length body \<le> unat len" and "body ! 0 = 47"
    and "own_name st \<noteq> admin_string st"
  shows "\<exists>st'. client_round R st = ret (True, st') \<and> ustore st' = ustore st
    \<and> broadcast_queue st' = broadcast_queue st \<and> Is_broadcast_paused st' = Is_broadcast_paused st
    \<and> closed_socks st' = closed_socks st
    \<and> outbox st' = outbox st @ sent_on (net_env R) (answer (net_env R) st body denied_text) (sock (own_user st))"
proof -
  have ok: "client_ok (received_state len body st) as a" using assms(1) by simp
  have "admin_string (received_state len body st) = admin_string st" by (simp add: admin_string_def)
  then have "handle_command R (received_state len body st) =
      respond_self (net_env R) denied_text (received_state len body st)"
    using assms(7) by (simp add: handle_command_eq [OF ok])
  with respond_self_received [OF assms(1,4) answer_texts(1), of "net_env R" len] assms(6)
  show ?thesis
    unfolding client_round_text [OF assms(1-5)] by (auto simp: Is_broadcast_paused_def)
qed

theorem commands_need_the_admin_name_witness:
  "\<exists>st'. client_round (example_round 2 (bytes_of ''/pause'')) (example_server 0) = ret (True, st')
    \<and> ustore st' = example_room"
proof -
  have "bytes_of ''/pause'' \<noteq> []" "length (bytes_of ''/pause'') \<le> 511" "bytes_of ''/pause'' ! 0 = 47"
    "length (bytes_of ''/pause'') \<le> unat (of_nat (length (bytes_of ''/pause'')) :: u16)"
    "own_name (example_server 0) \<noteq> admin_string (example_server 0)"
    by code_simp+
  with commands_need_the_admin_name [OF example_server_ok example_round_brings, of 0 "bytes_of ''/pause''"]
  show ?thesis by auto
qed

text \<open>
  What a command's text looks like: a word of the table, and what follows it, received from the
  administrator.
\<close>

definition admin_command :: "server_state \<Rightarrow> nat list \<Rightarrow> nat \<Rightarrow> round_input \<Rightarrow> string \<Rightarrow> byte list \<Rightarrow> bool" where
  "admin_command st as a R w post \<longleftrightarrow> client_ok st as a \<and> own_name st = admin_string st
     \<and> (\<exists>len. brings R 2 len (bytes_of w @ post) \<and> length (bytes_of w @ post) \<le> unat len)
     \<and> length (bytes_of w @ post) \<le> 511 \<and> 0 \<notin> set post \<and> (post = [] \<or> c_isspace (hd post))"

lemma command_word:
  assumes "w \<in> {''/kick'', ''/pause'', ''/resume'', ''/shutdown'', ''/help''}"
  shows "\<forall>c \<in> set (bytes_of w). \<not> c_isspace c" and "0 \<notin> set (bytes_of w)" and "bytes_of w \<noteq> []"
    and "bytes_of w ! 0 = 47"
  using assms by (auto simp: bytes_of_def c_isspace_def)

lemma admin_round:
  assumes "admin_command st as a R w post"
    and w: "w \<in> {''/kick'', ''/pause'', ''/resume'', ''/shutdown'', ''/help''}"
  obtains len where "client_round R st = bindR
      (run_admin_command (net_env R) (command_of (bytes_of w)) (received_state len (bytes_of w @ post) st))
      (\<lambda>st. ret (True, st))"
proof -
  let ?body = "bytes_of w @ post"
  obtain len where R: "brings R 2 len ?body" "length ?body \<le> unat len"
    and ok: "client_ok st as a" and adm: "own_name st = admin_string st"
    and l: "length ?body \<le> 511" and z: "0 \<notin> set post" and post: "post = [] \<or> c_isspace (hd post)"
    using assms(1) by (auto simp: admin_command_def)
  have "w \<noteq> []" using command_word(3) [OF w] by (auto simp: bytes_of_def)
  then have ne: "?body \<noteq> []" "?body ! 0 = 47" using command_word [OF w] by (simp_all add: nth_append)
  have d: "drop off_text (received 2 len ?body) = ([] @ bytes_of w @ post) @ 0 # replicate (551 - length ?body) 0"
    using l drop3_received [of 2 len ?body]
    by (simp add: wire_simps flip: replicate_Suc)
  have "words_text [] (bytes_of w) post" using command_word [OF w] post by (simp add: words_text_def)
  moreover have "0 \<notin> set ([] @ bytes_of w @ post)" using command_word(2) [OF w] z by simp
  ultimately have c: "get_server_command (drop off_text (received 2 len ?body)) = ret (command_of (bytes_of w))"
    unfolding d by (rule get_server_command_text)
  have ok': "client_ok (received_state len ?body st) as a" using ok by simp
  have "admin_string (received_state len ?body st) = admin_string st" by (simp add: admin_string_def)
  then have "client_round R st = bindR
      (run_admin_command (net_env R) (command_of (bytes_of w)) (received_state len ?body st))
      (\<lambda>st. ret (True, st))"
    using c adm ne by (simp add: client_round_text [OF ok R(1) ne(1) l R(2)] handle_command_eq [OF ok'] Let_def)
  then show thesis by (rule that)
qed

text \<open>The same frame to every user a test admits.\<close>

lemma over_users_send_if:
  assumes at: "users_at (ustore st) as" and m: "carries_frame E (msg st) t body"
    and test: "\<And>b st'. b \<in> set as \<Longrightarrow> ustore st' = (ustore st)\<lparr>user_lock := True\<rparr> \<Longrightarrow>
      self st' = self st \<Longrightarrow> msg st' = msg st \<Longrightarrow> test b st' = ret (P b)"
  shows "over_users (send_if E test) st = ret (st\<lparr>outbox := outbox st @
    concat (map (\<lambda>b. sent_on E (frame t body) (sock (user_at (ustore st) b))) (filter P as))\<rparr>)"
proof -
  let ?L = "(ustore st)\<lparr>user_lock := True\<rparr>"
  let ?g = "\<lambda>b. if P b then sent_on E (frame t body) (sock (user_at (ustore st) b)) else []"
  let ?f = "\<lambda>b st. st\<lparr>outbox := outbox st @ ?g b\<rparr>"
  have sock: "b \<in> set as \<Longrightarrow> user_sock (Some b) ?L = ret (sock (user_at (ustore st) b))" for b
    using read_user_at [OF at] by (simp add: user_sock_def)
  have step: "send_if E test b (st'\<lparr>ustore := ?L\<rparr>) = ret (False, (?f b st')\<lparr>ustore := ?L\<rparr>)
      \<and> ustore (?f b st') = ustore st \<and> self (?f b st') = self st \<and> msg (?f b st') = msg st"
    if "b \<in> set as" "ustore st' = ustore st" "self st' = self st \<and> msg st' = msg st" for b st'
    using that test [of b "st'\<lparr>ustore := ?L\<rparr>"] sock [of b]
    by (simp add: send_if_def send_to_frame [OF m])
  have "over_users (send_if E test) st = ret (fold ?f as st)"
    using acc.iterate_reading [OF at, of "\<lambda>s. self s = self st \<and> msg s = msg st" "send_if E test" ?f] step
    by simp
  then show ?thesis by (simp add: fold_outbox concat_if_filter)
qed

lemma logged_in_everyone:
  assumes at: "users_at (ustore st) as" and m: "carries_frame E (msg st) t body"
  shows "over_users (send_if E logged_in_test) st = ret (st\<lparr>outbox := outbox st @
    broadcast_output E (ustore st) as None (frame t body)\<rparr>)"
proof -
  have "over_users (send_if E logged_in_test) st = ret (st\<lparr>outbox := outbox st @
    concat (map (\<lambda>b. sent_on E (frame t body) (sock (user_at (ustore st) b)))
      (filter (\<lambda>b. logged_in (user_at (ustore st) b)) as))\<rparr>)"
    using read_user_at [OF at]
    by (intro over_users_send_if [OF at m]) (simp add: logged_in_test_def is_User_LoggedIn_def)
  then show ?thesis by (simp add: broadcast_output_def recipients_def)
qed

lemma respond_agent:
  "respond E f s = ret (s\<lparr>msg := m\<rparr>) \<Longrightarrow>
   respond E f (s\<lparr>broadcast_sem := x, broadcast_Paused := y\<rparr>) =
     ret (s\<lparr>broadcast_sem := x, broadcast_Paused := y, msg := m\<rparr>)"
  by (cases s) (auto simp: respond_def bindR_ret_iff)

lemma command_again:
  assumes ok: "client_ok st as a" and l: "length body \<le> 511" and "0 \<notin> set f"
  shows "\<exists>fr m. respond_self E f (received_state len body st) = ret ((received_state len body st)
    \<lparr>msg := m, outbox := outbox st @ sent_on E fr (sock (own_user st))\<rparr>)"
  using respond_self_received [OF assms, of E len] by blast

lemma command_pause_effect:
  assumes ok: "client_ok st as a" and l: "length body \<le> 511" and np: "\<not> broadcast_Paused st"
  shows "\<exists>m. command_pause E (received_state len body st) = ret ((received_state len body st)
    \<lparr>broadcast_sem := 0, broadcast_Paused := True, msg := m,
     outbox := outbox st @ broadcast_output E (ustore st) as None
       (answer E st body (bytes_of ''admin has paused the server''))\<rparr>)"
proof -
  let ?st = "received_state len body st"
  from respond_received [OF ok l answer_texts(4), of E len] obtain m b where
    m: "respond E (bytes_of ''admin has paused the server'') ?st = ret (?st\<lparr>msg := m\<rparr>)"
      "carries_frame E m MT_ServerToClient b" "answer E st body (bytes_of ''admin has paused the server'') = frame MT_ServerToClient b"
    by (auto simp: answer_def)
  have sem: "broadcast_sem st = 1" using ok np by (simp add: client_ok_def)
  let ?s = "?st\<lparr>broadcast_sem := 0, broadcast_Paused := True, msg := m\<rparr>"
  have at: "users_at (ustore ?s) as" using client_ok_at [OF ok] by simp
  have "carries_frame E (msg ?s) MT_ServerToClient b" using m(2) by simp
  from logged_in_everyone [OF at this] show ?thesis
    using np sem respond_agent [OF m(1), where x = 0 and y = True]
    by (auto simp: m(3) command_pause_def Is_broadcast_paused_def pause_broadcast_eq)
qed

lemma command_resume_effect:
  assumes ok: "client_ok st as a" and l: "length body \<le> 511" and p: "broadcast_Paused st"
  shows "\<exists>m. command_resume E (received_state len body st) = ret ((received_state len body st)
    \<lparr>msg := m, outbox := outbox st @ broadcast_output E (ustore st) as None
       (answer E st body (bytes_of ''admin has resumed the server'')),
     broadcast_sem := 1, broadcast_Paused := False\<rparr>)"
proof -
  let ?st = "received_state len body st"
  from respond_received [OF ok l answer_texts(6), of E len] obtain m b where
    m: "respond E (bytes_of ''admin has resumed the server'') ?st = ret (?st\<lparr>msg := m\<rparr>)"
      "carries_frame E m MT_ServerToClient b" "answer E st body (bytes_of ''admin has resumed the server'') = frame MT_ServerToClient b"
    by (auto simp: answer_def)
  have sem: "broadcast_sem st = 0" using ok p by (simp add: client_ok_def)
  have at: "users_at (ustore (?st\<lparr>msg := m\<rparr>)) as" using client_ok_at [OF ok] by simp
  have "carries_frame E (msg (?st\<lparr>msg := m\<rparr>)) MT_ServerToClient b" using m(2) by simp
  from logged_in_everyone [OF at this] show ?thesis
    using p sem m(1)
    by (auto simp: m(3) command_resume_def Is_broadcast_paused_def resume_broadcast_eq)
qed

text \<open>C35: The administrator's \<^verbatim>\<open>/pause\<close> takes the agent's semaphore and tells every logged-in user, and
  \<^verbatim>\<open>/resume\<close> tells them and gives it back; a second \<^verbatim>\<open>/pause\<close>, and a \<^verbatim>\<open>/resume\<close> without a pause, change
  nothing and are answered to the administrator alone. The users and the queue stay as they are.\<close>

theorem pause_and_resume:
  assumes "admin_command st as a R (if pausing then ''/pause'' else ''/resume'') post"
  shows "\<exists>st' fr. client_round R st = ret (True, st') \<and> ustore st' = ustore st
    \<and> broadcast_queue st' = broadcast_queue st \<and> Is_broadcast_paused st' = pausing
    \<and> broadcast_sem st' = (if pausing then 0 else 1)
    \<and> outbox st' = outbox st @
        (if Is_broadcast_paused st = pausing then sent_on (net_env R) fr (sock (own_user st))
         else broadcast_output (net_env R) (ustore st) as None fr)"
proof -
  let ?w = "if pausing then ''/pause'' else ''/resume''" and ?E = "net_env R"
  let ?body = "bytes_of ?w @ post"
  have w: "?w \<in> {''/kick'', ''/pause'', ''/resume'', ''/shutdown'', ''/help''}" by simp
  have ok: "client_ok st as a" and l: "length ?body \<le> 511"
    using assms by (simp_all add: admin_command_def)
  have sem: "broadcast_sem st = (if broadcast_Paused st then 0 else 1)" using ok by (simp add: client_ok_def)
  have co: "command_of (bytes_of ?w) = (if pausing then AC_Pause else AC_Resume)"
    by (simp add: command_of_def command_words_def bytes_of_def)
  obtain len where r: "client_round R st = bindR
      (if pausing then command_pause ?E (received_state len ?body st)
       else command_resume ?E (received_state len ?body st)) (\<lambda>st. ret (True, st))"
  proof (rule admin_round [OF assms w])
    fix len
    assume "client_round R st = bindR (run_admin_command ?E (command_of (bytes_of ?w))
      (received_state len ?body st)) (\<lambda>st. ret (True, st))"
    then show thesis unfolding co by (intro that [of len]) (simp add: run_admin_command_def)
  qed
  note again = command_again [OF ok l answer_texts(3), of ?E len] command_again [OF ok l answer_texts(5), of ?E len]
  show ?thesis
  proof (cases pausing)
    case True
    then have r: "client_round R st = bindR (command_pause ?E (received_state len ?body st)) (\<lambda>st. ret (True, st))"
      using r by simp
    show ?thesis
    proof (cases "broadcast_Paused st")
      case True
      then show ?thesis using again(1) r sem \<open>pausing\<close>
        by (auto simp: command_pause_def Is_broadcast_paused_def)
    next
      case False
      from command_pause_effect [OF ok l False, of ?E len] show ?thesis
        using r False \<open>pausing\<close> by (auto simp: Is_broadcast_paused_def)
    qed
  next
    case False
    then have r: "client_round R st = bindR (command_resume ?E (received_state len ?body st)) (\<lambda>st. ret (True, st))"
      using r by simp
    show ?thesis
    proof (cases "broadcast_Paused st")
      case True
      from command_resume_effect [OF ok l True, of ?E len] show ?thesis
        using r True \<open>\<not> pausing\<close> by (auto simp: Is_broadcast_paused_def)
    next
      case paused: False
      then show ?thesis using again(2) r sem False
        by (auto simp: command_resume_def Is_broadcast_paused_def)
    qed
  qed
qed

lemma example_admin_command:
  assumes "length (bytes_of w @ post) \<le> 511" and "0 \<notin> set post" and "post = [] \<or> c_isspace (hd post)"
  shows "admin_command (example_server 2) [0, 1, 2] 2 (example_round 2 (bytes_of w @ post)) w post"
proof -
  have "own_name (example_server 2) = admin_string (example_server 2)" by code_simp
  moreover have "unat (of_nat n :: u16) = n" if "n \<le> 511" for n
    using that by (simp add: unat_of_nat)
  then have "length (bytes_of w @ post) \<le> unat (of_nat (length (bytes_of w @ post)) :: u16)"
    using assms(1) by (metis order_refl)
  ultimately show ?thesis
    using assms example_server_ok [of 2] example_round_brings unfolding admin_command_def by blast
qed

theorem pause_and_resume_witness:
  "\<exists>st'. client_round (example_round 2 (bytes_of ''/pause'' @ [])) (example_server 2) = ret (True, st')
    \<and> Is_broadcast_paused st'"
proof -
  have "length (bytes_of ''/pause'' @ []) \<le> 511" by code_simp
  then have "admin_command (example_server 2) [0, 1, 2] 2 (example_round 2 (bytes_of ''/pause'' @ []))
      (if True then ''/pause'' else ''/resume'') []"
    using example_admin_command [of "''/pause''" "[]"] by simp
  from pause_and_resume [OF this] show ?thesis by blast
qed

section \<open>Kicking\<close>

lemma update_user_links: "update_user p f s = ret s' \<Longrightarrow> links s' = links s"
  by (rule ext, cases p) (auto simp: update_user_def set_item_def assign_def bindR_ret_iff links_def
      deref_def split: option.splits)

lemma update_user_lock:
  "update_user p f s = ret s' \<Longrightarrow> update_user p f (s\<lparr>user_lock := b\<rparr>) = ret (s'\<lparr>user_lock := b\<rparr>)"
  by (cases s) (auto simp: update_user_def bindR_ret_iff)

lemma kick_body_links:
  assumes "kick_body nk b p = ret r"
  shows "links (ustore (snd (snd r))) = links (ustore (snd p))"
  using assms
  by (auto simp: kick_body_def user_should_shutdown_def bindR_ret_iff split: prod.splits option.splits
      if_splits dest!: update_user_links)

lemma kick_body_at:
  assumes inv: "users_inv_at s as" and b: "b \<in> set as" and nk: "c_string nk = ret n"
    and st: "ustore st = s\<lparr>user_lock := True\<rparr>"
  shows "kick_body (Some nk) b (False, st) =
    (if display_name (user_at s b) = n \<and> logged_in (user_at s b)
     then bindR (user_should_shutdown (Some b) (s\<lparr>user_lock := True\<rparr>)) (\<lambda>us.
       ret (True, True, st\<lparr>closed_socks := closed_socks st @ [sock (user_at s b)], ustore := us\<rparr>))
     else ret (False, False, st))"
proof -
  have at: "users_at s as" using inv by (simp add: users_inv_at_def)
  have "user_ok (user_at s b)" using inv b by (simp add: users_inv_at_def)
  then have eq: "c_streq (name (user_at s b)) nk = ret (display_name (user_at s b) = n)"
    by (intro c_streq_strings user_name_string nk)
  show ?thesis
    by (simp add: kick_body_def st get_User_name_def is_User_LoggedIn_def user_sock_def
        read_user_at [OF at b] eq Let_def)
qed

definition kick_target :: "user_store \<Rightarrow> nat list \<Rightarrow> byte list \<Rightarrow> nat option" where
  "kick_target s as n = List.find (\<lambda>b. display_name (user_at s b) = n \<and> logged_in (user_at s b)) as"

lemma kick_for_each:
  assumes inv: "users_inv_at s as" and nk: "c_string nk = ret n"
    and st: "ustore st = s\<lparr>user_lock := True\<rparr>" and "set bs \<subseteq> set as"
  shows "for_each (kick_body (Some nk)) bs (False, st) =
    (case List.find (\<lambda>b. display_name (user_at s b) = n \<and> logged_in (user_at s b)) bs of
       None \<Rightarrow> ret (False, st)
     | Some t \<Rightarrow> bindR (user_should_shutdown (Some t) (s\<lparr>user_lock := True\<rparr>)) (\<lambda>us.
         ret (True, st\<lparr>closed_socks := closed_socks st @ [sock (user_at s t)], ustore := us\<rparr>)))"
  using assms(4)
  by (induction bs) (auto simp: kick_body_at [OF inv _ nk st] bindR_assoc)

lemma kick_loop:
  assumes inv: "users_inv_at (ustore st) as" and nk: "c_string nk = ret n"
  shows "ITERATE_OVER_USERS (\<lambda>p. ustore (snd p)) (\<lambda>s p. (fst p, (snd p)\<lparr>ustore := s\<rparr>))
      (kick_body (Some nk)) (False, st) =
    (case kick_target (ustore st) as n of
       None \<Rightarrow> ret (False, st)
     | Some t \<Rightarrow> bindR (user_should_shutdown (Some t) (ustore st)) (\<lambda>us.
         ret (True, st\<lparr>closed_socks := closed_socks st @ [sock (user_at (ustore st) t)], ustore := us\<rparr>)))"
proof -
  let ?L = "(ustore st)\<lparr>user_lock := True\<rparr>"
  have at: "users_at (ustore st) as" and free: "\<not> user_lock (ustore st)"
    using inv by (simp_all add: users_inv_at_def users_at_def)
  have it: "ITERATE_OVER_USERS (\<lambda>p. ustore (snd p)) (\<lambda>s p. (fst p, (snd p)\<lparr>ustore := s\<rparr>))
      (kick_body (Some nk)) (False, st) =
    bindR (for_each (kick_body (Some nk)) as (False, st\<lparr>ustore := ?L\<rparr>)) (\<lambda>p.
      ret (fst p, (snd p)\<lparr>ustore := unlock_user_mutex (ustore (snd p))\<rparr>))"
    using kick.iterate_all [of "(False, st)" as "\<lambda>p. links (ustore (snd p)) = links (ustore st)" "kick_body (Some nk)"]
      at kick_body_links by (simp add: links_def [abs_def])
  have fe: "for_each (kick_body (Some nk)) as (False, st\<lparr>ustore := ?L\<rparr>) =
    (case kick_target (ustore st) as n of
       None \<Rightarrow> ret (False, st\<lparr>ustore := ?L\<rparr>)
     | Some t \<Rightarrow> bindR (user_should_shutdown (Some t) ?L) (\<lambda>us.
         ret (True, (st\<lparr>ustore := ?L\<rparr>)\<lparr>closed_socks := closed_socks st @ [sock (user_at (ustore st) t)], ustore := us\<rparr>)))"
    using kick_for_each [OF inv nk, of "st\<lparr>ustore := ?L\<rparr>" as]
    by (simp add: kick_target_def split: option.split)
  show ?thesis
  proof (cases "kick_target (ustore st) as n")
    case None
    then show ?thesis using it fe free by (cases st) (simp add: unlock_user_mutex_def)
  next
    case (Some t)
    then have "t \<in> set as" by (auto simp: kick_target_def dest: find_Some_mem)
    from update_user_at [OF at this, of "\<lambda>u. u\<lparr>should_shutdown := True\<rparr>"] obtain us where
      us: "user_should_shutdown (Some t) (ustore st) = ret us" "users_at us as"
      by (auto simp: user_should_shutdown_def)
    then have "user_should_shutdown (Some t) ?L = ret (us\<lparr>user_lock := True\<rparr>)"
      by (simp add: user_should_shutdown_def update_user_lock)
    moreover have "\<not> user_lock us" using us(2) by (simp add: users_at_def)
    ultimately show ?thesis
      using Some it fe us(1) by (cases st) (simp add: unlock_user_mutex_def)
  qed
qed

lemma kick_argument_received:
  assumes "c_isspace (hd post)" and "post = gap @ nm" and "\<forall>c \<in> set gap. c_isspace c" and "gap \<noteq> []"
    and "nm \<noteq> []" and "\<not> c_isspace (hd nm)" and "10 \<notin> set nm" and "0 \<notin> set post" and "length nm \<le> 30"
    and "length (bytes_of ''/kick'' @ post) \<le> 511"
  shows "kick_argument (drop off_text (received 2 len (bytes_of ''/kick'' @ post))) =
    ret (Some (nm @ replicate (31 - length nm) 0))"
proof -
  let ?body = "[] @ bytes_of ''/kick'' @ gap @ nm"
  have d: "drop off_text (received 2 len (bytes_of ''/kick'' @ post)) =
      ?body @ 0 # replicate (551 - length ?body) 0"
    using assms(2,10) drop3_received [of 2 len "bytes_of ''/kick'' @ post"]
    by (simp add: wire_simps flip: replicate_Suc)
  have w: "words_text [] (bytes_of ''/kick'') []"
    using command_word [of "''/kick''"] by (simp add: words_text_def)
  have z: "0 \<notin> set ?body" using command_word(2) [of "''/kick''"] assms(2,8) by simp
  show ?thesis
    unfolding d using kick_argument_text [OF w assms(3,4) z _ assms(7)] assms(5,6,9) by simp
qed

text \<open>C21: The administrator's \<^verbatim>\<open>/kick\<close> of a name of 1 to 30 bytes, which
  follows blanks and has no line end in it, closes the socket of the first logged-in user that shows it
  and marks that user for shutdown, and nothing else: the kicked user stays in the list, logged in and
  with its name, until its own thread notices, and nobody is told. When nobody logged in shows the name,
  no socket is closed, no user changes, and the administrator alone is answered.\<close>

theorem kick_closes_one_socket:
  assumes "admin_command st as a R ''/kick'' (gap @ nm)" and "\<forall>c \<in> set gap. c_isspace c" and "gap \<noteq> []"
    and "nm \<noteq> []" and "\<not> c_isspace (hd nm)" and "10 \<notin> set nm" and "length nm \<le> 30"
  shows "\<exists>st'. client_round R st = ret (True, st') \<and> broadcast_queue st' = broadcast_queue st
    \<and> users_at (ustore st') as
    \<and> (case kick_target (ustore st) as nm of
         Some t \<Rightarrow> closed_socks st' = closed_socks st @ [sock (user_at (ustore st) t)]
           \<and> user_at (ustore st') = (user_at (ustore st))(t := (user_at (ustore st) t)\<lparr>should_shutdown := True\<rparr>)
           \<and> outbox st' = outbox st
       | None \<Rightarrow> closed_socks st' = closed_socks st \<and> ustore st' = ustore st
           \<and> (\<exists>fr. outbox st' = outbox st @ sent_on (net_env R) fr (sock (own_user st))))"
proof -
  let ?w = "''/kick''" and ?E = "net_env R"
  let ?body = "bytes_of ?w @ gap @ nm"
  have w: "?w \<in> {''/kick'', ''/pause'', ''/resume'', ''/shutdown'', ''/help''}" by simp
  have ok: "client_ok st as a" and l: "length ?body \<le> 511" and z: "0 \<notin> set (gap @ nm)"
    using assms(1) by (simp_all add: admin_command_def)
  have sp: "c_isspace (hd (gap @ nm))" using assms(2,3) by (cases gap) auto
  have co: "command_of (bytes_of ?w) = AC_Kick"
    by (simp add: command_of_def command_words_def bytes_of_def)
  obtain len where r: "client_round R st = bindR (command_kick ?E (received_state len ?body st)) (\<lambda>st. ret (True, st))"
  proof (rule admin_round [OF assms(1) w])
    fix len
    assume "client_round R st = bindR (run_admin_command ?E (command_of (bytes_of ?w))
      (received_state len ?body st)) (\<lambda>st. ret (True, st))"
    then show thesis unfolding co by (intro that [of len]) (simp add: run_admin_command_def)
  qed
  let ?st = "received_state len ?body st" and ?nk = "nm @ replicate (31 - length nm) 0"
  have k: "kick_argument (drop off_text (msg ?st)) = ret (Some ?nk)"
    using kick_argument_received [OF sp refl assms(2-6) z assms(7) l] by simp
  have str: "c_string ?nk = ret nm" using z assms(7) by (intro c_string_padded_end) auto
  have inv: "users_inv_at (ustore ?st) as" and at: "users_at (ustore st) as"
    using ok client_ok_at [OF ok] by (simp_all add: client_ok_def)
  note loop = kick_loop [OF inv str]
  show ?thesis
  proof (cases "kick_target (ustore st) as nm")
    case None
    let ?f = "bytes_of ''[name: '' @ nm @ bytes_of ''] is not in user list''"
    have "0 \<notin> set (bytes_of ''[name: '')" "0 \<notin> set (bytes_of ''] is not in user list'')" by code_simp+
    then have "0 \<notin> set ?f" using z by simp
    from respond_self_received [OF ok l this, of ?E len] show ?thesis
      using None r k loop str at by (auto simp: command_kick_def)
  next
    case (Some t)
    then have "t \<in> set as" by (auto simp: kick_target_def dest: find_Some_mem)
    from update_user_at [OF at this, of "\<lambda>u. u\<lparr>should_shutdown := True\<rparr>"] Some r k loop show ?thesis
      by (auto simp: command_kick_def user_should_shutdown_def)
  qed
qed

theorem kick_closes_one_socket_witness:
  "\<exists>st'. client_round (example_round 2 (bytes_of ''/kick'' @ [32] @ [65, 66])) (example_server 2) = ret (True, st')
    \<and> closed_socks st' = [4] \<and> should_shutdown (user_at (ustore st') 0) \<and> outbox st' = []"
proof -
  have "length (bytes_of ''/kick'' @ [32] @ [65, 66]) \<le> 511" by code_simp
  then have c: "admin_command (example_server 2) [0, 1, 2] 2
      (example_round 2 (bytes_of ''/kick'' @ [32] @ [65, 66])) ''/kick'' ([32] @ [65, 66])"
    using example_admin_command [of "''/kick''" "[32] @ [65, 66]"] by (simp add: c_isspace_def)
  have "kick_target example_room [0, 1, 2] [65, 66] = Some 0" "sock (user_at example_room 0) = 4"
    by code_simp+
  then show ?thesis
    using kick_closes_one_socket [OF c] by (auto simp: c_isspace_def)
qed

end
