(* ===== verification/Client_Login.thy ===== *)
theory Client_Login
  imports Client_Behaviour
begin

text \<open>
  The login of a client: the two name checks agree, when a login is refused and with which answer,
  and what a successful one does to the user's entry, the queue and the other users.
\<close>

section \<open>Login\<close>

definition login_body :: "byte list \<Rightarrow> byte list" where
  "login_body nm = net_image (0x0badf00d :: u32) @ [0] @ nm"

lemma length_login_body [simp]: "length (login_body nm) = 5 + length nm"
  by (simp add: login_body_def)

lemma login_decision:
  assumes "0 < length nm" and "length nm \<le> 31"
  shows "receive_decision 0 (5 + length nm) (login_body nm) = NV_Received_login"
proof -
  have "login_body nm ! 4 = 0" and "take 4 (login_body nm) = net_image (0x0badf00d :: u32)"
    by (simp_all add: login_body_def nth_append)
  then show ?thesis
    using assms by (simp add: receive_decision_def login_magic_ok_def)
qed

lemma forbidden_from_set: "forbidden_from s \<longleftrightarrow> (\<exists>c \<in> set s. forbidden_char c)"
  by (induction s) auto

lemma sint_byte: "sint (c::byte) = (if uint c < 128 then uint c else uint c - 256)"
proof -
  have s: "sint c = (uint c + 128) mod 256 - 128"
    by (simp add: sint_uint signed_take_bit_eq_take_bit_shift take_bit_eq_mod)
  have u: "0 \<le> uint c" "uint c < 256" using unsigned_less [of c, where 'a = int] by simp_all
  show ?thesis
  proof (cases "uint c < 128")
    case True
    then have "(uint c + 128) mod 256 = uint c + 128" using u by (intro mod_pos_pos_trivial) linarith+
    then show ?thesis using s True by simp
  next
    case False
    have "(uint c + 128) mod 256 = ((uint c - 128) + 256) mod 256" by (simp add: algebra_simps)
    also have "\<dots> = (uint c - 128) mod 256" by (rule mod_add_self2)
    also have "\<dots> = uint c - 128" using False u by (intro mod_pos_pos_trivial) linarith+
    finally show ?thesis using s False by simp
  qed
qed

lemma forbidden_char_ok: "forbidden_char c \<longleftrightarrow> \<not> name_byte_ok c"
proof -
  have u: "0 \<le> uint c" "uint c < 256" using unsigned_less [of c, where 'a = int] by simp_all
  have "c = 34 \<longleftrightarrow> uint c = 34" "c = 39 \<longleftrightarrow> uint c = 39" "c = 96 \<longleftrightarrow> uint c = 96"
    by (simp_all add: word_uint_eq_iff)
  moreover have "33 \<le> c \<longleftrightarrow> 33 \<le> uint c" "c \<le> 126 \<longleftrightarrow> uint c \<le> 126"
    by (simp_all add: word_le_def)
  ultimately show ?thesis using u unfolding forbidden_char_def name_byte_ok_def sint_byte
    by (auto split: if_splits)
qed

lemma f_Name_eq:
  "c_string nm = ret s \<Longrightarrow> f_Name_has_forbidden_char nm = ret (\<exists>c \<in> set s. \<not> name_byte_ok c)"
  by (simp add: f_Name_has_forbidden_char_def forbidden_from_set forbidden_char_ok)

text \<open>C39: The server's own check of a name, on signed bytes, refuses exactly the names the checker of the
  utility module stops in, for every name that has its terminator: those with a control character, a
  space, a quote, a back quote, or a byte beyond ASCII.\<close>

theorem name_checks_agree:
  assumes "c_string nm = ret s"
  shows "\<exists>k. nameBytesValidate s (length s) = ret k
    \<and> f_Name_has_forbidden_char nm = ret (k \<noteq> length s)"
proof -
  have "nameBytesValidate s (length s) = ret (length (takeWhile name_byte_ok s))"
    by (simp add: nameBytesValidate_def name_validate_from_prefix)
  moreover have "length (takeWhile name_byte_ok s) \<noteq> length s \<longleftrightarrow> (\<exists>c \<in> set s. \<not> name_byte_ok c)"
    using length_takeWhile_less_iff [of name_byte_ok s] length_takeWhile_le [of name_byte_ok s] by auto
  ultimately show ?thesis using f_Name_eq [OF assms] by auto
qed

theorem name_checks_agree_witness:
  "\<exists>k. nameBytesValidate (bytes_of ''a b'') 3 = ret k
    \<and> f_Name_has_forbidden_char (bytes_of ''a b'' @ [0]) = ret (k \<noteq> 3)"
proof -
  have "c_string (bytes_of ''a b'' @ [0]) = ret (bytes_of ''a b'')" by code_simp
  from name_checks_agree [OF this] show ?thesis by (simp add: eval_nat_numeral)
qed

section \<open>The steps of a login\<close>

definition with_name :: "user \<Rightarrow> byte list \<Rightarrow> user" where
  "with_name u nm = u\<lparr>name := patch (name u) 0 nm, logged_in := True, name_length := of_nat (length nm)\<rparr>"

lemma unat_length_name: "length nm \<le> 31 \<Longrightarrow> unat (of_nat (length nm) :: u16) = length nm"
  by (simp add: unat_of_nat)

definition name_taken :: "user_store \<Rightarrow> nat list \<Rightarrow> byte list \<Rightarrow> bool" where
  "name_taken s as nm \<longleftrightarrow> (\<exists>b \<in> set as. logged_in (user_at s b) \<and> display_name (user_at s b) = nm)"

definition login_code :: "user_store \<Rightarrow> nat list \<Rightarrow> byte list \<Rightarrow> login_response_code" where
  "login_code s as nm = (if \<exists>c \<in> set nm. \<not> name_byte_ok c then LR_name_invalid
     else if name_taken s as nm then LR_name_taken else LR_success)"

lemma login_response_for_eq:
  assumes "users_inv_at (ustore st) as" and "c_string ln = ret nm"
  shows "login_response_for ln st = ret (login_code (ustore st) as nm, st)"
proof -
  have at: "users_at (ustore st) as" using assms(1) by (simp add: users_inv_at_def)
  have "is_name_free ln (ustore st) = ret (\<not> name_taken (ustore st) as nm, ustore st)"
    using is_name_free_at [OF at users_inv_terminated [OF assms(1)] assms(2)]
    by (simp add: name_taken_def)
  then show ?thesis
    using f_Name_eq [OF assms(2)]
    by (cases st) (auto simp: login_response_for_def login_code_def Let_def)
qed

text \<open>The notices about the users already there.\<close>

definition old_users_output :: "env \<Rightarrow> user_store \<Rightarrow> nat list \<Rightarrow> nat \<Rightarrow> u16 \<Rightarrow> (u16 \<times> byte list) list" where
  "old_users_output E s as a sk =
     concat (map (\<lambda>b. sent_msg E (User_Added 0 (take (unat (name_length (user_at s b))) (display_name (user_at s b)))) sk)
       (filter (\<lambda>b. b \<noteq> a \<and> logged_in (user_at s b)) as))"

lemma carries_msg_zero:
  assumes "user_ok u"
  shows "\<exists>m. build_User_Added E msg_zero (name u) (name_length u) use = ret m
    \<and> carries E m (User_Added (stamp_value E use) (take (unat (name_length u)) (display_name u)))"
proof -
  note u = user_name_string [OF assms]
  have "unat (name_length u) \<le> 543" using u(3) by simp
  from build_User_Added_carries [OF length_msg_zero _ u(1) this] show ?thesis by simp
qed

lemma send_self_carries:
  assumes "self_sock st = ret sk" and "carries E (msg st) w"
  shows "send_self E st = ret (st\<lparr>outbox := outbox st @ sent_msg E w sk\<rparr>)"
  using assms by (simp add: send_self_def carries_def send_to_frame sent_msg_def encode_def)

lemma old_users:
  assumes inv: "users_inv_at (ustore st) as" and a: "self st = Some a" "a \<in> set as"
    and m: "msg st = msg_zero"
  shows "over_users (old_user_body E) st = ret (st\<lparr>outbox := outbox st @
    old_users_output E (ustore st) as a (sock (user_at (ustore st) a))\<rparr>)"
proof -
  let ?s = "ustore st" and ?sk = "sock (user_at (ustore st) a)"
  let ?L = "?s\<lparr>user_lock := True\<rparr>"
  let ?g = "\<lambda>b. if b \<noteq> a \<and> logged_in (user_at ?s b) then sent_msg E (User_Added 0
      (take (unat (name_length (user_at ?s b))) (display_name (user_at ?s b)))) ?sk else []"
  let ?f = "\<lambda>b st. st\<lparr>outbox := outbox st @ ?g b\<rparr>"
  have at: "users_at ?s as" using inv by (simp add: users_inv_at_def)
  have step: "old_user_body E b (st'\<lparr>ustore := ?L\<rparr>) = ret (False, (?f b st')\<lparr>ustore := ?L\<rparr>)
      \<and> ustore (?f b st') = ?s \<and> self (?f b st') = Some a \<and> msg (?f b st') = msg_zero"
    if b: "b \<in> set as" and st': "ustore st' = ?s" "self st' = Some a \<and> msg st' = msg_zero" for b st'
  proof -
    have ok: "user_ok (user_at ?s b)" using inv b by (simp add: users_inv_at_def)
    obtain m where m: "build_User_Added E msg_zero (name (user_at ?s b)) (name_length (user_at ?s b)) False = ret m"
      "carries E m (User_Added 0 (take (unat (name_length (user_at ?s b))) (display_name (user_at ?s b))))"
      using carries_msg_zero [OF ok, of E False] by (auto simp: stamp_value_def)
    have "self_sock (st'\<lparr>ustore := ?L, msg := m\<rparr>) = ret ?sk"
      using st' a read_user_at [OF at a(2)] by (simp add: self_sock_def user_sock_def)
    moreover have "carries E (msg (st'\<lparr>ustore := ?L, msg := m\<rparr>))
        (User_Added 0 (take (unat (name_length (user_at ?s b))) (display_name (user_at ?s b))))"
      using m(2) by simp
    ultimately have snd: "send_self E (st'\<lparr>ustore := ?L, msg := m\<rparr>) = ret (st'\<lparr>ustore := ?L, msg := m,
        outbox := outbox st' @ sent_msg E (User_Added 0
          (take (unat (name_length (user_at ?s b))) (display_name (user_at ?s b)))) ?sk\<rparr>)"
      using send_self_carries by fastforce
    show ?thesis
      using st' m(1) snd
      by (cases st') (auto simp: old_user_body_def is_User_LoggedIn_def get_User_name_def
          get_User_name_length_def read_user_at [OF at b] clear_msg_def)
  qed
  have "over_users (old_user_body E) st = ret (fold ?f as st)"
    using acc.iterate_reading [OF at, of "\<lambda>s. self s = Some a \<and> msg s = msg_zero" "old_user_body E" ?f]
      step a m by simp
  then show ?thesis by (simp add: fold_outbox concat_if_filter old_users_output_def)
qed

definition login_len :: "byte list \<Rightarrow> u16" where
  "login_len nm = of_nat (5 + length nm)"

lemma unat_login_len: "length nm \<le> 31 \<Longrightarrow> unat (login_len nm) = 5 + length nm"
  unfolding login_len_def by (simp only: unat_of_nat) simp

lemma name_size_login_len: "length nm \<le> 31 \<Longrightarrow> name_size (login_len nm) = length nm"
  by (simp add: name_size_def unat_login_len)

text \<open>The state when the handler of a login starts.\<close>

definition login_state :: "byte list \<Rightarrow> server_state \<Rightarrow> server_state" where
  "login_state nm st = st\<lparr>connection_status := 3, msg_length := login_len nm,
     msg := received 0 (login_len nm) (login_body nm)\<rparr>"

lemma login_state_fields [simp]:
  "ustore (login_state nm st) = ustore st" "outbox (login_state nm st) = outbox st"
  "broadcast_queue (login_state nm st) = broadcast_queue st"
  "conf (login_state nm st) = conf st" "self (login_state nm st) = self st"
  "logs (login_state nm st) = logs st" "mq_maxmsg (login_state nm st) = mq_maxmsg st"
  "msg_length (login_state nm st) = login_len nm"
  "msg (login_state nm st) = received 0 (login_len nm) (login_body nm)"
  "broadcast_sem (login_state nm st) = broadcast_sem st"
  "broadcast_Paused (login_state nm st) = broadcast_Paused st"
  "closed_socks (login_state nm st) = closed_socks st"
  "disconnect_reason (login_state nm st) = disconnect_reason st"
  "agent_pc (login_state nm st) = agent_pc st" "agent_buffer (login_state nm st) = agent_buffer st"
  "own_user (login_state nm st) = own_user st"
  "server_string (login_state nm st) = server_string st"
  "client_ok (login_state nm st) as a = client_ok st as a"
  "queue_room R (login_state nm st) = queue_room R st"
  by (simp_all add: login_state_def queue_room_def)

lemma client_round_login:
  assumes "client_ok st as a" and "brings R 0 (login_len nm) (login_body nm)"
    and "0 < length nm" and "length nm \<le> 31"
  shows "client_round R st = bindR (handle_login R (login_state nm st)) (\<lambda>st. ret (True, st))"
proof -
  have n: "unat (login_len nm) = 5 + length nm" using assms(4) by (rule unat_login_len)
  have "dispatch R (receive_decision 0 (unat (login_len nm)) (login_body nm)) s = handle_login R s" for s
    unfolding n by (simp add: dispatch_def login_decision [OF assms(3,4)])
  then show ?thesis
    using client_round_brings [OF assms(1,2)] assms(4) n by (simp add: login_state_def)
qed

lemma login_name_copy:
  assumes "0 \<notin> set nm" and "length nm \<le> 30"
  shows "c_strncpy (replicate NET_NAME_LEN 0) 0
      (drop off_auth_name (received 0 (login_len nm) (login_body nm)))
      (name_size (login_len nm)) = ret (nm @ replicate (31 - length nm) 0)"
proof -
  have "name_size (login_len nm) = length nm"
    using assms(2) by (intro name_size_login_len) simp
  moreover have "drop off_auth_name (received 0 len (login_body nm)) = nm @ replicate (547 - length nm) 0" for len
  proof -
    have "drop off_auth_name (received 0 len (login_body nm)) = drop 5 (drop 3 (received 0 len (login_body nm)))"
      by (simp add: wire_simps)
    then show ?thesis unfolding drop3_received by (simp add: login_body_def)
  qed
  ultimately show ?thesis
    using assms by (simp add: buf_simps strncpy_image_exact patch_def wire_simps)
qed

text \<open>The first half of the handler: the decision on the name, and the answer to the client.\<close>

lemma handle_login_answer:
  assumes ok: "client_ok st as a" and nm: "0 \<notin> set nm" "length nm \<le> 30"
  shows "\<exists>m. handle_login R (login_state nm st) =
    (let st1 = clear_msg ((login_state nm st)\<lparr>msg := m, outbox := outbox st @ sent_msg (net_env R)
           (Login_Response (login_code (ustore st) as nm) (server_string st)) (sock (own_user st))\<rparr>) in
     if login_code (ustore st) as nm = LR_success then
         bindR (login_User (self st) (nm @ replicate (31 - length nm) 0) (of_nat (length nm)) (ustore st)) (\<lambda>(_, us).
         (let st = st1\<lparr>ustore := us\<rparr> in
         bindR (get_User_name (self st) (ustore st)) (\<lambda>nm.
         bindR (register_thread_log_under_Name (file_env R) (entry_memory R) (own_thread R) nm (logs st))
           (\<lambda>(_, lg).
             announce_login R (clear_msg (st\<lparr>logs := lg\<rparr>))))))
     else ret st1)"
proof -
  let ?st = "login_state nm st" and ?E = "net_env R" and ?ln = "nm @ replicate (31 - length nm) 0"
  let ?code = "login_code (ustore st) as nm"
  have inv: "users_inv_at (ustore ?st) as" and c: "config_ok (conf st)" using ok by (simp_all add: client_ok_def)
  have str: "c_string ?ln = ret nm" using nm by (intro c_string_padded_end) simp_all
  have lr: "login_response_for ?ln ?st = ret (?code, ?st)"
    using login_response_for_eq [OF inv str] by simp
  have l: "length (received 0 (login_len nm) (login_body nm)) = 555" using nm(2) by simp
  have "length (server_string st) \<le> 543" using config_strings(2) [OF c] by simp
  from build_login_response_carries [OF l config_strings(1) [OF c] this] obtain m where
    m: "build_login_response ?E (server_name (conf st)) (received 0 (login_len nm) (login_body nm)) ?code = ret m"
      "carries ?E m (Login_Response ?code (server_string st))" by blast
  have "self_sock (?st\<lparr>msg := m\<rparr>) = ret (sock (own_user st))"
    using read_selfs(1) [OF ok] by (simp add: self_sock_def)
  moreover have "carries ?E (msg (?st\<lparr>msg := m\<rparr>)) (Login_Response ?code (server_string st))"
    using m(2) by simp
  ultimately have snd: "send_self ?E (?st\<lparr>msg := m\<rparr>) = ret (?st\<lparr>msg := m, outbox := outbox st @
      sent_msg ?E (Login_Response ?code (server_string st)) (sock (own_user st))\<rparr>)"
    using send_self_carries by fastforce
  have ns: "(of_nat (name_size (login_len nm)) :: u16) = of_nat (length nm)"
    using nm(2) by (simp add: name_size_login_len)
  show ?thesis
    using lr m(1) snd ns
    by (intro exI [of _ m])
       (simp add: handle_login_def login_name_copy [OF nm] get_server_name_def Let_def clear_msg_def)
qed

lemma login_refused_effect:
  assumes "client_ok st as a" and "brings R 0 (login_len nm) (login_body nm)"
    and "0 < length nm" and "length nm \<le> 30" and "0 \<notin> set nm"
    and "name_taken (ustore st) as nm \<or> (\<exists>c \<in> set nm. \<not> name_byte_ok c)"
  shows "\<exists>st'. client_round R st = ret (True, st') \<and> ustore st' = ustore st
    \<and> client_ok st' as a \<and> unmoved st st' \<and> closed_socks st' = closed_socks st
    \<and> broadcast_Paused st' = broadcast_Paused st
    \<and> broadcast_queue st' = broadcast_queue st
    \<and> outbox st' = outbox st @ sent_msg (net_env R) (Login_Response
        (if \<exists>c \<in> set nm. \<not> name_byte_ok c then LR_name_invalid else LR_name_taken) (server_string st))
        (sock (own_user st))"
proof -
  have code: "login_code (ustore st) as nm =
      (if \<exists>c \<in> set nm. \<not> name_byte_ok c then LR_name_invalid else LR_name_taken)"
    using assms(6) by (auto simp: login_code_def)
  have "length nm \<le> 31" using assms(4) by simp
  note round = client_round_login [OF assms(1-3) this]
  have "login_code (ustore st) as nm \<noteq> LR_success" unfolding code by simp
  with handle_login_answer [OF assms(1,5,4), of R] show ?thesis
    using assms(1) unfolding round by (auto simp: Let_def clear_msg_def code unmoved_def client_ok_def)
qed

text \<open>C16: A login in a whole message, with a name of 1 to 30 bytes without NUL that a logged-in
  user shows or that has a forbidden character, is refused with exactly that reason, the character
  taking precedence: the client gets one response and the users, the queue and everybody else are as
  before.\<close>

theorem login_is_refused:
  assumes "client_ok st as a" and "brings R 0 (login_len nm) (login_body nm)"
    and "0 < length nm" and "length nm \<le> 30" and "0 \<notin> set nm"
    and "name_taken (ustore st) as nm \<or> (\<exists>c \<in> set nm. \<not> name_byte_ok c)"
  shows "\<exists>st'. client_round R st = ret (True, st') \<and> ustore st' = ustore st
    \<and> broadcast_queue st' = broadcast_queue st
    \<and> outbox st' = outbox st @ sent_msg (net_env R) (Login_Response
        (if \<exists>c \<in> set nm. \<not> name_byte_ok c then LR_name_invalid else LR_name_taken) (server_string st))
        (sock (own_user st))"
  using login_refused_effect [OF assms] by blast

theorem login_is_refused_witness:
  "\<exists>st'. client_round (example_round 0 (login_body [65, 66])) (example_server 1) = ret (True, st')
    \<and> ustore st' = example_room"
proof -
  have "name_taken (ustore (example_server 1)) [0, 1, 2] [65, 66]"
    unfolding name_taken_def by code_simp
  moreover have "brings (example_round 0 (login_body [65, 66])) 0 (login_len [65, 66]) (login_body [65, 66])"
    using example_round_brings [of 0 "login_body [65, 66]"] by (simp add: login_len_def)
  ultimately show ?thesis
    using login_is_refused [OF example_server_ok, of 1 _ "[65, 66]"] by fastforce
qed

definition memory_ok :: "round_input \<Rightarrow> server_state \<Rightarrow> bool" where
  "memory_ok R st \<longleftrightarrow> (\<forall>e. entry_memory R = Some e \<longrightarrow> heap (thread_names (logs st)) e = None)"

lemma add_no_memory:
  assumes "names_ok s as" and "c_string nm = ret n" and "length n < 256"
  shows "\<exists>p l bs. add_Thread_Name_Mapping None t nm s = ret (p, s\<lparr>thread_names := l\<rparr>)
    \<and> names_ok (s\<lparr>thread_names := l\<rparr>) bs"
proof (cases "List.find (\<lambda>a. thread_id (entry_at s a) = t) as")
  case None
  have at: "names_at s as" using assms(1) by (simp add: names_ok_def)
  have "add_Thread_Name_Mapping None t nm s = ret (None, s\<lparr>thread_names := thread_names s\<rparr>)"
    using None assms(2) by (simp add: add_Thread_Name_Mapping_def f_find_Entry_at [OF at] c_strlen_def)
  moreover have "names_ok (s\<lparr>thread_names := thread_names s\<rparr>) as" using assms(1) by simp
  ultimately show ?thesis by blast
next
  case (Some b)
  from add_known_name [OF assms(1) Some assms(2,3), of None] obtain h where
    h: "add_Thread_Name_Mapping None t nm s = ret (Some b, s\<lparr>thread_names := (thread_names s)\<lparr>heap := h\<rparr>\<rparr>)"
    "dll_ok ((thread_names s)\<lparr>heap := h\<rparr>) as"
    "\<forall>c. item_at h c = (if c = b then (entry_at s b)\<lparr>ename := patch (ename (entry_at s b)) 0 n\<rparr>
         else entry_at s c)" by blast
  have "entry_ok (entry_at s b)" using assms(1) Some by (auto simp: names_ok_def dest: find_key_mem)
  from entry_ok_patch [OF this assms(3)] h assms(1) show ?thesis
    by (intro exI [of _ "Some b"] exI [of _ "(thread_names s)\<lparr>heap := h\<rparr>"] exI [of _ as])
       (simp add: names_ok_def names_at_def entry_at_def)
qed

lemma register_any:
  assumes "log_inv s" and "c_string nm = ret n"
    and "\<And>e. m = Some e \<Longrightarrow> heap (thread_names s) e = None"
  shows "\<exists>k s'. register_thread_log_under_Name E m t nm s = ret (k, s') \<and> log_inv s'"
proof (cases m)
  case None
  obtain as where as: "names_ok s as" using assms(1) by (auto simp: log_inv_def)
  from add_no_memory [OF as named_log_string [OF c_string_nonzero [OF assms(2)]] named_log_short]
  obtain p l bs where "add_Thread_Name_Mapping None t (named_log n @ [0]) s = ret (p, s\<lparr>thread_names := l\<rparr>)"
    "names_ok (s\<lparr>thread_names := l\<rparr>) bs" by blast
  then show ?thesis
    using assms(1,2) None
    by (auto simp: register_thread_log_under_Name_def Let_def log_inv_def split: option.split)
next
  case (Some e)
  then show ?thesis using register_ok [OF assms(1,2)] assms(3) by simp
qed

lemma announce_login_effect:
  assumes inv: "users_inv_at (ustore st) as" and a: "self st = Some a" "a \<in> set as"
    and m: "msg st = msg_zero"
  shows "\<exists>q. announce_login R st = ret (st\<lparr>broadcast_queue :=
      (if queue_room R st then broadcast_queue st @ [q] else broadcast_queue st),
      outbox := outbox st @ old_users_output (net_env R) (ustore st) as a (sock (own_user st))\<rparr>)
    \<and> queued (net_env R) q (User_Added (stamp_value (net_env R) True)
        (take (unat (name_length (own_user st))) (own_name st)))"
proof -
  let ?E = "net_env R" and ?u = "own_user st"
  have at: "users_at (ustore st) as" using inv by (simp add: users_inv_at_def)
  have u: "?u = user_at (ustore st) a" using a by (simp add: own_user_def)
  have ok: "user_ok ?u" using inv a(2) u by (simp add: users_inv_at_def)
  have rd: "get_User_name (self st) (ustore st) = ret (name ?u)"
    "get_User_name_length (self st) (ustore st) = ret (name_length ?u)"
    using read_user_at [OF at a(2)] a(1) u by (simp_all add: get_User_name_def get_User_name_length_def)
  obtain m where m1: "build_User_Added ?E msg_zero (name ?u) (name_length ?u) True = ret m"
    "carries ?E m (User_Added (stamp_value ?E True) (take (unat (name_length ?u)) (display_name ?u)))"
    using carries_msg_zero [OF ok, of ?E True] by blast
  let ?q = "\<lparr>sender = None, qmsg = m\<rparr>"
  let ?s1 = "clear_msg (if queue_room R st then (st\<lparr>msg := m\<rparr>)\<lparr>broadcast_queue := broadcast_queue st @ [?q]\<rparr>
    else st\<lparr>msg := m\<rparr>)"
  have room: "queue_room R (st\<lparr>msg := m\<rparr>) = queue_room R st" by (simp add: queue_room_def)
  have "announce_login R st = over_users (old_user_body ?E) ?s1"
    using m rd m1(1) by (simp add: announce_login_def Let_def broadcast_message_room room)
  also have "\<dots> = ret (?s1\<lparr>outbox := outbox ?s1 @
      old_users_output ?E (ustore ?s1) as a (sock (user_at (ustore ?s1) a))\<rparr>)"
    using inv a by (intro old_users) (simp_all add: clear_msg_def)
  also have "\<dots> = ret (st\<lparr>broadcast_queue :=
      (if queue_room R st then broadcast_queue st @ [?q] else broadcast_queue st),
      outbox := outbox st @ old_users_output ?E (ustore st) as a (sock ?u)\<rparr>)"
    using m u by (cases st) (simp add: clear_msg_def)
  finally show ?thesis using m1(2) by (intro exI [of _ ?q]) (simp add: queued_def own_name_def)
qed

lemma with_name_fields [simp]:
  "sock (with_name u nm) = sock u" "logged_in (with_name u nm)"
  "length nm \<le> 31 \<Longrightarrow> unat (name_length (with_name u nm)) = length nm"
  by (simp_all add: with_name_def unat_length_name)

lemma display_with_name:
  assumes "user_ok u" and "0 \<notin> set nm" and "length nm \<le> 31"
  shows "display_name (with_name u nm) = nm @ takeWhile (\<lambda>c. c \<noteq> 0) (drop (length nm) (name u))"
  unfolding with_name_def using assms by (intro display_name_patch) (simp_all add: user_ok_def)

lemma login_own_step:
  assumes ok: "client_ok st as a" and nm: "0 \<notin> set nm" "length nm \<le> 30"
  shows "\<exists>us. login_User (self st) (nm @ replicate (31 - length nm) 0) (of_nat (length nm)) (ustore st)
      = ret (True, us) \<and> users_inv_at us as
    \<and> user_at us = (user_at (ustore st))(a := with_name (own_user st) nm)"
proof -
  have inv: "users_inv_at (ustore st) as" and a: "a \<in> set as" "self st = Some a"
    using ok by (simp_all add: client_ok_def)
  have n: "unat (of_nat (length nm) :: u16) = length nm" using nm(2) by (simp add: unat_length_name)
  have "unat (of_nat (length nm) :: u16) \<le> 31" using n nm(2) by simp
  from login_step [OF inv a(1) this, of "nm @ replicate (31 - length nm) 0"] show ?thesis
    using a nm n by (auto simp: with_name_def own_user_def strncpy_image_exact)
qed

lemma login_succeeds_effect:
  assumes "client_ok st as a" and "brings R 0 (login_len nm) (login_body nm)"
    and "0 < length nm" and "length nm \<le> 30" and "\<forall>c \<in> set nm. name_byte_ok c"
    and "\<not> name_taken (ustore st) as nm" and "memory_ok R st"
  shows "\<exists>st' q. client_round R st = ret (True, st') \<and> client_ok st' as a \<and> unmoved st st'
    \<and> closed_socks st' = closed_socks st \<and> broadcast_Paused st' = broadcast_Paused st
    \<and> user_at (ustore st') = (user_at (ustore st))(a := with_name (own_user st) nm)
    \<and> broadcast_queue st' = (if queue_room R st then broadcast_queue st @ [q] else broadcast_queue st)
    \<and> queued (net_env R) q (User_Added (stamp_value (net_env R) True) nm)
    \<and> outbox st' = outbox st
        @ sent_msg (net_env R) (Login_Response LR_success (server_string st)) (sock (own_user st))
        @ old_users_output (net_env R) (ustore st) as a (sock (own_user st))"
proof -
  let ?E = "net_env R" and ?sk = "sock (own_user st)"
  have z: "0 \<notin> set nm" using assms(5) by (auto simp: name_byte_ok_def)
  have code: "login_code (ustore st) as nm = LR_success" using assms(5,6) by (simp add: login_code_def)
  have "length nm \<le> 31" using assms(4) by simp
  note round = client_round_login [OF assms(1-3) this]
  have inv: "users_inv_at (ustore st) as" and a: "a \<in> set as" "self st = Some a" and lg: "log_inv (logs st)"
    using assms(1) by (simp_all add: client_ok_def)
  have oku: "user_ok (own_user st)" using inv a by (simp add: own_user_def users_inv_at_def)
  obtain us where us: "login_User (self st) (nm @ replicate (31 - length nm) 0) (of_nat (length nm)) (ustore st)
      = ret (True, us)" "users_inv_at us as"
    "user_at us = (user_at (ustore st))(a := with_name (own_user st) nm)"
    using login_own_step [OF assms(1) z assms(4)] by blast
  have at: "users_at us as" using us(2) by (simp add: users_inv_at_def)
  have nmr: "get_User_name (self st) us = ret (name (with_name (own_user st) nm))"
    using read_user_at [OF at a(1)] a(2) us(3) by (simp add: get_User_name_def)
  have "user_ok (with_name (own_user st) nm)" using us(2,3) a(1) by (auto simp: users_inv_at_def)
  then have "c_string (name (with_name (own_user st) nm)) = ret (display_name (with_name (own_user st) nm))"
    by (rule user_name_string(1))
  from register_any [OF lg this, of "entry_memory R" "file_env R" "own_thread R"] assms(7) obtain k lg' where
    reg: "register_thread_log_under_Name (file_env R) (entry_memory R) (own_thread R)
      (name (with_name (own_user st) nm)) (logs st) = ret (k, lg')" "log_inv lg'"
    by (auto simp: memory_ok_def)
  obtain m where hl: "handle_login R (login_state nm st) =
    announce_login R (clear_msg ((login_state nm st)\<lparr>msg := msg_zero, outbox := outbox st @ sent_msg ?E
      (Login_Response LR_success (server_string st)) ?sk, ustore := us, logs := lg'\<rparr>))"
    using handle_login_answer [OF assms(1) z assms(4), of R] us(1) nmr reg(1)
    by (auto simp: code Let_def clear_msg_def)
  let ?s2 = "clear_msg ((login_state nm st)\<lparr>msg := msg_zero, outbox := outbox st @ sent_msg ?E
      (Login_Response LR_success (server_string st)) ?sk, ustore := us, logs := lg'\<rparr>)"
  have s2: "ustore ?s2 = us" "self ?s2 = Some a" "msg ?s2 = msg_zero"
    "queue_room R ?s2 = queue_room R st" "broadcast_queue ?s2 = broadcast_queue st"
    "outbox ?s2 = outbox st @ sent_msg ?E (Login_Response LR_success (server_string st)) ?sk"
    "own_user ?s2 = with_name (own_user st) nm"
    using a us(3) by (simp_all add: clear_msg_def queue_room_def own_user_def)
  have "users_inv_at (ustore ?s2) as" using us(2) unfolding s2 .
  from announce_login_effect [OF this s2(2) a(1) s2(3), of R, unfolded s2] obtain q where
    q: "announce_login R ?s2 = ret (?s2\<lparr>broadcast_queue :=
        (if queue_room R st then broadcast_queue st @ [q] else broadcast_queue st),
      outbox := (outbox st @ sent_msg ?E (Login_Response LR_success (server_string st)) ?sk)
        @ old_users_output ?E us as a (sock (with_name (own_user st) nm))\<rparr>)"
    "queued ?E q (User_Added (stamp_value ?E True)
        (take (unat (name_length (with_name (own_user st) nm))) (own_name ?s2)))" by blast
  have "take (unat (name_length (with_name (own_user st) nm))) (own_name ?s2) = nm"
    using display_with_name [OF oku z] assms(4) s2(7) by (simp add: own_name_def)
  moreover have "old_users_output ?E us as a sk = old_users_output ?E (ustore st) as a sk" for sk
    unfolding old_users_output_def us(3)
    by (intro arg_cong [where f = concat] map_cong filter_cong refl) simp_all
  ultimately show ?thesis
    using round hl q assms(1) us(2,3) reg(2)
    by (intro exI [of _ "?s2\<lparr>broadcast_queue :=
        (if queue_room R st then broadcast_queue st @ [q] else broadcast_queue st),
      outbox := (outbox st @ sent_msg ?E (Login_Response LR_success (server_string st)) ?sk)
        @ old_users_output ?E us as a (sock (with_name (own_user st) nm))\<rparr>"] exI [of _ q])
       (simp add: client_ok_def clear_msg_def unmoved_def)
qed

text \<open>A login under a free name of allowed characters succeeds: the client gets the success with the
  server's name and then, in the order of the list, a notice for every user already logged in; a
  notice of the new user with the clock's time goes into the queue for everybody when it has room;
  and exactly the client's own entry becomes logged in under the name.\<close>

theorem login_succeeds:
  assumes "client_ok st as a" and "brings R 0 (login_len nm) (login_body nm)"
    and "0 < length nm" and "length nm \<le> 30" and "\<forall>c \<in> set nm. name_byte_ok c"
    and "\<not> name_taken (ustore st) as nm" and "memory_ok R st"
  shows "\<exists>st' q. client_round R st = ret (True, st') \<and> client_ok st' as a
    \<and> user_at (ustore st') = (user_at (ustore st))(a := with_name (own_user st) nm)
    \<and> broadcast_queue st' = (if queue_room R st then broadcast_queue st @ [q] else broadcast_queue st)
    \<and> queued (net_env R) q (User_Added (stamp_value (net_env R) True) nm)
    \<and> outbox st' = outbox st
        @ sent_msg (net_env R) (Login_Response LR_success (server_string st)) (sock (own_user st))
        @ old_users_output (net_env R) (ustore st) as a (sock (own_user st))"
  using login_succeeds_effect [OF assms] by blast

theorem login_succeeds_witness:
  "\<exists>st' q. client_round (example_round 0 (login_body [67, 68])) (example_server 1) = ret (True, st')
    \<and> client_ok st' [0, 1, 2] 1 \<and> broadcast_queue st' = [q]
    \<and> queued example_env q (User_Added (stamp_value example_env True) [67, 68])"
proof -
  have "\<not> name_taken (ustore (example_server 1)) [0, 1, 2] [67, 68]"
    unfolding name_taken_def by code_simp
  moreover have "brings (example_round 0 (login_body [67, 68])) 0 (login_len [67, 68]) (login_body [67, 68])"
    using example_round_brings [of 0 "login_body [67, 68]"] by (simp add: login_len_def)
  moreover have "memory_ok (example_round 0 (login_body [67, 68])) (example_server 1)"
    by (simp add: memory_ok_def example_round_def example_server_def log_initial_def dll_empty_def)
  moreover have "\<forall>c \<in> set [67, 68]. name_byte_ok c" by code_simp
  ultimately show ?thesis
    using login_succeeds [OF example_server_ok, of 1 _ "[67, 68]"] by fastforce
qed

end
