(* ===== verification/Client_Faults.thy ===== *)
theory Client_Faults
  imports Client_Login
begin

text \<open>
  The messages that pass the checks of \<^verbatim>\<open>network_Receive\<close> and take the thread of a client out of its
  defined behaviour: a login name of the full 31 bytes, and a kick without a name or with a long one. They
  are what the other theories leave out of the messages they are about.
\<close>

section \<open>A login name without a terminator\<close>

lemma c_streq_unterminated:
  "0 \<notin> set a \<Longrightarrow> 0 \<in> set b \<Longrightarrow> c_streq a b = ret False \<or> c_streq a b = fail Out_Of_Bounds"
  by (induction a b rule: c_streq.induct) auto

lemma name_free_from_unterminated:
  assumes "dseg h p pv as None z" and "0 \<notin> set nm" and "\<forall>a \<in> set as. 0 \<in> set (name (item_at h a))"
  shows "name_free_from nm h p = ret True \<or> name_free_from nm h p = fail Out_Of_Bounds"
  using assms
proof (induction as arbitrary: p pv)
  case Nil
  then show ?case by (simp add: name_free_from.simps)
next
  case (Cons a as)
  then obtain n where n: "h a = Some n" "p = Some a" "dseg h (next_ptr n) (Some a) as None z"
    by (auto split: option.splits)
  then have "0 \<in> set (name (item n))" using Cons.prems(3) by (simp add: item_at_def)
  from c_streq_unterminated [OF Cons.prems(2) this] Cons.IH [OF n(3) Cons.prems(2)] Cons.prems(3) n(1,2) show ?case
    by (subst (1 2) name_free_from.simps) auto
qed

lemma login_response_unterminated:
  assumes inv: "users_inv_at (ustore st) as" and nm: "0 \<notin> set ln"
  shows "login_response_for ln st = fail Out_Of_Bounds"
proof -
  have at: "users_at (ustore st) as" using inv by (simp add: users_inv_at_def)
  then have seg: "dseg (heap (users (ustore st))) (dfront (users (ustore st))) None as None (dback (users (ustore st)))"
    and free: "\<not> user_lock (ustore st)"
    by (simp_all add: users_at_def dll_ok_def)
  have "\<forall>a \<in> set as. 0 \<in> set (name (item_at (heap (users (ustore st))) a))"
    using users_inv_terminated [OF inv] by (simp add: terminated_def user_at_def)
  from name_free_from_unterminated [OF seg nm this]
  have "(\<exists>us. is_name_free ln (ustore st) = ret (True, us)) \<or> is_name_free ln (ustore st) = fail Out_Of_Bounds"
    using free by (auto simp: is_name_free_def lock_user_mutex_def)
  moreover have "f_Name_has_forbidden_char ln = fail Out_Of_Bounds"
    using nm by (simp add: f_Name_has_forbidden_char_def c_string_def)
  ultimately show ?thesis by (auto simp: login_response_for_def Let_def)
qed

text \<open>C33: The receiver and the login disagree about the length of a name: \<^verbatim>\<open>network_Receive\<close> accepts a login
  with a name of 31 bytes, and the handler copies it into an array of 31 bytes without a terminator and
  reads past its end. On a server that is well formed and whose client waits for a message, the thread's
  round ends in that overrun, whatever the bytes of the name are apart from NUL and whoever is in the
  list.\<close>

theorem login_of_31_bytes_overruns:
  assumes "client_ok st as a" and "brings R 0 (login_len nm) (login_body nm)"
    and "length nm = 31" and "0 \<notin> set nm"
  shows "receive_decision 0 (length (login_body nm)) (login_body nm) = NV_Received_login
    \<and> client_round R st = fail Out_Of_Bounds"
proof
  have len: "0 < length nm" "length nm \<le> 31" using assms(3) by simp_all
  show "receive_decision 0 (length (login_body nm)) (login_body nm) = NV_Received_login"
    using login_decision [OF len] by simp
  have drop: "drop off_auth_name (received 0 (login_len nm) (login_body nm)) = nm @ replicate (547 - length nm) 0"
  proof -
    have "drop off_auth_name (received 0 (login_len nm) (login_body nm)) =
        drop 5 (drop 3 (received 0 (login_len nm) (login_body nm)))" by (simp add: wire_simps)
    then show ?thesis unfolding drop3_received by (simp add: login_body_def)
  qed
  have "c_strncpy (replicate NET_NAME_LEN 0) 0 (drop off_auth_name (received 0 (login_len nm) (login_body nm)))
      (name_size (login_len nm)) = ret nm"
    unfolding drop name_size_login_len [OF len(2)]
    using assms(3,4) by (simp add: buf_simps strncpy_image_exact patch_def wire_simps)
  moreover have "users_inv_at (ustore (login_state nm st)) as" using assms(1) by (simp add: client_ok_def)
  ultimately have "handle_login R (login_state nm st) = fail Out_Of_Bounds"
    using login_response_unterminated [OF _ assms(4)] by (simp add: handle_login_def Let_def)
  then show "client_round R st = fail Out_Of_Bounds"
    using client_round_login [OF assms(1,2) len] by simp
qed

theorem login_of_31_bytes_overruns_witness:
  "client_round (example_round 0 (login_body (replicate 31 65))) (example_server 1) = fail Out_Of_Bounds"
proof -
  have "brings (example_round 0 (login_body (replicate 31 65))) 0 (login_len (replicate 31 65)) (login_body (replicate 31 65))"
    using example_round_brings [of 0 "login_body (replicate 31 65)"] by (simp add: login_len_def)
  then show ?thesis
    using login_of_31_bytes_overruns [OF example_server_ok, of 1 _ "replicate 31 65"] by simp
qed

section \<open>A kick without a name, and with a long one\<close>

lemma kick_argument_faulty:
  assumes "\<forall>c \<in> set gap. c_isspace c" and "gap = [] \<longrightarrow> nm = []" and "0 \<notin> set nm"
    and "nm = [] \<or> \<not> c_isspace (hd nm) \<and> 10 \<notin> set nm \<and> 30 < length nm"
    and "length (bytes_of ''/kick'' @ gap @ nm) \<le> 511"
  shows "kick_argument (drop off_text (received 2 len (bytes_of ''/kick'' @ gap @ nm))) =
    (if nm = [] then ret None else fail Out_Of_Bounds)"
proof -
  let ?body = "[] @ bytes_of ''/kick'' @ gap @ nm"
  have d: "drop off_text (received 2 len (bytes_of ''/kick'' @ gap @ nm)) = ?body @ 0 # replicate (551 - length ?body) 0"
    using assms(5) drop3_received [of 2 len "bytes_of ''/kick'' @ gap @ nm"]
    by (simp add: wire_simps flip: replicate_Suc)
  have w: "words_text [] (bytes_of ''/kick'') []" using command_word [of "''/kick''"] by (simp add: words_text_def)
  have g: "0 \<notin> set gap" using assms(1) c_isspace_nonzero by auto
  then have z: "0 \<notin> set ?body" using command_word(2) [of "''/kick''"] assms(3) by simp
  show ?thesis
  proof (cases "gap = []")
    case False
    then show ?thesis unfolding d using kick_argument_text [OF w assms(1) _ z] assms(4) by auto
  next
    case True
    then have nm: "nm = []" using assms(2) by simp
    have "scan_rest_of_line 31 (bytes_of ''/kick'') = None" by code_simp
    then show ?thesis
      unfolding d using z True nm by (simp add: kick_argument_def c_string_app)
  qed
qed

text \<open>C34: A kick needs a name of 1 to 30 bytes. The administrator's \<^verbatim>\<open>/kick\<close>, in a text of at most 511
  bytes without NUL, compares the users' names with an array nobody wrote when no name follows, and
  writes the terminator behind the array of 31 bytes when a name of 31 bytes or more without a line end
  follows the blanks: the round ends in the uninitialised read or in the overrun.\<close>

theorem kick_needs_a_short_name:
  assumes "admin_command st as a R ''/kick'' (gap @ nm)" and "\<forall>c \<in> set gap. c_isspace c"
    and "gap = [] \<longrightarrow> nm = []"
    and "nm = [] \<or> \<not> c_isspace (hd nm) \<and> 10 \<notin> set nm \<and> 30 < length nm"
  shows "client_round R st = fail (if nm = [] then Uninit_Read else Out_Of_Bounds)"
proof -
  let ?w = "''/kick''" and ?E = "net_env R"
  let ?body = "bytes_of ?w @ gap @ nm"
  have w: "?w \<in> {''/kick'', ''/pause'', ''/resume'', ''/shutdown'', ''/help''}" by simp
  have ok: "client_ok st as a" and l: "length ?body \<le> 511" and z: "0 \<notin> set nm"
    using assms(1) by (simp_all add: admin_command_def)
  have co: "command_of (bytes_of ?w) = AC_Kick"
    by (simp add: command_of_def command_words_def bytes_of_def)
  obtain len where r: "client_round R st = bindR (command_kick ?E (received_state len ?body st)) (\<lambda>st. ret (True, st))"
  proof (rule admin_round [OF assms(1) w])
    fix len
    assume "client_round R st = bindR (run_admin_command ?E (command_of (bytes_of ?w))
      (received_state len ?body st)) (\<lambda>st. ret (True, st))"
    then show thesis unfolding co by (intro that [of len]) (simp add: run_admin_command_def)
  qed
  let ?st = "received_state len ?body st"
  have k: "kick_argument (drop off_text (msg ?st)) = (if nm = [] then ret None else fail Out_Of_Bounds)"
    using kick_argument_faulty [OF assms(2,3) z assms(4) l] by simp
  show ?thesis
  proof (cases "nm = []")
    case False
    then show ?thesis using r k by (simp add: command_kick_def)
  next
    case True
    have at: "users_at (ustore st) as" and "a \<in> set as" using ok client_ok_at by (auto simp: client_ok_def)
    then obtain b bs where as: "as = b # bs" by (cases as) auto
    have "ITERATE_OVER_USERS (\<lambda>p. ustore (snd p)) (\<lambda>s p. (fst p, (snd p)\<lparr>ustore := s\<rparr>)) (kick_body None) (False, ?st) =
      bindR (for_each (kick_body None) as (False, ?st\<lparr>ustore := (ustore st)\<lparr>user_lock := True\<rparr>\<rparr>)) (\<lambda>p.
        ret (fst p, (snd p)\<lparr>ustore := unlock_user_mutex (ustore (snd p))\<rparr>))"
      using kick.iterate_all [of "(False, ?st)" as "\<lambda>p. links (ustore (snd p)) = links (ustore st)" "kick_body None"]
        at kick_body_links by (simp add: links_def [abs_def])
    moreover have "kick_body None b (False, ?st\<lparr>ustore := (ustore st)\<lparr>user_lock := True\<rparr>\<rparr>) = fail Uninit_Read"
      using as by (simp add: kick_body_def get_User_name_def read_user_at [OF at, of b])
    ultimately show ?thesis using r k True by (simp add: command_kick_def as)
  qed
qed

theorem kick_needs_a_short_name_witness:
  "client_round (example_round 2 (bytes_of ''/kick'')) (example_server 2) = fail Uninit_Read
   \<and> client_round (example_round 2 (bytes_of ''/kick'' @ 32 # replicate 31 65)) (example_server 2) = fail Out_Of_Bounds"
proof -
  have "admin_command (example_server 2) [0, 1, 2] 2 (example_round 2 (bytes_of ''/kick'' @ ([] @ []))) ''/kick'' ([] @ [])"
    by (rule example_admin_command) (simp_all add: bytes_of_def)
  moreover have "admin_command (example_server 2) [0, 1, 2] 2
      (example_round 2 (bytes_of ''/kick'' @ ([32] @ replicate 31 65))) ''/kick'' ([32] @ replicate 31 65)"
    by (rule example_admin_command) (simp_all add: bytes_of_def c_isspace_def)
  ultimately show ?thesis
    using kick_needs_a_short_name [of _ _ _ _ "[]" "[]"] kick_needs_a_short_name [of _ _ _ _ "[32]" "replicate 31 65"]
    by (fastforce simp: c_isspace_def)
qed

end
