(* ===== verification/Client_End.thy ===== *)
theory Client_End
  imports Client_Behaviour
begin

text \<open>
  The end of a client's thread: what it does when its socket has nothing more to read, for the
  other users and for the list.
\<close>

section \<open>Leaving the loop\<close>

text \<open>An input on which the thread leaves its loop: the peer closed the connection, or an error.\<close>

definition gone :: "round_input \<Rightarrow> bool" where
  "gone R \<longleftrightarrow> header_io R = IO_Error \<or> header_io R = IO_Data []"

definition left_status :: "round_input \<Rightarrow> int" where
  "left_status R = (if header_io R = IO_Error then -1 else 0)"

lemma client_round_gone:
  assumes "client_ok st as a" and "gone R"
  shows "client_round R st = ret (False, st\<lparr>msg := msg_zero, connection_status := left_status R\<rparr>)"
proof -
  have "self_sock (clear_msg st) = self_sock st" by (simp add: self_sock_def clear_msg_def)
  moreover have "Check_for_Message (header_io R) msg_zero = ret (left_status R, msg_zero)"
    using assms(2) by (auto simp: gone_def Check_for_Message_def sys_read_def left_status_def
        mem_write_def patch_def wire_simps)
  ultimately show ?thesis
    using assms(1) by (cases st) (simp add: client_round_def Let_def read_selfs clear_msg_def left_status_def)
qed

section \<open>The way out\<close>

definition leave_code :: "server_state \<Rightarrow> client_disconnect_code" where
  "leave_code st = (if should_shutdown (own_user st) then CD_kicked_from_the_server else disconnect_reason st)"

definition leave_notice :: "env \<Rightarrow> server_state \<Rightarrow> server_msg" where
  "leave_notice E st = User_Removed (stamp_value E True) (leave_code st)
     (strncpy_image (name (own_user st)) (unat (name_length (own_user st))))"

definition leave_output :: "env \<Rightarrow> server_state \<Rightarrow> nat list \<Rightarrow> nat \<Rightarrow> (u16 \<times> byte list) list" where
  "leave_output E st as a =
     (if name_length (own_user st) = 0 then []
      else concat (map (\<lambda>b. sent_msg E (leave_notice E st) (sock (user_at (ustore st) b)))
             (filter (\<lambda>b. b \<noteq> a \<and> logged_in (user_at (ustore st) b)) as)))"

lemma removed_notice:
  assumes "user_ok u"
  shows "\<exists>m. build_User_Removed E msg_zero c (name u) (name_length u) = ret m
    \<and> carries E m (User_Removed (stamp_value E True) c (strncpy_image (name u) (unat (name_length u))))"
proof -
  note u = user_name_string [OF assms]
  have "drop 12 msg_zero = replicate 543 0" by (simp add: msg_zero_def wire_simps)
  moreover have "unat (name_length u) \<le> 542" using u(3) by simp
  ultimately show ?thesis using build_User_Removed_carries [OF length_msg_zero _ u(1)] by blast
qed

lemma others_notified:
  assumes at: "users_at (ustore st) as" and a: "self st = Some a" and m: "carries E (msg st) w"
  shows "over_users (send_if E others_test) st = ret (st\<lparr>outbox := outbox st @
    concat (map (\<lambda>b. sent_msg E w (sock (user_at (ustore st) b)))
      (filter (\<lambda>b. b \<noteq> a \<and> logged_in (user_at (ustore st) b)) as))\<rparr>)"
proof -
  have f: "carries_frame E (msg st) (msg_type w) (msg_body w)" using m by (simp add: carries_def)
  have "others_test b st' = ret (b \<noteq> a \<and> logged_in (user_at (ustore st) b))"
    if "b \<in> set as" "ustore st' = (ustore st)\<lparr>user_lock := True\<rparr>" "self st' = self st" for b st'
    using that a
    by (simp add: others_test_def is_User_LoggedIn_def read_user_at [OF at that(1)] conj_commute)
  from over_users_send_if [OF at f this] show ?thesis
    by (simp add: sent_msg_def encode_def)
qed

lemma logout_step:
  assumes "users_inv_at s as" and "a \<in> set as"
  shows "\<exists>us. logout_user (Some a) s = ret us \<and> users_inv_at us as
    \<and> user_at us = (user_at s)(a := (user_at s a)\<lparr>logged_in := False\<rparr>)"
proof -
  have "user_ok (user_at s a)" using assms by (simp add: users_inv_at_def)
  then show ?thesis
    unfolding logout_user_def by (intro update_step [OF assms]) (simp_all add: user_ok_def)
qed

lemma remove_own:
  assumes "users_inv_at s as" and "as = xs @ a # ys"
  shows "\<exists>us. remove_User (sock (user_at s a)) s = ret (True, us) \<and> users_inv_at us (xs @ ys)
    \<and> (\<forall>b \<in> set (xs @ ys). user_at us b = user_at s b)"
proof -
  have at: "users_at s (xs @ a # ys)" and new: "sock (user_at s a) \<notin> sock ` user_at s ` set xs"
    using assms by (auto simp: users_inv_at_def)
  obtain us where us: "remove_User (sock (user_at s a)) s = ret (True, us)" "users_at us (xs @ ys)"
    "\<forall>b \<in> set (xs @ ys). user_at us b = user_at s b"
    using remove_User_at [OF at new] by blast
  have "users_inv_at us (xs @ ys)"
  proof (rule users_inv_atI [OF us(2)])
    have eq: "map (\<lambda>b. sock (user_at us b)) (xs @ ys) = map (\<lambda>b. sock (user_at s b)) (xs @ ys)"
      using us(3) by simp
    show "distinct (map (\<lambda>b. sock (user_at us b)) (xs @ ys))"
      unfolding eq using assms by (simp add: users_inv_at_def)
    show "user_ok (user_at us b)" if "b \<in> set (xs @ ys)" for b
      using that us(3) assms by (auto simp: users_inv_at_def)
  qed
  with us show ?thesis by blast
qed

lemma client_end_effect:
  assumes ok: "client_ok st as a" and as: "as = xs @ a # ys"
    and m: "msg st = msg_zero" and cs: "connection_status st \<le> 0"
  shows "\<exists>st'. client_end E st = ret st' \<and> users_inv_at (ustore st') (xs @ ys)
    \<and> (\<forall>b \<in> set (xs @ ys). user_at (ustore st') b = user_at (ustore st) b)
    \<and> closed_socks st' = closed_socks st @ [sock (own_user st)]
    \<and> broadcast_queue st' = broadcast_queue st \<and> outbox st' = outbox st @ leave_output E st as a
    \<and> broadcast_sem st' = broadcast_sem st \<and> broadcast_Paused st' = broadcast_Paused st
    \<and> conf st' = conf st \<and> logs st' = logs st \<and> disconnect_reason st' = leave_code st
    \<and> self st' = self st \<and> mq_maxmsg st' = mq_maxmsg st \<and> agent_pc st' = agent_pc st"
proof -
  have inv: "users_inv_at (ustore st) as" and a: "a \<in> set as" "self st = Some a"
    using ok by (simp_all add: client_ok_def)
  let ?u = "own_user st"
  have u: "?u = user_at (ustore st) a" using a by (simp add: own_user_def)
  obtain us where us: "logout_user (Some a) (ustore st) = ret us" "users_inv_at us as"
    "user_at us = (user_at (ustore st))(a := ?u\<lparr>logged_in := False\<rparr>)"
    using logout_step [OF inv a(1)] u by auto
  let ?s1 = "st\<lparr>ustore := us\<rparr>"
  let ?s2 = "?s1\<lparr>disconnect_reason := leave_code st\<rparr>"
  have at: "users_at us as" using us(2) by (simp add: users_inv_at_def)
  have ne: "connection_status st \<noteq> cs_code CS_Closed_Connection" using cs by simp
  have reason: "(if should_shutdown ?u then ?s1\<lparr>disconnect_reason := CD_kicked_from_the_server\<rparr> else ?s1) = ?s2"
    by (cases st) (simp add: leave_code_def own_user_def)
  have oku: "user_ok ?u" using inv a(1) u by (simp add: users_inv_at_def)
  obtain mb where mb: "build_User_Removed E msg_zero (leave_code st) (name ?u) (name_length ?u) = ret mb"
    "carries E mb (leave_notice E st)"
    using removed_notice [OF oku] by (auto simp: leave_notice_def)
  have eq: "sock (user_at us b) = sock (user_at (ustore st) b)"
    "b \<noteq> a \<Longrightarrow> logged_in (user_at us b) = logged_in (user_at (ustore st) b)" for b
    using us(3) u by simp_all
  let ?s3 = "?s2\<lparr>msg := mb\<rparr>"
  have tell: "over_users (send_if E others_test) ?s3 = ret (?s3\<lparr>outbox := outbox st @
      concat (map (\<lambda>b. sent_msg E (leave_notice E st) (sock (user_at (ustore st) b)))
        (filter (\<lambda>b. b \<noteq> a \<and> logged_in (user_at (ustore st) b)) as))\<rparr>)"
  proof -
    have "filter (\<lambda>b. b \<noteq> a \<and> logged_in (user_at us b)) as =
        filter (\<lambda>b. b \<noteq> a \<and> logged_in (user_at (ustore st) b)) as"
      by (rule filter_cong [OF refl]) (use eq in auto)
    then show ?thesis using others_notified [of ?s3 as a E "leave_notice E st"] at a mb(2) eq(1) by simp
  qed
  let ?s4 = "if name_length ?u \<noteq> 0 then ?s3\<lparr>outbox := outbox st @ leave_output E st as a\<rparr> else ?s2"
  have s4: "ustore ?s4 = us" "self ?s4 = Some a" "closed_socks ?s4 = closed_socks st"
    "broadcast_queue ?s4 = broadcast_queue st" "outbox ?s4 = outbox st @ leave_output E st as a"
    "broadcast_sem ?s4 = broadcast_sem st" "broadcast_Paused ?s4 = broadcast_Paused st"
    "conf ?s4 = conf st" "logs ?s4 = logs st" "disconnect_reason ?s4 = leave_code st"
    "mq_maxmsg ?s4 = mq_maxmsg st" "agent_pc ?s4 = agent_pc st"
    using a by (simp_all add: leave_output_def)
  have sk: "user_sock (Some a) us = ret (sock ?u)" 
    using us(3) by (simp add: user_sock_def read_user_at [OF at a(1)])
  obtain us' where us': "remove_User (sock ?u) us = ret (True, us')" "users_inv_at us' (xs @ ys)"
    "\<forall>b \<in> set (xs @ ys). user_at us' b = user_at us b"
    using remove_own [OF us(2) as] us(3) by auto
  have "client_end E st = bindR (ret ?s4) (\<lambda>st.
     bindR (self_sock st) (\<lambda>sk.
     (let st = st\<lparr>closed_socks := closed_socks st @ [sk]\<rparr> in
     bindR (self_sock st) (\<lambda>sk.
     bindR (remove_User sk (ustore st)) (\<lambda>(_, us).
       ret (st\<lparr>ustore := us\<rparr>))))))"
    using us a ne reason mb(1) m tell
    by (auto simp: client_end_def Let_def read_user_at [OF at a(1)] should_User_shutdown_def get_User_name_length_def
        get_User_name_def leave_output_def)
  also have "\<dots> = ret (?s4\<lparr>closed_socks := closed_socks st @ [sock ?u], ustore := us'\<rparr>)"
    using s4 sk us'(1) by (simp add: self_sock_def Let_def del: if_split)
  finally have res: "client_end E st = ret (?s4\<lparr>closed_socks := closed_socks st @ [sock ?u], ustore := us'\<rparr>)" .
  have "a \<notin> set (xs @ ys)" using inv as by (auto simp: users_inv_at_def)
  then have "\<forall>b \<in> set (xs @ ys). user_at us' b = user_at (ustore st) b" using us'(3) us(3) by auto
  then show ?thesis unfolding res using us'(2) s4 a(2) by simp
qed

text \<open>C22: When the connection of a client is closed by the peer or fails, while the shared
  variables still name this client and no other thread acts until its thread has left, the thread leaves
  the loop and exactly its own entry leaves the list: every other entry is as it was, the socket is
  closed, and when it ever had a name every other logged-in user gets one notice of the removal with
  that name. The reason in the notice is the kick when the user was marked for shutdown and the thread's
  reason of before otherwise: a connection the client closed is never reported as such.\<close>

theorem client_leaves:
  assumes "client_ok st (xs @ a # ys) a" and "gone R"
  shows "\<exists>st1 st'. client_loop [R] st = ret (False, st1) \<and> client_end E st1 = ret st'
    \<and> users_inv_at (ustore st') (xs @ ys)
    \<and> (\<forall>b \<in> set (xs @ ys). user_at (ustore st') b = user_at (ustore st) b)
    \<and> closed_socks st' = closed_socks st @ [sock (own_user st)]
    \<and> broadcast_queue st' = broadcast_queue st
    \<and> outbox st' = outbox st @ leave_output E st (xs @ a # ys) a
    \<and> (disconnect_reason st \<noteq> CD_connection_closed_by_client \<longrightarrow> leave_code st \<noteq> CD_connection_closed_by_client)"
proof -
  let ?s = "st\<lparr>msg := msg_zero, connection_status := left_status R\<rparr>"
  have r: "client_loop [R] st = ret (False, ?s)" using client_round_gone [OF assms] by simp
  have ok: "client_ok ?s (xs @ a # ys) a" using assms(1) by simp
  have "connection_status ?s \<le> 0" by (simp add: left_status_def)
  from client_end_effect [OF ok refl _ this, of E] obtain st' where st': "client_end E ?s = ret st'"
    "users_inv_at (ustore st') (xs @ ys)"
    "\<forall>b \<in> set (xs @ ys). user_at (ustore st') b = user_at (ustore ?s) b"
    "closed_socks st' = closed_socks ?s @ [sock (own_user ?s)]" "broadcast_queue st' = broadcast_queue ?s"
    "outbox st' = outbox ?s @ leave_output E ?s (xs @ a # ys) a" by auto
  have "leave_output E ?s (xs @ a # ys) a = leave_output E st (xs @ a # ys) a"
    by (simp add: leave_output_def leave_notice_def leave_code_def)
  then show ?thesis using r st' by (auto simp: leave_code_def)
qed

theorem client_leaves_witness:
  "\<exists>st1 st'. client_loop [(example_round 0 [])\<lparr>header_io := IO_Data []\<rparr>] (example_server 0) = ret (False, st1)
    \<and> client_end example_env st1 = ret st' \<and> users_inv_at (ustore st') [1, 2]
    \<and> closed_socks st' = [4]"
proof -
  have "client_ok (example_server 0) ([] @ 0 # [1, 2]) 0" using example_server_ok [of 0] by simp
  moreover have "gone ((example_round 0 [])\<lparr>header_io := IO_Data []\<rparr>)" by (simp add: gone_def)
  moreover have "sock (own_user (example_server 0)) = 4" by code_simp
  ultimately show ?thesis using client_leaves [of "example_server 0" "[]" 0 "[1, 2]"] by fastforce
qed

end
