(* ===== verification/Client_Safety.thy ===== *)
theory Client_Safety
  imports Client_Login Client_End
begin

text \<open>
  A whole client's thread on messages of the protocol: every round returns and keeps the server's
  state well formed, whichever handler it runs, so the loop reaches the end of the connection and
  the thread the end of its body.
\<close>

section \<open>Messages of the protocol\<close>

text \<open>
  A whole message with a true length, of any type, within the bounds the handlers rely on: texts and
  names are strings, a login name is at most 30 bytes long, and a kick names somebody with at most
  30 bytes.
\<close>

definition honest_body :: "u8 \<Rightarrow> byte list \<Rightarrow> bool" where
  "honest_body t body \<longleftrightarrow> length body \<le> 511
     \<and> (t = 0 \<and> receive_decision 0 (length body) body = NV_Received_login \<longrightarrow>
          length body \<le> 35 \<and> 0 \<notin> set (drop 5 body))
     \<and> (t = 2 \<longrightarrow> 0 \<notin> set body
          \<and> (get_server_command (body @ [0]) = ret AC_Kick \<longrightarrow>
               is_ret (kick_argument (body @ [0])) \<and> the_ret (kick_argument (body @ [0])) \<noteq> None))"

definition honest :: "round_input \<Rightarrow> bool" where
  "honest R \<longleftrightarrow> (\<exists>t body. brings R t (of_nat (length body)) body \<and> honest_body t body)"

text \<open>What a round leaves: the thread is ready for the next message, and the other users have the
  same names, sockets and login states.\<close>

definition unmarked :: "user \<Rightarrow> user" where
  "unmarked u = u\<lparr>should_shutdown := False\<rparr>"

lemma unmarked_fields:
  "unmarked u = unmarked v \<Longrightarrow> name u = name v \<and> name_length u = name_length v \<and> sock u = sock v
     \<and> logged_in u = logged_in v \<and> thread u = thread v"
  by (cases u; cases v) (simp add: unmarked_def)

definition same_users :: "server_state \<Rightarrow> server_state \<Rightarrow> nat list \<Rightarrow> bool" where
  "same_users st st' bs \<longleftrightarrow>
     (\<forall>b \<in> set bs. unmarked (user_at (ustore st') b) = unmarked (user_at (ustore st) b))"

definition round_ok :: "server_state \<Rightarrow> server_state \<Rightarrow> nat list \<Rightarrow> nat \<Rightarrow> bool" where
  "round_ok st st' as a \<longleftrightarrow> client_ok st' as a \<and> unmoved st st' \<and> same_users st st' (remove1 a as)
     \<and> sock (own_user st') = sock (own_user st)"

lemma same_users_refl [simp]: "ustore st' = ustore st \<Longrightarrow> same_users st st' bs"
  by (simp add: same_users_def)

lemma same_users_trans: "same_users st st' bs \<Longrightarrow> same_users st' st'' bs \<Longrightarrow> same_users st st'' bs"
  by (simp add: same_users_def)

lemma same_users_update:
  assumes "user_at (ustore st') = (user_at (ustore st))(c := v)"
    and "c \<in> set bs \<Longrightarrow> unmarked v = unmarked (user_at (ustore st) c)"
  shows "same_users st st' bs"
  using assms by (simp add: same_users_def)

lemma own_position: "client_ok st as a \<Longrightarrow> a \<notin> set (remove1 a as) \<and> distinct as"
  by (auto simp: client_ok_def users_inv_at_def distinct_map)

lemma round_ok_same:
  assumes "client_ok st as a" and "client_ok st' as a" and "unmoved st st'" and "ustore st' = ustore st"
  shows "round_ok st st' as a"
  using assms by (simp add: round_ok_def own_user_def unmoved_def)

lemma unmoved_fields [simp]: "unmoved st st"
  by (simp add: unmoved_def)

lemma round_ok_trans:
  "round_ok st st' as a \<Longrightarrow> round_ok st' st'' as a \<Longrightarrow> round_ok st st'' as a"
  by (auto simp: round_ok_def unmoved_def intro: same_users_trans)

section \<open>Every handler\<close>

lemma unmoved_received [simp]: "unmoved st (received_state len body st)"
  by (simp add: unmoved_def)

lemma received_string:
  assumes "length body \<le> 511" and "0 \<notin> set body"
  shows "c_string (drop off_text (received 2 len body)) = ret body"
    and "c_string (body @ [0]) = ret body"
proof -
  have "drop off_text (received 2 len body) = body @ 0 # replicate (551 - length body) 0"
    using assms(1) drop3_received [of 2 len body] by (simp add: wire_simps flip: replicate_Suc)
  then show "c_string (drop off_text (received 2 len body)) = ret body"
    using c_string_app [OF assms(2)] by simp
  show "c_string (body @ [0]) = ret body" using c_string_app [OF assms(2), of "[]"] by simp
qed

lemma honest_message:
  assumes "client_ok st as a" and "length body \<le> 511" and "unat len = length body" and "0 \<notin> set body"
  shows "\<exists>st'. handle_message R (received_state len body st) = ret st' \<and> round_ok st st' as a"
proof -
  let ?st = "received_state len body st"
  have ok: "client_ok ?st as a" using assms(1) by simp
  have k: "round_ok st (?st\<lparr>msg := m, broadcast_queue := q\<rparr>) as a"
    "round_ok st (?st\<lparr>msg := m, outbox := q'\<rparr>) as a" for m q q'
    using assms(1) by (auto intro!: round_ok_same simp: unmoved_def)
  show ?thesis
    using handle_message_effect [OF ok _ _ assms(2-4), of R] k
    by (cases "queue_room R st") fastforce+
qed

lemma responds:
  assumes "client_ok st as a" and "length body \<le> 511" and "0 \<notin> set f"
  shows "\<exists>st'. respond_self E f (received_state len body st) = ret st' \<and> round_ok st st' as a"
proof -
  have k: "round_ok st ((received_state len body st)\<lparr>msg := m, outbox := q\<rparr>) as a" for m q
    using assms(1) by (intro round_ok_same) (auto simp: unmoved_def)
  show ?thesis using respond_self_received [OF assms, of E len] k by blast
qed

lemma kick_argument_string:
  assumes "kick_argument text = ret (Some nk)"
  shows "\<exists>n. c_string nk = ret n \<and> 0 \<notin> set n"
proof -
  obtain nm where nm: "mem_write (replicate NET_NAME_LEN 0) 0 (nm @ [0]) = ret nk"
    using assms by (auto simp: kick_argument_def bindR_ret_iff split: option.splits)
  then have "0 \<in> set nk" by (auto simp: mem_write_ret_iff patch_def)
  then have "c_string nk = ret (takeWhile (\<lambda>c. c \<noteq> 0) nk)" by (simp add: c_string_def)
  with c_string_nonzero [OF this] show ?thesis by blast
qed

lemma honest_kick:
  assumes ok: "client_ok st as a" and l: "length body \<le> 511"
    and nk: "kick_argument (drop off_text (received 2 len body)) = ret (Some nk)"
  shows "\<exists>st'. command_kick E (received_state len body st) = ret st' \<and> round_ok st st' as a"
proof -
  let ?st = "received_state len body st"
  obtain n where n: "c_string nk = ret n" "0 \<notin> set n" using kick_argument_string [OF nk] by blast
  have inv: "users_inv_at (ustore st) as" and a: "a \<in> set as" "self st = Some a"
    using ok by (simp_all add: client_ok_def)
  then have "users_inv_at (ustore ?st) as" by simp
  note loop = kick_loop [OF this n(1)]
  show ?thesis
  proof (cases "kick_target (ustore st) as n")
    case None
    have "0 \<notin> set (bytes_of ''[name: '')" "0 \<notin> set (bytes_of ''] is not in user list'')" by code_simp+
    then have "0 \<notin> set (bytes_of ''[name: '' @ n @ bytes_of ''] is not in user list'')" using n(2) by simp
    from responds [OF ok l this, of E len] show ?thesis
      using None nk loop n(1) by (auto simp: command_kick_def)
  next
    case (Some t)
    then have t: "t \<in> set as" by (auto simp: kick_target_def dest: find_Some_mem)
    then have "user_ok (user_at (ustore st) t)" using inv by (simp add: users_inv_at_def)
    then obtain us where us: "user_should_shutdown (Some t) (ustore st) = ret us" "users_inv_at us as"
      "user_at us = (user_at (ustore st))(t := (user_at (ustore st) t)\<lparr>should_shutdown := True\<rparr>)"
      using update_step [OF inv t, of "\<lambda>u. u\<lparr>should_shutdown := True\<rparr>"]
      by (auto simp: user_should_shutdown_def user_ok_def)
    let ?s = "?st\<lparr>closed_socks := closed_socks st @ [sock (user_at (ustore st) t)], ustore := us\<rparr>"
    have "same_users st ?s (remove1 a as)"
      by (rule same_users_update [where c = t and v = "(user_at (ustore st) t)\<lparr>should_shutdown := True\<rparr>"]) (use us(3) in \<open>simp_all add: unmarked_def\<close>)
    moreover have "sock (own_user ?s) = sock (own_user st)" using us(3) a by (simp add: own_user_def)
    moreover have "client_ok ?s as a" using ok us(2) by (simp add: client_ok_def)
    moreover have "unmoved st ?s" by (simp add: unmoved_def)
    ultimately have "round_ok st ?s as a" by (simp add: round_ok_def)
    then show ?thesis using Some nk loop us(1) by (auto simp: command_kick_def)
  qed
qed

lemma honest_pause:
  assumes ok: "client_ok st as a" and l: "length body \<le> 511"
  shows "\<exists>st'. command_pause E (received_state len body st) = ret st' \<and> round_ok st st' as a"
    and "\<exists>st'. command_resume E (received_state len body st) = ret st' \<and> round_ok st st' as a"
proof -
  let ?st = "received_state len body st"
  have k: "round_ok st (?st\<lparr>broadcast_sem := 0, broadcast_Paused := True, msg := m, outbox := q\<rparr>) as a"
    "round_ok st (?st\<lparr>msg := m, outbox := q, broadcast_sem := 1, broadcast_Paused := False\<rparr>) as a" for m q
    using ok by (auto intro!: round_ok_same simp: unmoved_def client_ok_def)
  show "\<exists>st'. command_pause E ?st = ret st' \<and> round_ok st st' as a"
  proof (cases "broadcast_Paused st")
    case True
    then show ?thesis using responds [OF ok l answer_texts(3), of E len]
      by (simp add: command_pause_def Is_broadcast_paused_def)
  next
    case False
    show ?thesis using command_pause_effect [OF ok l False, of E len] k(1) by blast
  qed
  show "\<exists>st'. command_resume E ?st = ret st' \<and> round_ok st st' as a"
  proof (cases "broadcast_Paused st")
    case True
    show ?thesis using command_resume_effect [OF ok l True, of E len] k(2) by blast
  next
    case False
    then show ?thesis using responds [OF ok l answer_texts(5), of E len]
      by (simp add: command_resume_def Is_broadcast_paused_def)
  qed
qed

text \<open>The help: one server text per command of the table, in its order.\<close>

fun run_all :: "('d \<Rightarrow> 'st \<Rightarrow> 'st res) \<Rightarrow> 'd list \<Rightarrow> 'st \<Rightarrow> 'st res" where
  "run_all body [] st = ret st"
| "run_all body (d # ds) st = bindR (body d st) (run_all body ds)"

lemma admin_commands_all:
  "admin_commands_from body x st = run_all body (drop x All_Admin_Commands_Data) st"
proof (induction "length All_Admin_Commands_Data - x" arbitrary: x st)
  case 0
  then show ?case by (subst admin_commands_from.simps) (simp add: get_length_of_AC_Data_def)
next
  case (Suc n)
  then have x: "x < length All_Admin_Commands_Data" by simp
  have "admin_commands_from body (x + 1) = run_all body (drop (x + 1) All_Admin_Commands_Data)"
    using Suc(2) by (intro ext Suc(1)) simp
  then show ?case
    using x by (subst admin_commands_from.simps)
      (simp add: get_length_of_AC_Data_def Get_Admin_Command_Data_def flip: Cons_nth_drop_Suc)
qed

definition help_text :: "env \<Rightarrow> byte list \<Rightarrow> AC_Command_Data \<Rightarrow> byte list" where
  "help_text E residue d = frame MT_ServerToClient (net_image (stamp_value E True)
     @ bytes_of (ac_syntax d) @ residue @ bytes_of (ac_description d))"

definition clean_text :: "env \<Rightarrow> AC_Command_Data \<Rightarrow> byte list" where
  "clean_text E d = help_text E (replicate (32 - length (ac_syntax d)) 0) d"

lemma table_texts:
  "d \<in> set All_Admin_Commands_Data \<Longrightarrow> 0 \<notin> set (bytes_of (ac_syntax d)) \<and> 0 \<notin> set (bytes_of (ac_description d))
     \<and> length (bytes_of (ac_syntax d)) \<le> 32 \<and> length (ac_description d) \<le> 511"
proof -
  have "\<forall>d \<in> set All_Admin_Commands_Data. 0 \<notin> set (bytes_of (ac_syntax d)) \<and> 0 \<notin> set (bytes_of (ac_description d))
     \<and> length (bytes_of (ac_syntax d)) \<le> 32 \<and> length (ac_description d) \<le> 511" by code_simp
  then show "d \<in> set All_Admin_Commands_Data \<Longrightarrow> ?thesis" by blast
qed

lemma help_body_effect:
  assumes ok: "client_ok st as a" and m: "length (msg st) = 555" "msg st ! 554 = 0"
    and d: "d \<in> set All_Admin_Commands_Data"
  shows "help_body E d st = ret (st\<lparr>outbox := outbox st @ sent_on E (frame MT_ServerToClient
      (response_body E (bytes_of (ac_syntax d)) (msg st) (bytes_of (ac_description d)))) (sock (own_user st)),
      msg := msg_zero\<rparr>)"
proof -
  note t = table_texts [OF d]
  have s: "c_string (bytes_of (ac_syntax d) @ [0]) = ret (bytes_of (ac_syntax d))"
    using t by (intro c_string_app) blast
  obtain m' where m': "build_response_as E (bytes_of (ac_syntax d) @ [0]) (msg st) (bytes_of (ac_description d)) = ret m'"
    "carries_frame E m' MT_ServerToClient
      (response_body E (bytes_of (ac_syntax d)) (msg st) (bytes_of (ac_description d)))"
    using build_response_as_frame [OF m s _ , of "bytes_of (ac_description d)" E] t by blast
  show ?thesis
    using m'(1) send_self_frame [OF ok m'(2)]
    by (cases st) (simp add: help_body_def build_Server_response_Special_def clear_msg_def)
qed

lemma help_frame:
  assumes "d \<in> set All_Admin_Commands_Data"
  shows "frame MT_ServerToClient (response_body E (bytes_of (ac_syntax d)) m (bytes_of (ac_description d)))
    = help_text E (bslice m (11 + length (ac_syntax d)) (32 - length (ac_syntax d))) d"
  using table_texts [OF assms] by (simp add: response_body_def help_text_def)

lemma help_clean:
  assumes "client_ok st as a" and "msg st = msg_zero" and "set ds \<subseteq> set All_Admin_Commands_Data"
  shows "run_all (help_body E) ds st = ret (st\<lparr>outbox := outbox st
    @ concat (map (\<lambda>d. sent_on E (clean_text E d) (sock (own_user st))) ds)\<rparr>)"
  using assms
proof (induction ds arbitrary: st)
  case Nil
  then show ?case by simp
next
  case (Cons d ds)
  have d: "d \<in> set All_Admin_Commands_Data" using Cons.prems(3) by simp
  have m: "length (msg st) = 555" "msg st ! 554 = 0" unfolding Cons.prems(2) by (simp_all add: msg_zero_def wire_simps)
  have "bslice msg_zero i n = replicate n 0" if "i + n \<le> 555" for i n
    using that by (simp add: bslice_def msg_zero_def wire_simps)
  then have z: "bslice (msg st) (11 + length (ac_syntax d)) (32 - length (ac_syntax d)) =
      replicate (32 - length (ac_syntax d)) 0"
    using table_texts [OF d] unfolding Cons.prems(2) by simp
  let ?s = "st\<lparr>outbox := outbox st @ sent_on E (clean_text E d) (sock (own_user st))\<rparr>"
  have "help_body E d st = ret ?s"
    using help_body_effect [OF Cons.prems(1) m d, of E] Cons.prems(2) z
    unfolding help_frame [OF d] by (cases st) (simp add: clean_text_def)
  moreover have "run_all (help_body E) ds ?s = ret (?s\<lparr>outbox := outbox ?s
      @ concat (map (\<lambda>d. sent_on E (clean_text E d) (sock (own_user ?s))) ds)\<rparr>)"
    by (rule Cons.IH) (use Cons.prems in simp_all)
  ultimately show ?case by simp
qed

lemma table_split: "All_Admin_Commands_Data = hd All_Admin_Commands_Data # tl All_Admin_Commands_Data"
  by (simp add: All_Admin_Commands_Data_def)

definition help_output :: "env \<Rightarrow> byte list \<Rightarrow> u16 \<Rightarrow> (u16 \<times> byte list) list" where
  "help_output E residue sk = sent_on E (help_text E residue (hd All_Admin_Commands_Data)) sk
     @ concat (map (\<lambda>d. sent_on E (clean_text E d) sk) (tl All_Admin_Commands_Data))"

lemma command_help_effect:
  assumes ok: "client_ok st as a" and l: "length body \<le> 511"
  shows "command_help E (received_state len body st) = ret ((received_state len body st)
    \<lparr>outbox := outbox st @ help_output E (bslice (received 2 len body) (11 + length (ac_syntax (hd All_Admin_Commands_Data)))
       (32 - length (ac_syntax (hd All_Admin_Commands_Data)))) (sock (own_user st)), msg := msg_zero\<rparr>)"
proof -
  let ?st = "received_state len body st" and ?d = "hd All_Admin_Commands_Data"
  have ok': "client_ok ?st as a" using ok by simp
  have d: "?d \<in> set All_Admin_Commands_Data" by (subst table_split) simp
  have m: "length (msg ?st) = 555" "msg ?st ! 554 = 0" using l by (simp_all add: received_last)
  let ?r = "bslice (msg ?st) (11 + length (ac_syntax ?d)) (32 - length (ac_syntax ?d))"
  let ?s = "?st\<lparr>outbox := outbox st @ sent_on E (help_text E ?r ?d) (sock (own_user st)), msg := msg_zero\<rparr>"
  have first: "help_body E ?d ?st = ret ?s"
    using help_body_effect [OF ok' m d, of E] unfolding help_frame [OF d] by simp
  have rest: "run_all (help_body E) (tl All_Admin_Commands_Data) ?s = ret (?s\<lparr>outbox := outbox ?s
      @ concat (map (\<lambda>d. sent_on E (clean_text E d) (sock (own_user ?s))) (tl All_Admin_Commands_Data))\<rparr>)"
  proof (rule help_clean)
    show "client_ok ?s as a" using ok by simp
    show "msg ?s = msg_zero" by simp
    show "set (tl All_Admin_Commands_Data) \<subseteq> set All_Admin_Commands_Data" by (subst (2) table_split) auto
  qed
  have "command_help E ?st = bindR (help_body E ?d ?st) (run_all (help_body E) (tl All_Admin_Commands_Data))"
    unfolding command_help_def ITERATE_OVER_ADMIN_COMMANDS_def admin_commands_all drop_0
    by (subst table_split) simp
  also have "\<dots> = ret (?st\<lparr>outbox := outbox st @ help_output E ?r (sock (own_user st)), msg := msg_zero\<rparr>)"
    unfolding first using rest by (simp add: help_output_def)
  finally show ?thesis by simp
qed

lemma honest_help:
  assumes "client_ok st as a" and "length body \<le> 511"
  shows "\<exists>st'. command_help E (received_state len body st) = ret st' \<and> round_ok st st' as a"
proof -
  have "round_ok st ((received_state len body st)\<lparr>outbox := q, msg := msg_zero\<rparr>) as a" for q
    using assms(1) by (intro round_ok_same) (auto simp: unmoved_def)
  then show ?thesis using command_help_effect [OF assms, of E len] by simp
qed

lemma honest_invalid_command:
  assumes "client_ok st as a" and "length body \<le> 511" and "0 \<notin> set body"
  shows "\<exists>st'. command_invalid E (received_state len body st) = ret st' \<and> round_ok st st' as a"
proof -
  have "0 \<notin> set (bytes_of ''Caution! detected invalid [server_commands] '')" by code_simp
  then have "0 \<notin> set (bytes_of ''Caution! detected invalid [server_commands] '' @ body)" using assms(3) by simp
  from responds [OF assms(1,2) this, of E len] show ?thesis
    by (simp add: command_invalid_def received_string [OF assms(2,3)])
qed

lemma get_server_command_returns: "c_string t = ret s \<Longrightarrow> \<exists>c. get_server_command t = ret c"
  by (simp add: get_server_command_def split: option.split)

lemma honest_command:
  assumes ok: "client_ok st as a" and h: "honest_body 2 body"
  shows "\<exists>st'. handle_command R (received_state len body st) = ret st' \<and> round_ok st st' as a"
proof -
  let ?st = "received_state len body st" and ?E = "net_env R"
  have l: "length body \<le> 511" and z: "0 \<notin> set body" using h by (simp_all add: honest_body_def)
  have ok': "client_ok ?st as a" using ok by simp
  note str = received_string [OF l z]
  have gc: "get_server_command (drop off_text (msg ?st)) = get_server_command (body @ [0])"
    and ka: "kick_argument (drop off_text (msg ?st)) = kick_argument (body @ [0])"
    by (simp_all add: get_server_command_def kick_argument_def str)
  obtain c where c: "get_server_command (body @ [0]) = ret c" using get_server_command_returns [OF str(2)] by blast
  show ?thesis
  proof (cases "own_name ?st = admin_string ?st")
    case False
    then show ?thesis
      using responds [OF ok l answer_texts(1), of ?E len] by (simp add: handle_command_eq [OF ok'])
  next
    case True
    then have r: "handle_command R ?st = run_admin_command ?E c ?st"
      using gc c by (simp add: handle_command_eq [OF ok'])
    show ?thesis
    proof (cases "c = AC_Kick")
      case True
      then obtain nk where "kick_argument (body @ [0]) = ret (Some nk)"
        using h c by (auto simp: honest_body_def dest: is_ret_the)
      then have "kick_argument (drop off_text (received 2 len body)) = ret (Some nk)" using ka by simp
      from honest_kick [OF ok l this, of ?E] show ?thesis unfolding r True by (simp add: run_admin_command_def)
    next
      case False
      then show ?thesis
        unfolding r using honest_pause [OF ok l, of ?E len] honest_help [OF ok l, of ?E len]
          honest_invalid_command [OF ok l z, of ?E len]
        by (cases c) (simp_all add: run_admin_command_def)
    qed
  qed
qed

section \<open>Every round\<close>

lemma login_body_of:
  assumes "receive_decision 0 (length body) body = NV_Received_login"
  shows "body = login_body (drop 5 body)" and "0 < length (drop 5 body)"
proof -
  have b: "5 < length body" "body ! 4 = 0" "net_value (take 4 body) = (0x0badf00d :: u32)"
    using assms by (auto simp: receive_decision_def login_magic_ok_def split: if_splits)
  have "net_image (0x0badf00d :: u32) = take 4 body"
    using b net_image_net_value(2) [of "take 4 body"] by simp
  moreover have "drop 4 body = body ! 4 # drop 5 body"
    using b(1) Cons_nth_drop_Suc [of 4 body] by simp
  ultimately show "body = login_body (drop 5 body)"
    using b(2) append_take_drop_id [of 4 body] by (simp add: login_body_def)
  show "0 < length (drop 5 body)" using b(1) by simp
qed

lemma honest_login:
  assumes ok: "client_ok st as a" and R: "brings R 0 (of_nat (length body)) body"
    and d: "receive_decision 0 (length body) body = NV_Received_login" and h: "honest_body 0 body"
    and mem: "memory_ok R st"
  shows "\<exists>st'. client_round R st = ret (True, st') \<and> round_ok st st' as a"
proof -
  let ?nm = "drop 5 body"
  have b: "body = login_body ?nm" "0 < length ?nm" using login_body_of [OF d] by simp_all
  have "length body \<le> 35 \<and> 0 \<notin> set ?nm" using h d by (simp add: honest_body_def)
  then have n: "length ?nm \<le> 30" "0 \<notin> set ?nm" by (auto simp: le_diff_conv)
  have "length body = 5 + length ?nm" using b(2) by simp
  then have R': "brings R 0 (login_len ?nm) (login_body ?nm)"
    using R b(1) by (simp add: login_len_def)
  have a: "a \<in> set as" "self st = Some a" using ok by (simp_all add: client_ok_def)
  show ?thesis
  proof (cases "name_taken (ustore st) as ?nm \<or> (\<exists>c \<in> set ?nm. \<not> name_byte_ok c)")
    case True
    from login_refused_effect [OF ok R' b(2) n True] obtain st' where
      "client_round R st = ret (True, st')" "ustore st' = ustore st" "client_ok st' as a" "unmoved st st'"
      by blast
    then show ?thesis using round_ok_same [OF ok] by blast
  next
    case False
    then have f: "\<forall>c \<in> set ?nm. name_byte_ok c" "\<not> name_taken (ustore st) as ?nm" by auto
    from login_succeeds_effect [OF ok R' b(2) n(1) f mem] obtain st' where
      st': "client_round R st = ret (True, st')" "client_ok st' as a" "unmoved st st'"
      "user_at (ustore st') = (user_at (ustore st))(a := with_name (own_user st) ?nm)" by blast
    have "same_users st st' (remove1 a as)"
      by (rule same_users_update [OF st'(4)]) (use own_position [OF ok] in simp)
    moreover have "sock (own_user st') = sock (own_user st)"
      using st'(3,4) a by (simp add: own_user_def unmoved_def)
    ultimately show ?thesis using st'(1-3) by (auto simp: round_ok_def)
  qed
qed

lemma honest_shutdown_mark:
  assumes ok: "client_ok st as a"
  shows "\<exists>st'. handle_invalid (st\<lparr>connection_status := v, msg_length := n, msg := m\<rparr>) = ret st' \<and> round_ok st st' as a"
proof -
  have inv: "users_inv_at (ustore st) as" and a: "a \<in> set as" "self st = Some a"
    using ok by (simp_all add: client_ok_def)
  have "user_ok (user_at (ustore st) a)" using inv a by (simp add: users_inv_at_def)
  then obtain us where us: "user_should_shutdown (Some a) (ustore st) = ret us" "users_inv_at us as"
    "user_at us = (user_at (ustore st))(a := (user_at (ustore st) a)\<lparr>should_shutdown := True\<rparr>)"
    using update_step [OF inv a(1), of "\<lambda>u. u\<lparr>should_shutdown := True\<rparr>"]
    by (auto simp: user_should_shutdown_def user_ok_def)
  let ?s = "st\<lparr>connection_status := v, msg_length := n, msg := m, ustore := us\<rparr>"
  have "user_at (ustore ?s) = (user_at (ustore st))(a := (user_at (ustore st) a)\<lparr>should_shutdown := True\<rparr>)"
    using us(3) by simp
  then have "same_users st ?s (remove1 a as)"
    by (rule same_users_update) (simp add: unmarked_def)
  moreover have "sock (own_user ?s) = sock (own_user st)" using us(3) a by (simp add: own_user_def)
  moreover have "client_ok ?s as a" using ok us(2) by (simp add: client_ok_def)
  ultimately have "round_ok st ?s as a" by (simp add: round_ok_def unmoved_def)
  then show ?thesis using us(1) a by (auto simp: handle_invalid_def)
qed

lemma client_round_decides:
  assumes ok: "client_ok st as a" and R: "brings R t (of_nat (length body)) body" and l: "length body \<le> 511"
  shows "\<exists>m. client_round R st = bindR (dispatch R (receive_decision t (length body) body)
      (st\<lparr>connection_status := 3, msg_length := of_nat (length body), msg := m\<rparr>)) (\<lambda>st. ret (True, st))
    \<and> (body \<noteq> [] \<and> (t = 0 \<or> t = 2) \<longrightarrow> m = received t (of_nat (length body)) body)"
proof -
  let ?len = "of_nat (length body) :: u16" and ?E = "net_env R"
  have n: "unat ?len = length body" using l by (simp add: unat_of_nat)
  have "self_sock (clear_msg st) = self_sock st" by (simp add: self_sock_def clear_msg_def)
  moreover have "Check_for_Message (header_io R) (msg (clear_msg st)) = ret (3, header_only ?E t ?len)"
    using R by (auto simp: brings_def clear_msg_def Check_for_Message_header)
  moreover have "length body \<le> unat ?len" "length body \<le> 552" using n l by simp_all
  from network_Receive_decision [OF this, of ?E t] obtain m where
    m: "network_Receive ?E (IO_Data body) (header_only ?E t ?len) = ret (receive_decision t (length body) body, m)"
      "unat ?len \<noteq> 0 \<and> (t = 0 \<or> t = 2) \<longrightarrow> m = received t ?len body"
    unfolding n received_def by blast
  ultimately have "client_round R st = bindR (dispatch R (receive_decision t (length body) body)
      (st\<lparr>connection_status := 3, msg_length := ?len, msg := m\<rparr>)) (\<lambda>st. ret (True, st))"
    using ok R by (simp add: client_round_def Let_def read_selfs clear_msg_def brings_def)
  then show ?thesis using m(2) n by auto
qed

lemma decision_cases:
  "receive_decision t n body \<in> {NV_invalid_length, NV_Name_length_invalid, NV_Version_invalid,
     NV_Magic_num_invalid, NV_unset}
   \<or> (t = 0 \<and> n \<noteq> 0 \<and> receive_decision t n body = NV_Received_login)
   \<or> (t = 2 \<and> n \<noteq> 0 \<and> receive_decision t n body = NV_Received_Server_command)
   \<or> (t = 2 \<and> n \<noteq> 0 \<and> receive_decision t n body = NV_Received_Message)"
  by (simp add: receive_decision_def)

lemma honest_step:
  assumes ok: "client_ok st as a" and h: "honest R" and mem: "memory_ok R st"
  shows "\<exists>st'. client_round R st = ret (True, st') \<and> round_ok st st' as a"
proof -
  obtain t body where R: "brings R t (of_nat (length body)) body" and hb: "honest_body t body"
    using h by (auto simp: honest_def)
  have l: "length body \<le> 511" using hb by (simp add: honest_body_def)
  let ?len = "of_nat (length body) :: u16" and ?d = "receive_decision t (length body) body"
  have n: "unat ?len = length body" using l by (simp add: unat_of_nat)
  obtain m where round: "client_round R st = bindR (dispatch R ?d
      (st\<lparr>connection_status := 3, msg_length := ?len, msg := m\<rparr>)) (\<lambda>st. ret (True, st))"
    and m: "body \<noteq> [] \<and> (t = 0 \<or> t = 2) \<longrightarrow> m = received t ?len body"
    using client_round_decides [OF ok R l] by blast
  let ?s = "st\<lparr>connection_status := 3, msg_length := ?len, msg := m\<rparr>"
  have idle: "round_ok st ?s as a" using ok by (intro round_ok_same) (simp_all add: unmoved_def)
  from decision_cases [of t "length body" body] show ?thesis
  proof (elim disjE conjE)
    assume "?d \<in> {NV_invalid_length, NV_Name_length_invalid, NV_Version_invalid, NV_Magic_num_invalid, NV_unset}"
    then have "dispatch R ?d ?s = handle_invalid ?s \<or> dispatch R ?d ?s = ret ?s"
      by (auto simp: dispatch_def)
    then show ?thesis using round idle honest_shutdown_mark [OF ok, where v = 3 and n = ?len and m = m] by fastforce
  next
    assume "t = 0" "?d = NV_Received_login"
    then show ?thesis using honest_login [OF ok _ _ _ mem] R hb by simp
  next
    assume "t = 2" "length body \<noteq> 0" "?d = NV_Received_Server_command"
    then have "?s = received_state ?len body st" using m by (simp add: received_state_def)
    with honest_command [OF ok, of body R ?len] show ?thesis
      using round \<open>t = 2\<close> \<open>?d = NV_Received_Server_command\<close> hb by (auto simp: dispatch_def)
  next
    assume "t = 2" "length body \<noteq> 0" "?d = NV_Received_Message"
    then have "?s = received_state ?len body st" using m by (simp add: received_state_def)
    moreover have "0 \<notin> set body" using hb \<open>t = 2\<close> by (simp add: honest_body_def)
    ultimately show ?thesis
      using honest_message [OF ok l n, of R] round \<open>?d = NV_Received_Message\<close> by (auto simp: dispatch_def)
  qed
qed

section \<open>The loop and the thread\<close>

text \<open>The memory for the names of log files is not in use when a round gets it.\<close>

fun fresh_memory :: "round_input list \<Rightarrow> server_state \<Rightarrow> bool" where
  "fresh_memory [] st = True"
| "fresh_memory (R # Rs) st \<longleftrightarrow> memory_ok R st \<and> fresh_memory Rs (snd (the_ret (client_round R st)))"

lemma fresh_without_memory: "\<forall>R \<in> set Rs. entry_memory R = None \<Longrightarrow> fresh_memory Rs st"
  by (induction Rs arbitrary: st) (simp_all add: memory_ok_def)

lemma honest_loop:
  assumes "client_ok st as a" and "\<forall>R \<in> set Rs. honest R" and "fresh_memory Rs st"
  shows "\<exists>st'. client_loop Rs st = ret (True, st') \<and> round_ok st st' as a"
  using assms
proof (induction Rs arbitrary: st)
  case Nil
  then show ?case using round_ok_same [of st as a st] by simp
next
  case (Cons R Rs)
  obtain st1 where st1: "client_round R st = ret (True, st1)" "round_ok st st1 as a"
    using honest_step [OF Cons.prems(1), of R] Cons.prems(2,3) by auto
  then have "client_ok st1 as a" "fresh_memory Rs st1"
    using Cons.prems(3) by (simp_all add: round_ok_def the_ret_def)
  then obtain st' where "client_loop Rs st1 = ret (True, st')" "round_ok st1 st' as a"
    using Cons.IH [of st1] Cons.prems(2) by auto
  then show ?case using st1 round_ok_trans by auto
qed

lemma client_loop_append:
  "client_loop Rs st = ret (True, st1) \<Longrightarrow> client_loop (Rs @ Qs) st = client_loop Qs st1"
  by (induction Rs arbitrary: st) (auto simp: bindR_ret_iff split: if_splits)


definition example_talk :: "round_input list" where
  "example_talk = map (\<lambda>(t, body). (example_round t body)\<lparr>entry_memory := None\<rparr>)
     [(0, login_body [67, 68]), (2, [72, 105]), (2, bytes_of ''/help''), (7, [1, 2]), (0, [1, 2, 3])]"

lemma example_talk_honest: "\<forall>R \<in> set example_talk. honest R" "\<forall>R \<in> set example_talk. entry_memory R = None"
proof -
  have b: "brings ((example_round t body)\<lparr>entry_memory := None\<rparr>) t (of_nat (length body)) body" for t body
    using example_round_brings by (simp add: brings_def)
  have "\<forall>(t, body) \<in> set [(0, login_body [67, 68]), (2, [72, 105]), (2, bytes_of ''/help''), (7, [1, 2]), (0, [1, 2, 3])].
      honest_body t body" by code_simp
  then show "\<forall>R \<in> set example_talk. honest R"
    unfolding example_talk_def honest_def using b by fastforce
  show "\<forall>R \<in> set example_talk. entry_memory R = None" by (auto simp: example_talk_def)
qed


definition server_ok :: "server_state \<Rightarrow> nat list \<Rightarrow> bool" where
  "server_ok st as \<longleftrightarrow> users_inv_at (ustore st) as \<and> config_ok (conf st) \<and> log_inv (logs st)
     \<and> broadcast_sem st = (if broadcast_Paused st then 0 else 1)"

lemma client_begin_effect:
  assumes "server_ok st as" and "sk \<notin> sock ` user_at (ustore st) ` set as"
    and "heap (users (ustore st)) a = None"
  shows "\<exists>st1. client_begin t sk (Some a) st = ret st1 \<and> client_ok st1 (as @ [a]) a
    \<and> (\<forall>b \<in> set as. user_at (ustore st1) b = user_at (ustore st) b)
    \<and> own_user st1 = new_user t sk \<and> disconnect_reason st1 = CD_communication_error
    \<and> conf st1 = conf st \<and> closed_socks st1 = closed_socks st"
proof -
  have "users_inv_at (ustore st) as" using assms(1) by (simp add: server_ok_def)
  from create_inv [OF this assms(2,3), of t] obtain us where
    us: "create_User t sk (Some a) (ustore st) = ret (Some a, us)" "users_inv_at us (as @ [a])"
    "user_at us a = new_user t sk" "\<forall>b \<in> set as. user_at us b = user_at (ustore st) b" by blast
  then show ?thesis
    using assms(1) by (simp add: client_begin_def client_ok_def server_ok_def own_user_def)
qed

lemma client_thread_ends:
  assumes "server_ok st as" and "sk \<notin> sock ` user_at (ustore st) ` set as"
    and "heap (users (ustore st)) a = None" and "\<forall>R \<in> set Rs. honest R" and "gone G"
    and "fresh_memory Rs (the_ret (client_begin t sk (Some a) st))"
  shows "\<exists>st'. client_Thread t sk (Some a) E (Rs @ [G]) st = ret (False, st') \<and> server_ok st' as
    \<and> same_users st st' as \<and> last (closed_socks st') = sk
    \<and> disconnect_reason st' \<in> {CD_communication_error, CD_kicked_from_the_server}"
proof -
  obtain st1 where st1: "client_begin t sk (Some a) st = ret st1" "client_ok st1 (as @ [a]) a"
    "\<forall>b \<in> set as. user_at (ustore st1) b = user_at (ustore st) b" "own_user st1 = new_user t sk"
    "disconnect_reason st1 = CD_communication_error"
    using client_begin_effect [OF assms(1-3)] by blast
  obtain st2 where st2: "client_loop Rs st1 = ret (True, st2)" "round_ok st1 st2 (as @ [a]) a"
    using honest_loop [OF st1(2) assms(4)] assms(6) st1(1) by (auto simp: the_ret_def)
  let ?s = "st2\<lparr>msg := msg_zero, connection_status := left_status G\<rparr>"
  have ok2: "client_ok st2 (as @ [a]) a" using st2(2) by (simp add: round_ok_def)
  have r: "client_loop (Rs @ [G]) st1 = ret (False, ?s)"
    using client_loop_append [OF st2(1)] client_round_gone [OF ok2 assms(5)] by simp
  have ok: "client_ok ?s (as @ [a]) a" using ok2 by simp
  have "connection_status ?s \<le> 0" by (simp add: left_status_def)
  from client_end_effect [OF ok _ _ this, of as "[]" E] obtain st' where st': "client_end E ?s = ret st'"
    "users_inv_at (ustore st') as" "\<forall>b \<in> set as. user_at (ustore st') b = user_at (ustore ?s) b"
    "closed_socks st' = closed_socks ?s @ [sock (own_user ?s)]" "disconnect_reason st' = leave_code ?s"
    "conf st' = conf ?s" "logs st' = logs ?s" "broadcast_sem st' = broadcast_sem ?s"
    "broadcast_Paused st' = broadcast_Paused ?s"
    by auto
  have "a \<notin> set as" using own_position [OF ok2] by simp
  then have rm: "remove1 a (as @ [a]) = as" by (simp add: remove1_append)
  have "same_users st1 st2 as" using st2(2) unfolding round_ok_def rm by blast
  then have "same_users st st' as" using st1(3) st'(3) by (simp add: same_users_def)
  moreover have "last (closed_socks st') = sk"
    using st'(4) st2(2) st1(4) by (simp add: round_ok_def new_user_def)
  moreover have "server_ok st' as" using st'(2,6-9) ok2 by (simp add: server_ok_def client_ok_def)
  moreover have "disconnect_reason st' \<in> {CD_communication_error, CD_kicked_from_the_server}"
    using st'(5) st2(2) st1(5) by (simp add: leave_code_def round_ok_def unmoved_def)
  moreover have "client_Thread t sk (Some a) E (Rs @ [G]) st = ret (False, st')"
    using st1(1) r st'(1) by (simp add: client_Thread_def)
  ultimately show ?thesis by blast
qed



end
