(* ===== verification/Chat_Server.thy ===== *)
theory Chat_Server
  imports Client_Safety
begin

text \<open>
  The components together: the threads of the clients and the broadcast agent over the one state
  they share. Because \<^verbatim>\<open>self\<close>, \<^verbatim>\<open>msg\<close> and the other variables of \<^verbatim>\<open>clientthread.c\<close> are
  globals, a round of any client's thread is a round on the same variables.
\<close>

section \<open>Events\<close>

text \<open>
  What can happen next: a connection is accepted and its thread starts, some thread does a whole
  round of its loop, some thread runs from the end of its loop to its return, or the agent does a
  step. \<open>None\<close> is an agent that has to wait.
\<close>

datatype server_event =
    Connect nat u16 "nat option"
  | Round round_input
  | Leave env
  | Agent env

fun server_step :: "server_event \<Rightarrow> server_state \<Rightarrow> server_state res option" where
  "server_step (Connect threadID arg user_memory) st = Some (client_begin threadID arg user_memory st)"
| "server_step (Round R) st = Some (bindR (client_round R st) (\<lambda>p. ret (snd p)))"
| "server_step (Leave E) st = Some (client_end E st)"
| "server_step (Agent E) st = broadcast_agent E True st"

fun server_run :: "server_event list \<Rightarrow> server_state \<Rightarrow> server_state res option" where
  "server_run [] st = Some (ret st)"
| "server_run (e # es) st =
     (case server_step e st of
        None \<Rightarrow> None
      | Some r \<Rightarrow> (case r of Some (Inr st) \<Rightarrow> server_run es st | _ \<Rightarrow> Some r))"

section \<open>From a client to everybody\<close>

text \<open>A turn of the agent: a message is taken from the queue and sent to everybody logged in.\<close>

lemma agent_turn_eq:
  assumes at: "users_at (ustore st) as" and pc: "agent_pc st = Some At_Receive" and sem: "broadcast_sem st = 1"
    and q: "broadcast_queue st = q # qs" and m: "carries_frame E (qmsg q) t b"
  shows "server_run [Agent E, Agent E, Agent E, Agent E] st = Some (ret (st\<lparr>broadcast_queue := qs,
    agent_buffer := Some q, outbox := outbox st @ broadcast_output E (ustore st) as (sender q) (frame t b),
    broadcast_sem := 1, agent_pc := Some At_Receive\<rparr>))"
proof -
  let ?s1 = "st\<lparr>broadcast_queue := qs, agent_buffer := Some q, agent_pc := Some At_Wait\<rparr>"
  let ?s2 = "?s1\<lparr>broadcast_sem := 0, agent_pc := Some At_Send\<rparr>"
  let ?out = "broadcast_output E (ustore st) as (sender q) (frame t b)"
  let ?s3 = "?s2\<lparr>outbox := outbox st @ ?out, agent_pc := Some At_Post\<rparr>"
  let ?s4 = "?s3\<lparr>broadcast_sem := 1, agent_pc := Some At_Receive\<rparr>"
  have 1: "broadcast_agent E True st = Some (ret ?s1)"
    using pc q by (simp add: broadcast_agent_def mq_receive_def)
  have 2: "broadcast_agent E True ?s1 = Some (ret ?s2)" using sem by (simp add: broadcast_agent_def)
  have "users_at (ustore ?s2) as" using at by simp
  then have 3: "broadcast_agent E True ?s2 = Some (ret ?s3)"
    using deliver_eq [of ?s2 as E q t b] m
    by (simp add: broadcast_agent_def agent_deliver_def broadcast_output_def)
  have 4: "broadcast_agent E True ?s3 = Some (ret ?s4)" by (simp add: broadcast_agent_def)
  show ?thesis using 1 2 3 4 by simp
qed

lemma agent_turn:
  assumes ok: "client_ok st as a" and pc: "agent_pc st = Some At_Receive" and np: "\<not> Is_broadcast_paused st"
    and q: "broadcast_queue st = q # qs" and m: "carries_frame E (qmsg q) t b"
  shows "\<exists>st'. server_run [Agent E, Agent E, Agent E, Agent E] st = Some (ret st')
    \<and> client_ok st' as a \<and> ustore st' = ustore st \<and> broadcast_queue st' = qs
    \<and> agent_pc st' = Some At_Receive
    \<and> outbox st' = outbox st @ broadcast_output E (ustore st) as (sender q) (frame t b)"
proof -
  have sem: "broadcast_sem st = 1" using ok np by (simp add: client_ok_def Is_broadcast_paused_def)
  let ?s = "st\<lparr>broadcast_queue := qs, agent_buffer := Some q,
    outbox := outbox st @ broadcast_output E (ustore st) as (sender q) (frame t b),
    broadcast_sem := 1, agent_pc := Some At_Receive\<rparr>"
  have "client_ok ?s as a" using ok np by (simp add: client_ok_def Is_broadcast_paused_def)
  then show ?thesis using agent_turn_eq [OF client_ok_at [OF ok] pc sem q m] by auto
qed

lemma chat_round:
  assumes ok: "client_ok st as a" and R: "brings R 2 len body" and b: "0 < length body" "length body \<le> 511"
    "unat len = length body" "0 \<notin> set body" "body ! 0 \<noteq> 47" and room: "queue_room R st"
  shows "\<exists>m. carries (net_env R) m (Server_To_Client (stamp_value (net_env R) True)
        (take (unat (name_length (own_user st))) (own_name st)) body)
    \<and> client_round R st = ret (True, (received_state len body st)\<lparr>msg := m,
        broadcast_queue := broadcast_queue st @ [\<lparr>sender = None, qmsg = m\<rparr>]\<rparr>)"
proof -
  let ?st = "received_state len body st"
  have ok': "client_ok ?st as a" using ok by simp
  have "client_round R st = bindR (handle_message R ?st) (\<lambda>st. ret (True, st))"
    using client_round_brings [OF ok R] b by (auto simp: dispatch_message received_state_def)
  moreover have "queue_room R ?st" using room by simp
  ultimately show ?thesis using handle_message_effect [OF ok' _ _ b(2-4), of R] by auto
qed

text \<open>C8: From the socket of one client to the sockets of all: when the chat is not paused and the agent
  waits for a message, a text of a client is, after the round of the client's thread and one turn of
  the agent, on the socket of every logged-in user, the sender's too if it is logged in, in the
  order of the list, as the protocol's frame with the clock's time, the sender's name and the text;
  nothing else is sent, no user changes and the agent waits again.\<close>

theorem text_reaches_everybody:
  assumes "client_ok st as a" and "brings R 2 len body"
    and "0 < length body" "length body \<le> 511" "unat len = length body" "0 \<notin> set body" "body ! 0 \<noteq> 47"
    and "queue_room R st" and "broadcast_queue st = []" and "agent_pc st = Some At_Receive"
    and "\<not> Is_broadcast_paused st"
  shows "\<exists>st'. server_run (Round R # replicate 4 (Agent (net_env R))) st = Some (ret st')
    \<and> client_ok st' as a \<and> ustore st' = ustore st \<and> broadcast_queue st' = [] \<and> agent_pc st' = Some At_Receive
    \<and> outbox st' = outbox st @ concat (map (\<lambda>b. sent_msg (net_env R) (Server_To_Client
          (stamp_value (net_env R) True) (take (unat (name_length (own_user st))) (own_name st)) body)
        (sock (user_at (ustore st) b))) (filter (\<lambda>b. logged_in (user_at (ustore st) b)) as))"
proof -
  let ?w = "Server_To_Client (stamp_value (net_env R) True)
    (take (unat (name_length (own_user st))) (own_name st)) body"
  obtain m where m: "carries (net_env R) m ?w" and r: "client_round R st = ret (True,
      (received_state len body st)\<lparr>msg := m, broadcast_queue := [\<lparr>sender = None, qmsg = m\<rparr>]\<rparr>)"
    using chat_round [OF assms(1-8)] assms(9) by auto
  let ?s = "(received_state len body st)\<lparr>msg := m, broadcast_queue := [\<lparr>sender = None, qmsg = m\<rparr>]\<rparr>"
  have "client_ok ?s as a" "agent_pc ?s = Some At_Receive" "\<not> Is_broadcast_paused ?s"
    using assms(1,10,11) by (simp_all add: Is_broadcast_paused_def)
  moreover have "carries_frame (net_env R) m (msg_type ?w) (msg_body ?w)" using m by (simp add: carries_def)
  ultimately obtain st' where st': "server_run (replicate 4 (Agent (net_env R))) ?s = Some (ret st')"
    "client_ok st' as a" "ustore st' = ustore ?s" "broadcast_queue st' = []" "agent_pc st' = Some At_Receive"
    "outbox st' = outbox ?s @ broadcast_output (net_env R) (ustore ?s) as None (frame (msg_type ?w) (msg_body ?w))"
    using agent_turn [of ?s as a "\<lparr>sender = None, qmsg = m\<rparr>" "[]" "net_env R" "msg_type ?w" "msg_body ?w"]
    by (auto simp: numeral_eq_Suc)
  then show ?thesis
    using r by (simp add: broadcast_output_def recipients_def sent_msg_def encode_def)
qed

theorem text_reaches_everybody_witness:
  "\<exists>st'. server_run (Round (example_round 2 [72, 105]) # replicate 4 (Agent example_env)) (example_server 0) = Some (ret st')
    \<and> map fst (outbox st') = [4, 6]"
proof -
  let ?w = "Server_To_Client (stamp_value example_env True)
      (take (unat (name_length (own_user (example_server 0)))) (own_name (example_server 0))) [72, 105]"
  have "map fst (concat (map (\<lambda>b. sent_msg example_env ?w (sock (user_at example_room b)))
      (filter (\<lambda>b. logged_in (user_at example_room b)) [0, 1, 2]))) = [4, 6]" by code_simp
  moreover have "agent_pc (example_server 0) = Some At_Receive" by (simp add: example_server_def)
  moreover have "\<not> Is_broadcast_paused (example_server 0)" by (simp add: Is_broadcast_paused_def)
  ultimately show ?thesis
    using text_reaches_everybody [OF example_server_ok [of 0] example_round_brings, of "[72, 105]"] by auto
qed

text \<open>C9: A successful login reaches everybody. A client sends a whole login under an allowed name
  of 1 to 30 bytes that no logged-in user shows; the chat is not paused, the queue is empty and takes
  the message, and the agent waits for one. After the round of the new user's thread and one turn of the
  agent, the user has the success with the server's name, then one notice for each user that was already
  logged in, and then everybody logged in, the new user itself too, has the notice of the new user with
  the clock's time, in the order of the list; the new user is logged in under the name and nobody else's
  entry changed.\<close>

theorem login_reaches_everybody:
  assumes "client_ok st as a" and "brings R 0 (login_len nm) (login_body nm)"
    and "0 < length nm" "length nm \<le> 30" "\<forall>c \<in> set nm. name_byte_ok c"
    and "\<not> name_taken (ustore st) as nm" "memory_ok R st"
    and "queue_room R st" "broadcast_queue st = []" "agent_pc st = Some At_Receive" "\<not> Is_broadcast_paused st"
  shows "\<exists>st'. server_run (Round R # replicate 4 (Agent (net_env R))) st = Some (ret st')
    \<and> client_ok st' as a
    \<and> user_at (ustore st') = (user_at (ustore st))(a := with_name (own_user st) nm)
    \<and> outbox st' = outbox st
        @ sent_msg (net_env R) (Login_Response LR_success (server_string st)) (sock (own_user st))
        @ old_users_output (net_env R) (ustore st) as a (sock (own_user st))
        @ concat (map (\<lambda>b. sent_msg (net_env R) (User_Added (stamp_value (net_env R) True) nm)
            (sock (user_at (ustore st) b))) (filter (\<lambda>b. b = a \<or> logged_in (user_at (ustore st) b)) as))"
proof -
  let ?E = "net_env R" and ?w = "User_Added (stamp_value (net_env R) True) nm"
  obtain s q where s: "client_round R st = ret (True, s)" "client_ok s as a" "unmoved st s"
    "broadcast_Paused s = broadcast_Paused st" "broadcast_queue s = [q]"
    "user_at (ustore s) = (user_at (ustore st))(a := with_name (own_user st) nm)" "queued ?E q ?w"
    "outbox s = outbox st @ sent_msg ?E (Login_Response LR_success (server_string st)) (sock (own_user st))
        @ old_users_output ?E (ustore st) as a (sock (own_user st))"
    using login_succeeds_effect [OF assms(1-7)] assms(8,9) by auto
  have "agent_pc s = Some At_Receive" "\<not> Is_broadcast_paused s"
    using s(3,4) assms(10,11) by (simp_all add: unmoved_def Is_broadcast_paused_def)
  moreover have "carries_frame ?E (qmsg q) (msg_type ?w) (msg_body ?w)" and q: "sender q = None"
    using s(7) by (simp_all add: queued_def carries_def)
  ultimately obtain st' where st': "server_run (replicate 4 (Agent ?E)) s = Some (ret st')"
    "client_ok st' as a" "ustore st' = ustore s"
    "outbox st' = outbox s @ broadcast_output ?E (ustore s) as None (frame (msg_type ?w) (msg_body ?w))"
    using agent_turn [OF s(2) _ _ s(5), of ?E "msg_type ?w" "msg_body ?w"] by (auto simp: numeral_eq_Suc)
  have a: "self st = Some a" using assms(1) by (simp add: client_ok_def)
  have eq: "sock (user_at (ustore s) b) = sock (user_at (ustore st) b)"
    "logged_in (user_at (ustore s) b) \<longleftrightarrow> b = a \<or> logged_in (user_at (ustore st) b)" for b
    using s(6) a by (simp_all add: own_user_def)
  have "broadcast_output ?E (ustore s) as None (frame (msg_type ?w) (msg_body ?w)) =
      concat (map (\<lambda>b. sent_msg ?E ?w (sock (user_at (ustore st) b)))
        (filter (\<lambda>b. b = a \<or> logged_in (user_at (ustore st) b)) as))"
    unfolding broadcast_output_def recipients_def eq sent_msg_def encode_def by simp
  then show ?thesis using st' s by simp
qed

theorem login_reaches_everybody_witness:
  "\<exists>st'. server_run (Round ((example_round 0 (login_body [67, 68]))\<lparr>entry_memory := None\<rparr>)
        # replicate 4 (Agent example_env)) (example_server 1) = Some (ret st')
    \<and> logged_in (user_at (ustore st') 1)"
proof -
  let ?R = "(example_round 0 (login_body [67, 68]))\<lparr>entry_memory := None\<rparr>"
  have "\<not> name_taken (ustore (example_server 1)) [0, 1, 2] [67, 68]"
    unfolding name_taken_def by code_simp
  moreover have "brings ?R 0 (login_len [67, 68]) (login_body [67, 68])"
    using example_round_brings [of 0 "login_body [67, 68]"] by (simp add: login_len_def brings_def)
  moreover have "memory_ok ?R (example_server 1)" by (simp add: memory_ok_def)
  moreover have "\<forall>c \<in> set [67, 68]. name_byte_ok c" by code_simp
  moreover have "queue_room ?R (example_server 1)" by (simp add: queue_room_def example_round_def example_server_def)
  moreover have "agent_pc (example_server 1) = Some At_Receive" by (simp add: example_server_def)
  moreover have "\<not> Is_broadcast_paused (example_server 1)" by (simp add: Is_broadcast_paused_def)
  moreover have "net_env ?R = example_env" by (simp add: example_round_def)
  ultimately show ?thesis
    using login_reaches_everybody [OF example_server_ok [of 1], of ?R "[67, 68]"] by fastforce
qed

section \<open>What the shared variables do to two clients\<close>

text \<open>C30: With a second connection the first client loses its identity: a round of any thread that starts
  after the thread of a new connection has reads the new connection's socket, and a text it gets is broadcast under the name of the new user, which is still empty, although it has not
  logged in; the entry of the first client is not used any more.\<close>

theorem second_connection_takes_over:
  assumes "client_ok st as a" and "sk \<notin> sock ` user_at (ustore st) ` set as"
    and "heap (users (ustore st)) b = None" and "brings R 2 len body"
    and "0 < length body" "length body \<le> 511" "unat len = length body" "0 \<notin> set body" "body ! 0 \<noteq> 47"
    and "mq_send_ok R" "length (broadcast_queue st) < mq_maxmsg st"
  shows "\<exists>st1 st2 q. server_run [Connect t sk (Some b)] st = Some (ret st1) \<and> self_sock st1 = ret sk
    \<and> server_run [Connect t sk (Some b), Round R] st = Some (ret st2)
    \<and> broadcast_queue st2 = broadcast_queue st @ [q]
    \<and> queued (net_env R) q (Server_To_Client (stamp_value (net_env R) True) [] body)"
proof -
  have sv: "server_ok st as" using assms(1) by (simp add: server_ok_def client_ok_def)
  obtain us where us: "create_User t sk (Some b) (ustore st) = ret (Some b, us)" "users_inv_at us (as @ [b])"
    "user_at us b = new_user t sk"
    using create_inv [OF _ assms(2,3), of t] sv by (auto simp: server_ok_def)
  let ?s = "st\<lparr>ustore := us, self := Some b, msg := msg_zero, msg_length := 0,
    disconnect_reason := CD_communication_error\<rparr>"
  have started: "client_begin t sk (Some b) st = ret ?s" using us(1) by (simp add: client_begin_def)
  have ok: "client_ok ?s (as @ [b]) b" using sv us(2) by (simp add: client_ok_def server_ok_def)
  have own: "own_user ?s = new_user t sk" using us(3) by (simp add: own_user_def)
  have "queue_room R ?s" using assms(10,11) by (simp add: queue_room_def)
  from chat_round [OF ok assms(4-9) this] obtain m where
    m: "carries (net_env R) m (Server_To_Client (stamp_value (net_env R) True)
        (take (unat (name_length (own_user ?s))) (own_name ?s)) body)"
      "client_round R ?s = ret (True, (received_state len body ?s)\<lparr>msg := m,
        broadcast_queue := broadcast_queue ?s @ [\<lparr>sender = None, qmsg = m\<rparr>]\<rparr>)" by blast
  have "take (unat (name_length (own_user ?s))) (own_name ?s) = []" unfolding own by (simp add: new_user_def)
  then have "carries (net_env R) m (Server_To_Client (stamp_value (net_env R) True) [] body)"
    using m(1) by argo
  then have "queued (net_env R) \<lparr>sender = None, qmsg = m\<rparr>
      (Server_To_Client (stamp_value (net_env R) True) [] body)"
    by (simp add: queued_def)
  moreover have "self_sock ?s = ret sk" using read_selfs(1) [OF ok] own by (simp add: new_user_def)
  ultimately show ?thesis using started m(2) by (intro exI conjI) (assumption | simp)+
qed

theorem second_connection_takes_over_witness:
  "\<exists>st2 q. server_run [Connect 9 7 (Some 3), Round (example_round 2 [72, 105])] (example_server 0) = Some (ret st2)
    \<and> broadcast_queue st2 = [q]
    \<and> queued example_env q (Server_To_Client (stamp_value example_env True) [] [72, 105])"
proof -
  have "7 \<notin> sock ` user_at example_room ` set [0, 1, 2]" "heap (users example_room) 3 = None"
    by code_simp+
  moreover have "mq_send_ok (example_round 2 [72, 105])" "mq_maxmsg (example_server 0) = 10"
    by (simp_all add: example_round_def example_server_def)
  ultimately show ?thesis
    using second_connection_takes_over [OF example_server_ok [of 0] _ _ example_round_brings,
        of 7 3 "[72, 105]" 9] by fastforce
qed

text \<open>When the client that connected last leaves, its thread frees the user that all threads use as
  their own: the next round of any other thread is a use of freed memory.\<close>

theorem leaving_breaks_the_others:
  assumes "client_ok st (xs @ a # ys) a" and "gone G"
  shows "\<exists>st'. server_run [Round G, Leave E] st = Some (ret st') \<and> users_inv_at (ustore st') (xs @ ys)
    \<and> server_run [Round G, Leave E, Round R] st = Some (fail Dangling)"
proof -
  let ?s = "st\<lparr>msg := msg_zero, connection_status := left_status G\<rparr>"
  have r: "client_round G st = ret (False, ?s)" by (rule client_round_gone [OF assms])
  have ok: "client_ok ?s (xs @ a # ys) a" using assms(1) by simp
  have "connection_status ?s \<le> 0" by (simp add: left_status_def)
  moreover have sa: "self st = Some a" using assms(1) by (simp add: client_ok_def)
  ultimately obtain st' where st': "client_end E ?s = ret st'"
    "users_inv_at (ustore st') (xs @ ys)" "self st' = Some a"
    using client_end_effect [OF ok refl, of E] by auto
  have "a \<notin> set (xs @ ys)" using own_position [OF assms(1)] by auto
  then have "heap (users (ustore st')) a = None" using users_inv_at_dom [OF st'(2)] by blast
  then have "client_round R st' = fail Dangling"
    using st'(3) by (simp add: client_round_def Let_def clear_msg_def self_sock_def user_sock_def read_user_def
        deref_def)
  then show ?thesis using r st' by simp
qed

theorem leaving_breaks_the_others_witness:
  "server_run [Round ((example_round 0 [])\<lparr>header_io := IO_Data []\<rparr>), Leave example_env,
     Round (example_round 2 [72, 105])] (example_server 0) = Some (fail Dangling)"
proof -
  have "client_ok (example_server 0) ([] @ 0 # [1, 2]) 0" using example_server_ok [of 0] by simp
  moreover have "gone ((example_round 0 [])\<lparr>header_io := IO_Data []\<rparr>)" by (simp add: gone_def)
  ultimately show ?thesis using leaving_breaks_the_others by blast
qed

end
