(* ===== verification/Connection.thy ===== *)
theory Connection
  imports Byte_Order Commands
begin

text \<open>
  \<^verbatim>\<open>src/src/network/connectionhandler.c\<close>: the listening socket, the loop that accepts connections,
  the shutdown and the probe of a port. What the system calls answer is an argument; the calls
  themselves are recorded in the state, in their order. The text that is commented out in the
  source is not part of the program and has no definition.
\<close>

section \<open>System calls\<close>

text \<open>Ports are in network byte order, as \<^verbatim>\<open>htons\<close> leaves them in \<^verbatim>\<open>sin_port\<close>.\<close>

datatype sys_call =
    Sys_Socket
  | Sys_Setsockopt int
  | Sys_Bind int u16 u32
  | Sys_Listen int int
  | Sys_Accept int
  | Sys_Start_Thread int
  | Sys_Close int

text \<open>The answers: the new socket or -1, and whether the others succeed.\<close>

record net_os =
  os_host :: endian
  socket_result :: int
  setsockopt_ok :: bool
  bind_ok :: bool
  listen_ok :: bool

text \<open>An accepted connection with whether its thread could be created, or a failure.\<close>

datatype accept_result = Accept_Failed | Accepted int bool

record handler_state =
  accept_Connections :: bool
  sock_server :: int
  sys_calls :: "sys_call list"

definition handler_initial :: handler_state where
  "handler_initial = \<lparr>accept_Connections = True, sock_server = -1, sys_calls = []\<rparr>"

definition sys :: "sys_call \<Rightarrow> handler_state \<Rightarrow> handler_state" where
  "sys c st = st\<lparr>sys_calls := sys_calls st @ [c]\<rparr>"

definition INADDR_ANY :: u32 where
  "INADDR_ANY = 0"

definition SOMAXCONN :: int where
  "SOMAXCONN = 4096"

section \<open>Operations\<close>

definition create_socket :: "net_os \<Rightarrow> u16 \<Rightarrow> handler_state \<Rightarrow> int \<times> handler_state" where
  "create_socket OS port_nr st =
     (let e = os_host OS;
          st = sys Sys_Socket st;
          server_socket = socket_result OS;
          backlog = 10
      in if \<not> server_socket \<ge> 0 then (-1, st)
      else let st = sys (Sys_Setsockopt server_socket) st in
        if \<not> setsockopt_ok OS then (-2, sys (Sys_Close server_socket) st)
        else let st = sys (Sys_Bind server_socket (htons e port_nr) (htonl e INADDR_ANY)) st in
          if \<not> bind_ok OS then (-3, st)
          else let st = sys (Sys_Listen server_socket backlog) st in
            if \<not> listen_ok OS then (-4, st)
            else (server_socket, st))"

text \<open>
  How the handler ends: the process exits with a code, the function returns, or it waits in
  \<^verbatim>\<open>accept\<close> when the results are used up.
\<close>

datatype handler_end = Handler_Exits int | Handler_Returns | Handler_Waits

fun accept_loop :: "int \<Rightarrow> accept_result list \<Rightarrow> handler_state \<Rightarrow> handler_end \<times> handler_state" where
  "accept_loop server_socket [] st = (Handler_Waits, st)"
| "accept_loop server_socket (Accept_Failed # rs) st = (Handler_Returns, sys (Sys_Accept server_socket) st)"
| "accept_loop server_socket (Accepted sock_client thread_ok # rs) st =
     (let st = sys (Sys_Accept server_socket) st in
      if thread_ok then accept_loop server_socket rs (sys (Sys_Start_Thread sock_client) st)
      else accept_loop server_socket rs (sys (Sys_Close sock_client) st))"

definition connection_handler ::
    "net_os \<Rightarrow> accept_result list \<Rightarrow> u16 \<Rightarrow> handler_state \<Rightarrow> handler_end \<times> handler_state" where
  "connection_handler OS rs port_nr st =
     (let st = sys Sys_Socket st;
          server_socket = socket_result OS
      in if server_socket = -1 then (Handler_Exits 1, st)
      else let st = sys (Sys_Bind server_socket (htons (os_host OS) 8111) INADDR_ANY) st in
        if \<not> bind_ok OS then (Handler_Exits 1, st)
        else let st = sys (Sys_Listen server_socket SOMAXCONN) st in
          if \<not> listen_ok OS then (Handler_Exits 1, st)
          else accept_loop server_socket rs st)"

definition connection_handler_shutdown :: "handler_state \<Rightarrow> handler_state" where
  "connection_handler_shutdown st = sys (Sys_Close (sock_server st)) st"

definition is_port_available :: "net_os \<Rightarrow> int \<Rightarrow> handler_state \<Rightarrow> bool \<times> handler_state" where
  "is_port_available OS port_nr st =
     (let e = os_host OS;
          result = True;
          st = sys Sys_Socket st;
          test_socket = socket_result OS
      in if \<not> test_socket \<ge> 0 then (False, st)
      else let st = sys (Sys_Bind test_socket (htons e (word_of_int port_nr)) (htonl e INADDR_ANY)) st in
        if \<not> bind_ok OS then (False, sys (Sys_Close test_socket) st)
        else (result, sys (Sys_Close test_socket) st))"

section \<open>What the loop does\<close>

text \<open>The connections up to the first failure, and the calls each of them causes.\<close>

definition before_failure :: "accept_result list \<Rightarrow> accept_result list" where
  "before_failure = takeWhile (\<lambda>r. r \<noteq> Accept_Failed)"

fun calls_of :: "int \<Rightarrow> accept_result \<Rightarrow> sys_call list" where
  "calls_of ss Accept_Failed = [Sys_Accept ss]"
| "calls_of ss (Accepted sk ok) = [Sys_Accept ss, if ok then Sys_Start_Thread sk else Sys_Close sk]"

lemma sys_fields [simp]:
  "sys_calls (sys c st) = sys_calls st @ [c]" "sock_server (sys c st) = sock_server st"
  "accept_Connections (sys c st) = accept_Connections st"
  by (simp_all add: sys_def)

lemma accept_loop_calls:
  "accept_loop ss rs st =
     (if Accept_Failed \<in> set rs then Handler_Returns else Handler_Waits,
      st\<lparr>sys_calls := sys_calls st @ concat (map (calls_of ss) (before_failure rs))
           @ (if Accept_Failed \<in> set rs then [Sys_Accept ss] else [])\<rparr>)"
  by (induction ss rs st rule: accept_loop.induct) (simp_all add: before_failure_def sys_def Let_def)

definition threads_of :: "sys_call list \<Rightarrow> int list" where
  "threads_of cs = concat (map (\<lambda>c. case c of Sys_Start_Thread sk \<Rightarrow> [sk] | _ \<Rightarrow> []) cs)"

definition closes_of :: "sys_call list \<Rightarrow> int list" where
  "closes_of cs = concat (map (\<lambda>c. case c of Sys_Close sk \<Rightarrow> [sk] | _ \<Rightarrow> []) cs)"

lemma threads_of_append [simp]: "threads_of (xs @ ys) = threads_of xs @ threads_of ys"
  by (simp add: threads_of_def)

lemma closes_of_append [simp]: "closes_of (xs @ ys) = closes_of xs @ closes_of ys"
  by (simp add: closes_of_def)

definition started :: "accept_result list \<Rightarrow> int list" where
  "started rs = concat (map (\<lambda>r. case r of Accepted sk True \<Rightarrow> [sk] | _ \<Rightarrow> []) rs)"

definition refused :: "accept_result list \<Rightarrow> int list" where
  "refused rs = concat (map (\<lambda>r. case r of Accepted sk False \<Rightarrow> [sk] | _ \<Rightarrow> []) rs)"

lemma loop_threads:
  "Accept_Failed \<notin> set rs \<Longrightarrow> threads_of (concat (map (calls_of ss) rs)) = started rs
     \<and> closes_of (concat (map (calls_of ss) rs)) = refused rs"
proof (induction rs)
  case (Cons r rs)
  then show ?case
    by (cases r) (auto simp: threads_of_def closes_of_def started_def refused_def)
qed (simp add: threads_of_def closes_of_def started_def refused_def)

lemma before_failure_ok: "Accept_Failed \<notin> set (before_failure rs)"
  by (auto simp: before_failure_def dest: set_takeWhileD)

text \<open>Every accepted connection gets a thread of its own or is closed: once the listening socket
  stands, the sockets a thread is started for are exactly the accepted ones whose thread could be
  created, up to the first failure of \<^verbatim>\<open>accept\<close> and in the order of acceptance, and the sockets
  closed are exactly the other accepted ones; the handler returns at the first failure and waits
  for connections for ever without one.\<close>

theorem every_connection_gets_a_thread:
  assumes "socket_result OS \<noteq> -1" and "bind_ok OS" and "listen_ok OS"
  shows "\<exists>cs st'. connection_handler OS rs port_nr st =
      (if Accept_Failed \<in> set rs then Handler_Returns else Handler_Waits, st')
    \<and> sys_calls st' = sys_calls st @ cs
    \<and> threads_of cs = started (before_failure rs) \<and> closes_of cs = refused (before_failure rs)"
proof -
  let ?ss = "socket_result OS"
  let ?cs = "[Sys_Socket, Sys_Bind ?ss (htons (os_host OS) 8111) INADDR_ANY, Sys_Listen ?ss SOMAXCONN]
    @ concat (map (calls_of ?ss) (before_failure rs)) @ (if Accept_Failed \<in> set rs then [Sys_Accept ?ss] else [])"
  have "threads_of ?cs = started (before_failure rs) \<and> closes_of ?cs = refused (before_failure rs)"
    using loop_threads [OF before_failure_ok, of ?ss rs] by (simp add: threads_of_def closes_of_def)
  then show ?thesis
    using assms by (intro exI [of _ ?cs] exI [of _ "st\<lparr>sys_calls := sys_calls st @ ?cs\<rparr>"] conjI)
      (simp_all add: connection_handler_def accept_loop_calls Let_def sys_def)
qed

theorem every_connection_gets_a_thread_witness:
  "\<exists>cs st'. connection_handler \<lparr>os_host = Little, socket_result = 3, setsockopt_ok = True, bind_ok = True,
        listen_ok = True\<rparr> [Accepted 4 True, Accepted 5 False, Accepted 6 True, Accept_Failed] 8111 handler_initial
      = (Handler_Returns, st')
    \<and> sys_calls st' = cs \<and> threads_of cs = [4, 6] \<and> closes_of cs = [5]"
proof -
  let ?OS = "\<lparr>os_host = Little, socket_result = 3, setsockopt_ok = True, bind_ok = True, listen_ok = True\<rparr>"
  let ?rs = "[Accepted 4 True, Accepted 5 False, Accepted 6 True, Accept_Failed]"
  have "socket_result ?OS \<noteq> -1" "bind_ok ?OS" "listen_ok ?OS" by simp_all
  from every_connection_gets_a_thread [OF this, of ?rs 8111 handler_initial] show ?thesis
    by (simp add: handler_initial_def started_def refused_def before_failure_def)
qed

text \<open>The configured port is ignored and the shutdown closes nothing: whatever port the handler is
  called with, it does the same and binds port 8111, and it never stores the listening socket, so
  that the shutdown afterwards asks to close the socket -1.\<close>

theorem configured_port_is_ignored:
  "connection_handler OS rs p st = connection_handler OS rs q st
   \<and> (socket_result OS \<noteq> -1 \<longrightarrow> Sys_Bind (socket_result OS) (htons (os_host OS) 8111) INADDR_ANY
        \<in> set (sys_calls (snd (connection_handler OS rs p st))))
   \<and> (sock_server st = -1 \<longrightarrow> sys_calls (connection_handler_shutdown (snd (connection_handler OS rs p st)))
        = sys_calls (snd (connection_handler OS rs p st)) @ [Sys_Close (-1)])"
  by (auto simp: connection_handler_def connection_handler_shutdown_def accept_loop_calls Let_def)

theorem configured_port_is_ignored_witness:
  "sys_calls (connection_handler_shutdown (snd (connection_handler \<lparr>os_host = Little, socket_result = 3,
      setsockopt_ok = True, bind_ok = True, listen_ok = True\<rparr> [] 9000 handler_initial)))
   = [Sys_Socket, Sys_Bind 3 (htons Little 8111) INADDR_ANY, Sys_Listen 3 SOMAXCONN, Sys_Close (-1)]"
proof -
  have "sock_server handler_initial = -1" by (simp add: handler_initial_def)
  with configured_port_is_ignored [of "\<lparr>os_host = Little, socket_result = 3, setsockopt_ok = True, bind_ok = True,
      listen_ok = True\<rparr>" "[]" 9000 handler_initial] show ?thesis
    by (simp add: connection_handler_def handler_initial_def Let_def)
qed

text \<open>The probe of a port binds that port and leaves no socket open.\<close>

lemma probing_closes_its_socket:
  "\<exists>st'. is_port_available OS p st = (0 \<le> socket_result OS \<and> bind_ok OS, st')
   \<and> sys_calls st' = sys_calls st @ Sys_Socket # (if 0 \<le> socket_result OS
        then [Sys_Bind (socket_result OS) (htons (os_host OS) (word_of_int p)) (htonl (os_host OS) INADDR_ANY),
          Sys_Close (socket_result OS)] else [])"
  by (simp add: is_port_available_def Let_def)

text \<open>The codes of the socket's creation, and what stays open with each: a socket that could not be
  bound or does not listen is not closed.\<close>

lemma create_socket_codes:
  "create_socket OS p st = (code, st') \<Longrightarrow>
     (code = -1 \<longleftrightarrow> socket_result OS < 0)
   \<and> (code = -2 \<longleftrightarrow> socket_result OS \<ge> 0 \<and> \<not> setsockopt_ok OS)
   \<and> (code = -3 \<longleftrightarrow> socket_result OS \<ge> 0 \<and> setsockopt_ok OS \<and> \<not> bind_ok OS)
   \<and> (code = -4 \<longleftrightarrow> socket_result OS \<ge> 0 \<and> setsockopt_ok OS \<and> bind_ok OS \<and> \<not> listen_ok OS)
   \<and> (code \<in> {-3, -4} \<longrightarrow> Sys_Close (socket_result OS) \<notin> set (drop (length (sys_calls st)) (sys_calls st')))"
  by (auto simp: create_socket_def Let_def split: if_splits)

end
