(* ===== verification/Application.thy ===== *)
theory Application
  imports Client Connection Log_Macros
begin

text \<open>
  \<^verbatim>\<open>src/src/application.c\<close> and \<^verbatim>\<open>src/src/main.c\<close>: the start of the server with its command line, its
  run, its end and the handler of the interrupt signal, over the state of the components they
  start. The calls of the logging macros of these two files are part of the definitions.
\<close>

section \<open>State and surroundings\<close>

record app_state =
  server :: server_state
  handler :: handler_state

text \<open>
  What the system answers: the network, the files and the clock, the directory of the logs, the
  memory for the main thread's name, the thread itself, and how the broadcast agent's queue and
  thread come up.
\<close>

record app_os =
  network_os :: net_os
  log_os :: log_env
  mkdir_done :: bool
  log_directory :: "(byte list \<times> bool) list option"
  remove_done :: "byte list \<Rightarrow> bool"
  name_memory :: "nat option"
  main_thread :: nat
  queue_left_over :: "queue_message list option"
  agent_thread_ok :: bool

text \<open>A function of the start either returns or ends the process with an exit code.\<close>

datatype app_outcome = Running app_state | Exited int app_state

fun on_running :: "(app_state \<Rightarrow> app_outcome res) \<Rightarrow> app_outcome \<Rightarrow> app_outcome res" where
  "on_running f (Running st) = f st"
| "on_running f (Exited code st) = ret (Exited code st)"

definition EXIT_SUCCESS :: int where "EXIT_SUCCESS = 0"
definition EXIT_FAILURE :: int where "EXIT_FAILURE = 1"

definition set_logs :: "app_state \<Rightarrow> log_state \<Rightarrow> app_state" where
  "set_logs st l = st\<lparr>server := (server st)\<lparr>logs := l\<rparr>\<rparr>"

definition with_logs :: "(log_state \<Rightarrow> log_state res) \<Rightarrow> app_state \<Rightarrow> app_state res" where
  "with_logs f st = bindR (f (logs (server st))) (\<lambda>l. ret (set_logs st l))"

text \<open>The logging macros of this file, at their lines, with the format and what it expands to.\<close>

definition cl_log ::
    "app_os \<Rightarrow> log_level \<Rightarrow> string \<Rightarrow> int \<Rightarrow> byte list \<Rightarrow> byte list \<Rightarrow> app_state \<Rightarrow> app_state res" where
  "cl_log OS level func line message formatted =
     with_logs (log_output (log_os OS) level (site ''src/application.c'' func line (main_thread OS)) message formatted)"

definition cl_text :: "app_os \<Rightarrow> log_level \<Rightarrow> string \<Rightarrow> int \<Rightarrow> string \<Rightarrow> app_state \<Rightarrow> app_state res" where
  "cl_text OS level func line text = cl_log OS level func line (bytes_of text) (bytes_of text)"

definition cl_func :: "app_os \<Rightarrow> string \<Rightarrow> string \<Rightarrow> int \<Rightarrow> byte list \<Rightarrow> byte list \<Rightarrow> app_state \<Rightarrow> app_state res" where
  "cl_func OS pre func line message formatted =
     with_logs (log_output (log_os OS) Trace
       ((site ''src/application.c'' func line (main_thread OS))\<lparr>prefix := bytes_of pre\<rparr>) message formatted)"

definition cl_separator :: "app_os \<Rightarrow> app_state \<Rightarrow> app_state res" where
  "cl_separator OS = with_logs (print_Separator (log_os OS) (main_thread OS))"

text \<open>\<^verbatim>\<open>CL_VALIDATE\<close>: a debug message, or an error message and the command.\<close>

definition cl_validate ::
    "app_os \<Rightarrow> string \<Rightarrow> int \<Rightarrow> bool \<Rightarrow> byte list \<times> byte list \<Rightarrow> byte list \<times> byte list
     \<Rightarrow> (app_state \<Rightarrow> app_outcome res) \<Rightarrow> app_state \<Rightarrow> app_outcome res" where
  "cl_validate OS func line expr messageSuccess messageFailure abortCommand st =
     (if expr
      then bindR (cl_log OS Debug func line (fst messageSuccess) (snd messageSuccess) st) (\<lambda>st. ret (Running st))
      else bindR (cl_log OS Error func line (fst messageFailure) (snd messageFailure) st) abortCommand)"

text \<open>These are the macros of \<^verbatim>\<open>logger.h\<close> with its setting, on the logger inside the state.\<close>

lemma cl_log_is_macro:
  "cl_log OS level func line message formatted =
     with_logs (CL_LOG (log_os OS) LOG_LEVEL_ENABLED level (site ''src/application.c'' func line (main_thread OS))
       (message, formatted))"
  by (rule ext) (simp add: cl_log_def CL_LOG_def site_def with_logs_def)

lemma cl_func_is_macro:
  "cl_func OS ''START '' func line message formatted =
     with_logs (CL_LOG_FUNC_START (log_os OS) LOG_LEVEL_ENABLED
       (site ''src/application.c'' func line (main_thread OS)) (message, formatted))"
  "cl_func OS ''END '' func line message formatted =
     with_logs (CL_LOG_FUNC_END (log_os OS) LOG_LEVEL_ENABLED
       (site ''src/application.c'' func line (main_thread OS)) (message, formatted))"
  by (rule ext, simp add: cl_func_def CL_LOG_FUNC_START_def CL_LOG_FUNC_END_def with_logs_def)+

lemma cl_separator_is_macro:
  "cl_separator OS = with_logs (CL_SEPARATOR (log_os OS) LOG_LEVEL_ENABLED (main_thread OS))"
  by (rule ext) (simp add: cl_separator_def CL_SEPARATOR_def with_logs_def)

lemma cl_validate_is_macro:
  "cl_validate OS func line expr ok bad abort st =
     CL_VALIDATE (log_os OS) LOG_LEVEL_ENABLED (site ''src/application.c'' func line (main_thread OS)) expr ok bad
       (\<lambda>l. abort (set_logs st l)) (\<lambda>l. ret (Running (set_logs st l))) (logs (server st))"
  by (simp add: cl_validate_def CL_VALIDATE_def cl_log_is_macro with_logs_def bindR_assoc)

definition plain :: "string \<Rightarrow> byte list \<times> byte list" where
  "plain s = (bytes_of s, bytes_of s)"

text \<open>\<^verbatim>\<open>log_shutdown(); exit(code)\<close>.\<close>

definition app_exit :: "app_os \<Rightarrow> int \<Rightarrow> app_state \<Rightarrow> app_outcome res" where
  "app_exit OS code st =
     bindR (with_logs (log_shutdown (log_os OS) (main_thread OS)) st) (\<lambda>st. ret (Exited code st))"

section \<open>The help\<close>

definition dollar_texts :: "(int \<times> string) list" where
  "dollar_texts =
    [(182, '' -p      | PORT        | set TCP port to use               (default: 8111)''),
     (183, '' -l      | LogFormat   | Set the format of Log messages    (NOT IMPLEMENTED YET)''),
     (184, ''         |             |   Formatting the LogMessages can be customized with the following tags''),
     (185, ''         |             |   e.g. $B[$T] $L [$F]  $C$E  or $BTime:[$M $S] $L $E ==> $C''),
     (186, ''         |             |   $T  Time              hh:mm:ss''),
     (187, ''         |             |   $H  Hour              hh''),
     (188, ''         |             |   $M  Minute            mm''),
     (189, ''         |             |   $S  Second           ss''),
     (190, ''         |             |   $J  MilliSecond      mm''),
     (191, ''         |             |   ''),
     (192, ''         |             |   $N  Date              yyyy:mm:dd:''),
     (193, ''         |             |   $Y  Date Year         yyyy''),
     (194, ''         |             |   $O  Date Month        mm''),
     (195, ''         |             |   $D  Date Day          dd''),
     (196, ''         |             |   ''),
     (197, ''         |             |   $F  Func. Name        main, foo''),
     (198, ''         |             |   $A  File Name         C:/Project/main.c C:/Project/foo.c''),
     (199, ''         |             |   $I  short File Name   .c foo.c''),
     (200, ''         |             |   $G  Line              1, 42''),
     (201, ''         |             |   $P  thread id         155642640''),
     (202, ''         |             |   '')]"

definition usage_texts :: "(int \<times> string) list" where
  "usage_texts =
    [(169, ''Usage:  build/server [-a ADMIN] [-m] [-d LEVEL] [-n SERVERNAME] [-p PORT]'')]"

definition option_texts :: "(int \<times> string) list" where
  "option_texts =
    [(171, ''Shortcut | Parameter   | Description''),
     (172, ''===========================================================================================''),
     (173, '' -a      | ADMIN       | set name of the administrator     (default: Admin)''),
     (174, '' -m      |             | do not use colors for output''),
     (175, '' -d      | LEVEL       | set debug level                   (default: 5)''),
     (176, ''         |             |    1 => FATAL + ERROR''),
     (177, ''         |             |    2 => FATAL + ERROR + WARN''),
     (178, ''         |             |    3 => FATAL + ERROR + WARN + INFO''),
     (179, ''         |             |    4 => FATAL + ERROR + WARN + INFO + DEBUG''),
     (180, ''         |             |    5 => FATAL + ERROR + WARN + INFO + DEBUG + TRACE'')]"

definition tag_texts :: "(int \<times> string) list" where
  "tag_texts =
    [(204, ''         |             |   $X  Alinement         add space for 'INFO' & 'WARN'' @ [CHR 0x27]),
     (205, ''         |             |   $B  Color Begin       from here the color starts''),
     (206, ''         |             |   $E  Color End         from here the color ends''),
     (207, ''         |             |   $C  Text              Formate Message with variables''),
     (208, ''         |             |   $Z  New Line          Adds a new Line to the log'')]"

text \<open>All calls of \<^verbatim>\<open>print_Help\<close>, with their lines.\<close>

definition as_lines :: "(int \<times> string) list \<Rightarrow> (int \<times> byte list \<times> byte list) list" where
  "as_lines ts = map (\<lambda>(l, t). (l, bytes_of t, bytes_of t)) ts"

definition help_lines :: "byte list \<Rightarrow> (int \<times> byte list \<times> byte list) list" where
  "help_lines nm =
     [(168, [10], [10])] @ as_lines usage_texts @ [(170, [10], [10])] @ as_lines option_texts
     @ [(181, bytes_of '' -n      | SERVNAME    | set server name                   (default: %s)'',
          bytes_of '' -n      | SERVNAME    | set server name                   (default: '' @ nm @ bytes_of '')'')]
     @ as_lines dollar_texts
     @ [(203, bytes_of ''         |             |   $L  LogLevel          [TRACE], [DEBUG] '' @ [0xE2, 0x80, 0xA6]
            @ bytes_of '' [FATAL]'',
          bytes_of ''         |             |   $L  LogLevel          [TRACE], [DEBUG] '' @ [0xE2, 0x80, 0xA6]
            @ bytes_of '' [FATAL]'')]
     @ as_lines tag_texts @ [(209, [10], [10])]"

fun log_lines :: "app_os \<Rightarrow> string \<Rightarrow> (int \<times> byte list \<times> byte list) list \<Rightarrow> app_state \<Rightarrow> app_state res" where
  "log_lines OS func [] st = ret st"
| "log_lines OS func ((line, message, formatted) # ls) st =
     bindR (cl_log OS Trace func line message formatted st) (log_lines OS func ls)"

definition print_Help :: "app_os \<Rightarrow> app_state \<Rightarrow> app_state res" where
  "print_Help OS st =
     (let st = set_logs st (set_Formatting (bytes_of ''  $C$Z'') (logs (server st))) in
      bindR (c_string (server_name (conf (server st)))) (\<lambda>server_string.
      bindR (log_lines OS ''print_Help'' (help_lines server_string) st) (\<lambda>st.
        ret (set_logs st (use_Formatting_Backup (logs (server st)))))))"

definition print_help_and_exit :: "app_os \<Rightarrow> app_state \<Rightarrow> app_outcome res" where
  "print_help_and_exit OS st =
     bindR (with_logs (set_log_level (log_os OS) (main_thread OS) 5) st) (\<lambda>st.
     bindR (print_Help OS st) (\<lambda>st. app_exit OS EXIT_SUCCESS st))"

section \<open>The command line\<close>

text \<open>
  \<^verbatim>\<open>atoi\<close>: blanks, a sign, digits. A number that is no \<^verbatim>\<open>int\<close> is undefined behaviour.
\<close>

definition c_isdigit :: "byte \<Rightarrow> bool" where
  "c_isdigit c \<longleftrightarrow> 48 \<le> unat c \<and> unat c \<le> 57"

definition c_atoi :: "byte list \<Rightarrow> int res" where
  "c_atoi s =
     (let t = dropWhile c_isspace s;
          negative = (t \<noteq> [] \<and> hd t = of_char (CHR ''-''));
          t = (if t \<noteq> [] \<and> (hd t = of_char (CHR ''-'') \<or> hd t = of_char (CHR ''+'')) then tl t else t);
          n = foldl (\<lambda>n c. 10 * n + (int (unat c) - 48)) 0 (takeWhile c_isdigit t);
          v = (if negative then - n else n)
      in if - (2 ^ 31) \<le> v \<and> v < 2 ^ 31 then ret v else fail Int_Overflow)"

definition set_server_name :: "app_state \<Rightarrow> byte list \<Rightarrow> app_state" where
  "set_server_name st b = st\<lparr>server := (server st)\<lparr>conf := (conf (server st))\<lparr>server_name := b\<rparr>\<rparr>\<rparr>"

definition set_admin_name :: "app_state \<Rightarrow> byte list \<Rightarrow> app_state" where
  "set_admin_name st b = st\<lparr>server := (server st)\<lparr>conf := (conf (server st))\<lparr>admin_name := b\<rparr>\<rparr>\<rparr>"

definition set_port :: "app_state \<Rightarrow> u16 \<Rightarrow> app_state" where
  "set_port st p = st\<lparr>server := (server st)\<lparr>conf := (conf (server st))\<lparr>port := p\<rparr>\<rparr>\<rparr>"

text \<open>
  The options of the administrator's and the server's name do the same with different texts, lines,
  buffers and exit codes. \<open>optarg\<close> is the string without its NUL.
\<close>

definition name_option ::
    "app_os \<Rightarrow> string \<Rightarrow> string \<Rightarrow> int \<Rightarrow> int \<Rightarrow> (config \<Rightarrow> byte list) \<Rightarrow> (app_state \<Rightarrow> byte list \<Rightarrow> app_state)
     \<Rightarrow> byte list \<Rightarrow> app_state \<Rightarrow> app_outcome res" where
  "name_option OS what label line code buffer store optarg st =
     (let opt_buffer = length optarg in
      bindR (cl_validate OS ''application_Startup'' line (opt_buffer > 0 \<and> opt_buffer < 32)
               (plain (''New ['' @ what @ ''] is valid''))
               (bytes_of (''New ['' @ what @ ''] to big [%d/32]''),
                bytes_of (''New ['' @ what @ ''] to big ['') @ fmt_d (int opt_buffer) @ bytes_of ''/32]'')
               (app_exit OS code) st)
        (on_running (\<lambda>st.
          bindR (c_strcpy (buffer (conf (server st))) 0 (optarg @ [0])) (\<lambda>b.
          (let st = store st b in
          bindR (c_string b) (\<lambda>nm.
          bindR (cl_log OS Info ''application_Startup'' (line + 2) (bytes_of (label @ '': %s''))
                   (bytes_of (label @ '': '') @ nm) st) (\<lambda>st. ret (Running st))))))))"

definition option_admin :: "app_os \<Rightarrow> byte list \<Rightarrow> app_state \<Rightarrow> app_outcome res" where
  "option_admin OS = name_option OS ''admin name'' ''Admin name'' 66 EXIT_SUCCESS admin_name set_admin_name"

definition option_server_name :: "app_os \<Rightarrow> byte list \<Rightarrow> app_state \<Rightarrow> app_outcome res" where
  "option_server_name OS = name_option OS ''server name'' ''Server name'' 89 EXIT_FAILURE server_name set_server_name"

text \<open>
  The option of the port: the range, the probe, the storing. \<^verbatim>\<open>opt_buffer\<close> is a \<^verbatim>\<open>u64\<close>: a negative
  number becomes a large one.
\<close>

definition store_port :: "app_os \<Rightarrow> u64 \<Rightarrow> app_state \<Rightarrow> app_outcome res" where
  "store_port OS opt_buffer st =
     (let st = set_port st (ucast opt_buffer) in
      bindR (cl_log OS Info ''application_Startup'' 101 (bytes_of ''Port: %d'')
               (bytes_of ''Port: '' @ fmt_d (uint (port (conf (server st))))) st) (\<lambda>st. ret (Running st)))"

definition probe_port :: "app_os \<Rightarrow> u64 \<Rightarrow> app_state \<Rightarrow> app_outcome res" where
  "probe_port OS opt_buffer st =
     (let (available, h) = is_port_available (network_os OS) (sint (ucast opt_buffer :: u32)) (handler st) in
      bindR (cl_validate OS ''application_Startup'' 99 available
               (plain ''selected port is available'') (plain ''port not available'')
               (app_exit OS EXIT_FAILURE) (st\<lparr>handler := h\<rparr>))
        (on_running (store_port OS opt_buffer)))"

definition option_port :: "app_os \<Rightarrow> byte list \<Rightarrow> app_state \<Rightarrow> app_outcome res" where
  "option_port OS optarg st =
     bindR (c_atoi optarg) (\<lambda>v.
     (let opt_buffer = word_of_int v :: u64;
          shown = fmt_d (sint (ucast opt_buffer :: u32)) in
      bindR (cl_validate OS ''application_Startup'' 98 (opt_buffer > 0 \<and> opt_buffer < 65535)
               (bytes_of ''[port: %d] in valid range'', bytes_of ''[port: '' @ shown @ bytes_of ''] in valid range'')
               (bytes_of ''[port: %d] not in valid range (0 < port < 65535)'',
                bytes_of ''[port: '' @ shown @ bytes_of ''] not in valid range (0 < port < 65535)'')
               (app_exit OS EXIT_FAILURE) st)
        (on_running (probe_port OS opt_buffer))))"

text \<open>One result of \<^verbatim>\<open>getopt_long\<close>: the option's character and its argument.\<close>

definition apply_option :: "app_os \<Rightarrow> char \<times> byte list \<Rightarrow> app_state \<Rightarrow> app_outcome res" where
  "apply_option OS opt st =
     (let (option, optarg) = opt in
      if option = CHR ''a'' then option_admin OS optarg st
      else if option = CHR ''m'' then
        bindR (cl_text OS Info ''application_Startup'' 74 ''monochrome'' st) (\<lambda>st.
          ret (Running (set_logs st (set_Formatting (bytes_of ''[$L$X] [$F: $G] - $C$Z'') (logs (server st))))))
      else if option = CHR ''d'' then
        bindR (c_atoi optarg) (\<lambda>v.
        bindR (with_logs (set_log_level (log_os OS) (main_thread OS) (ucast (word_of_int v :: u64))) st) (\<lambda>st.
          ret (Running st)))
      else if option = CHR ''n'' then option_server_name OS optarg st
      else if option = CHR ''p'' then option_port OS optarg st
      else if option = CHR ''l'' then
        bindR (cl_text OS Info ''application_Startup'' 108 ''adjusting of log formatting is not implemented yet'' st)
          (print_help_and_exit OS)
      else print_help_and_exit OS st)"

fun apply_options :: "app_os \<Rightarrow> (char \<times> byte list) list \<Rightarrow> app_state \<Rightarrow> app_outcome res" where
  "apply_options OS [] st = ret (Running st)"
| "apply_options OS (opt # opts) st =
     bindR (apply_option OS opt st) (on_running (apply_options OS opts))"

text \<open>The first argument that is no option ends the process with the help.\<close>

definition apply_rest :: "app_os \<Rightarrow> byte list list \<Rightarrow> app_state \<Rightarrow> app_outcome res" where
  "apply_rest OS rest st =
     (case rest of
        [] \<Rightarrow> ret (Running st)
      | arg # _ \<Rightarrow>
          bindR (cl_log OS Warn ''application_Startup'' 124 (bytes_of ''Non-option argument: %s'' @ [10])
                   (bytes_of ''Non-option argument: '' @ arg @ [10]) st) (print_help_and_exit OS))"

section \<open>Start, run and end\<close>

definition main_format :: "byte list" where
  "main_format = bytes_of ''[$B$L$X$E $T:$J] [$B$F:$E $G] - $B$C$E$Z''"

definition alarm_format :: "byte list" where
  "alarm_format = bytes_of ''[$B$L$X$E $T:$J] [$B$I: $F:$E $G] - $B$C$E$Z''"

definition startup_logs :: "app_os \<Rightarrow> app_state \<Rightarrow> app_state res" where
  "startup_logs OS st =
     bindR (with_logs (log_init (log_os OS) (mkdir_done OS) (log_directory OS) (remove_done OS) (name_memory OS)
              (bytes_of ''main'') main_format (main_thread OS) 1) st) (\<lambda>st.
     (let l = logs (server st);
          l = Set_Format_For_Specific_Log_Level Fatal alarm_format l;
          l = Set_Format_For_Specific_Log_Level Error alarm_format l;
          l = Set_Format_For_Specific_Log_Level Warn alarm_format l
      in ret (set_logs st l)))"

text \<open>
  The start: \<open>argc\<close>, what \<^verbatim>\<open>getopt_long\<close> gives and the arguments behind the options. The result
  of \<^const>\<open>broadcast_agent_init\<close> is not used.
\<close>

definition application_Startup ::
    "app_os \<Rightarrow> nat \<Rightarrow> (char \<times> byte list) list \<Rightarrow> byte list list \<Rightarrow> app_state \<Rightarrow> app_outcome res" where
  "application_Startup OS argc opts rest st =
     bindR (startup_logs OS st) (\<lambda>st.
     bindR (if argc > 1
            then bindR (cl_separator OS st) (\<lambda>st.
                 bindR (apply_options OS opts st) (on_running (apply_rest OS rest)))
            else ret (Running st))
       (on_running (\<lambda>st.
         (let st = st\<lparr>server := snd (broadcast_agent_init (queue_left_over OS) (agent_thread_ok OS) (server st))\<rparr> in
         bindR (c_string (server_name (conf (server st)))) (\<lambda>nm.
         bindR (cl_func OS ''END '' ''application_Startup'' 130
                  (bytes_of ''Basic SubSystems functional => [server: %s] online'')
                  (bytes_of ''Basic SubSystems functional => [server: '' @ nm @ bytes_of ''] online'') st) (\<lambda>st.
         bindR (cl_separator OS st) (\<lambda>st. ret (Running st))))))))"

text \<open>The run ends by the process's exit, by returning, or not at all.\<close>

definition application_Run ::
    "app_os \<Rightarrow> accept_result list \<Rightarrow> app_state \<Rightarrow> (handler_end \<times> app_state) res" where
  "application_Run OS rs st =
     bindR (cl_func OS ''START '' ''application_Run'' 137 [] [] st) (\<lambda>st.
     (let (e, h) = connection_handler (network_os OS) rs (port (conf (server st))) (handler st);
          st = st\<lparr>handler := h\<rparr> in
      if e = Handler_Returns
      then bindR (cl_func OS ''END '' ''application_Run'' 139 [] [] st) (\<lambda>st. ret (e, st))
      else ret (e, st)))"

definition application_Shutdown :: "app_os \<Rightarrow> bool \<Rightarrow> bool \<Rightarrow> app_state \<Rightarrow> (int \<times> app_state) res" where
  "application_Shutdown OS mq_close_ok mq_unlink_ok st =
     bindR (cl_text OS Info ''application_Shutdown'' 146 ''befor cleanup'' st) (\<lambda>st.
     (let st = st\<lparr>server := broadcast_agent_cleanup mq_close_ok mq_unlink_ok (server st)\<rparr> in
     bindR (cl_text OS Info ''application_Shutdown'' 148 ''after cleanup'' st) (\<lambda>st.
     bindR (with_logs (log_shutdown (log_os OS) (main_thread OS)) st) (\<lambda>st. ret (EXIT_SUCCESS, st)))))"

definition sigint_Handler :: "app_os \<Rightarrow> int \<Rightarrow> app_state \<Rightarrow> app_state res" where
  "sigint_Handler OS signum st =
     (let st = set_logs st (set_Formatting (bytes_of ''$C'') (logs (server st))) in
     bindR (cl_log OS Trace ''sigint_Handler'' 219 [8, 13] [8, 13] st) (\<lambda>st.
     (let st = set_logs st (use_Formatting_Backup (logs (server st))) in
     bindR (cl_separator OS st) (\<lambda>st.
     bindR (cl_log OS Warn ''sigint_Handler'' 223 (bytes_of ''Detected Shutdown signal: %d'')
              (bytes_of ''Detected Shutdown signal: '' @ fmt_d signum) st) (\<lambda>st.
     bindR (cl_text OS Info ''sigint_Handler'' 224 ''Shutting down SubSystems'' st) (\<lambda>st.
       ret (st\<lparr>handler := connection_handler_shutdown (handler st)\<rparr>)))))))"

text \<open>\<^verbatim>\<open>main\<close>: \<open>None\<close> as long as the process has not ended, its exit code otherwise.\<close>

definition main ::
    "app_os \<Rightarrow> nat \<Rightarrow> (char \<times> byte list) list \<Rightarrow> byte list list \<Rightarrow> accept_result list \<Rightarrow> bool \<Rightarrow> bool
     \<Rightarrow> app_state \<Rightarrow> (int option \<times> app_state) res" where
  "main OS argc opts rest rs mq_close_ok mq_unlink_ok st =
     bindR (application_Startup OS argc opts rest st) (\<lambda>r.
       (case r of
          Exited code st \<Rightarrow> ret (Some code, st)
        | Running st \<Rightarrow>
            bindR (application_Run OS rs st) (\<lambda>(e, st).
              (case e of
                 Handler_Exits code \<Rightarrow> ret (Some code, st)
               | Handler_Waits \<Rightarrow> ret (None, st)
               | Handler_Returns \<Rightarrow>
                   bindR (application_Shutdown OS mq_close_ok mq_unlink_ok st) (\<lambda>(result, st).
                     ret (Some (if result \<noteq> 0 then EXIT_SUCCESS else EXIT_FAILURE), st))))))"

end
