(* ===== verification/Application_Behaviour.thy ===== *)
theory Application_Behaviour
  imports Application Chat_Server
begin

text \<open>
  What the functions of the start keep: the server's state stays the one before the first
  connection, with well-formed names and logger.
\<close>

section \<open>What the start keeps\<close>

text \<open>A server before its first connection: nobody in the list, nothing sent, names and logger well
  formed.\<close>

definition app_ok :: "app_state \<Rightarrow> bool" where
  "app_ok st \<longleftrightarrow> config_ok (conf (server st)) \<and> log_inv (logs (server st))
     \<and> ustore (server st) = users_initial \<and> outbox (server st) = [] \<and> \<not> broadcast_Paused (server st)
     \<and> closed_socks (server st) = [] \<and> sock_server (handler st) = -1"

fun outcome_state :: "app_outcome \<Rightarrow> app_state" where
  "outcome_state (Running st) = st"
| "outcome_state (Exited code st) = st"

named_theorems app_keeps \<open>operations of the start that keep the well-formed state\<close>

lemma app_ok_set_logs [simp]:
  "app_ok st \<Longrightarrow> app_ok (set_logs st l) = log_inv l"
  by (simp add: app_ok_def set_logs_def)

lemma logs_set_logs [simp]: "logs (server (set_logs st l)) = l"
  by (simp add: set_logs_def)

lemma log_inv_settings [simp]:
  "log_inv (set_Formatting f s) = log_inv s" "log_inv (use_Formatting_Backup s) = log_inv s"
  "log_inv (Set_Format_For_Specific_Log_Level l f s) = log_inv s"
  "log_inv (s\<lparr>internal_level := v\<rparr>) = log_inv s"
  by (simp_all add: log_inv_def names_ok_def names_at_def entry_at_def set_Formatting_def
      use_Formatting_Backup_def Set_Format_For_Specific_Log_Level_def)

lemma with_logs_keeps:
  assumes "with_logs f st = ret st'" and "app_ok st"
    and "\<And>l l'. f l = ret l' \<Longrightarrow> log_inv l \<Longrightarrow> log_inv l'"
  shows "app_ok st'"
  using assms by (auto simp: with_logs_def bindR_ret_iff app_ok_def set_logs_def)

lemma cl_log_keeps [app_keeps]:
  "cl_log OS level func line m f st = ret st' \<Longrightarrow> app_ok st \<Longrightarrow> app_ok st'"
  "cl_text OS level func line t st = ret st' \<Longrightarrow> app_ok st \<Longrightarrow> app_ok st'"
  "cl_func OS pre func line m f st = ret st' \<Longrightarrow> app_ok st \<Longrightarrow> app_ok st'"
  unfolding cl_text_def cl_log_def cl_func_def
  by (erule (1) with_logs_keeps, meson log_output_level)+

lemma cl_separator_keeps [app_keeps]:
  "cl_separator OS st = ret st' \<Longrightarrow> app_ok st \<Longrightarrow> app_ok st'"
  unfolding cl_separator_def print_Separator_def
  by (erule (1) with_logs_keeps) (meson output_Message_level)

lemma log_output_inv:
  "log_output E level L m f s = ret s' \<Longrightarrow> log_inv s \<Longrightarrow> log_inv s'"
  using log_output_level by blast

lemma log_shutdown_keeps:
  assumes "log_shutdown E t s = ret s'" and "log_inv s"
  shows "log_inv s'"
proof -
  obtain s1 where s1: "log_output E Trace (logger_site ''log_shutdown'' 163 t) (bytes_of ''Shutdown'')
      (bytes_of ''Shutdown'') s = ret s1" "WriteMessagesToFile E s1 = ret s'"
    using assms(1) by (auto simp: log_shutdown_def bindR_ret_iff)
  from write_out_ok [OF log_output_inv [OF s1(1) assms(2)], of E] s1(2) show ?thesis by auto
qed

lemma set_log_level_keeps:
  assumes "set_log_level E t v s = ret s'" and "log_inv s"
  shows "log_inv s'"
proof (cases "unat v < LL_MAX_NUM \<and> unat v > level_code Fatal")
  case True
  then obtain s1 s2 L1 m1 f1 L2 m2 f2 where "log_output E Debug L1 m1 f1 s = ret s1"
    "log_output E Trace L2 m2 f2 s1 = ret s2" "s' = s2\<lparr>internal_level := level_of (unat v)\<rparr>"
    using assms(1) unfolding set_log_level_def if_P [OF True] bindR_ret_iff by blast
  then show ?thesis using assms(2) log_output_inv by auto
next
  case False
  then show ?thesis
    using assms log_output_inv unfolding set_log_level_def if_not_P [OF False] by blast
qed

lemma app_exit_keeps [app_keeps]:
  "app_exit OS code st = ret r \<Longrightarrow> app_ok st \<Longrightarrow> app_ok (outcome_state r)"
  by (auto simp: app_exit_def bindR_ret_iff intro: with_logs_keeps log_shutdown_keeps)

lemma cl_validate_keeps [app_keeps]:
  assumes "cl_validate OS func line b ms mf f st = ret r" and "app_ok st"
    and "\<And>st r. f st = ret r \<Longrightarrow> app_ok st \<Longrightarrow> app_ok (outcome_state r)"
  shows "app_ok (outcome_state r)"
  using assms by (auto simp: cl_validate_def bindR_ret_iff split: if_splits dest: cl_log_keeps)

lemma on_running_keeps:
  assumes "on_running f r = ret r'" and "app_ok (outcome_state r)"
    and "\<And>st r. f st = ret r \<Longrightarrow> app_ok st \<Longrightarrow> app_ok (outcome_state r)"
  shows "app_ok (outcome_state r')"
  using assms by (cases r) auto

lemma log_lines_keeps [app_keeps]:
  "log_lines OS func ls st = ret st' \<Longrightarrow> app_ok st \<Longrightarrow> app_ok st'"
  by (induction OS func ls st rule: log_lines.induct) (auto simp: bindR_ret_iff dest: cl_log_keeps)

lemma print_Help_keeps [app_keeps]:
  assumes "print_Help OS st = ret st'" and "app_ok st"
  shows "app_ok st'"
proof -
  let ?s = "set_logs st (set_Formatting (bytes_of ''  $C$Z'') (logs (server st)))"
  obtain ls x where x: "log_lines OS ''print_Help'' ls ?s = ret x"
    "st' = set_logs x (use_Formatting_Backup (logs (server x)))"
    using assms(1) by (auto simp: print_Help_def Let_def bindR_ret_iff)
  have "log_inv (logs (server st))" using assms(2) by (simp add: app_ok_def)
  then have "app_ok ?s" using assms(2) by simp
  from log_lines_keeps [OF x(1) this] have "app_ok x" .
  moreover from this have "log_inv (logs (server x))" by (simp add: app_ok_def)
  ultimately show ?thesis unfolding x(2) by simp
qed

lemma print_help_keeps [app_keeps]:
  assumes "print_help_and_exit OS st = ret r" and "app_ok st"
  shows "app_ok (outcome_state r)"
proof -
  obtain s1 s2 where s: "with_logs (set_log_level (log_os OS) (main_thread OS) 5) st = ret s1"
    "print_Help OS s1 = ret s2" "app_exit OS EXIT_SUCCESS s2 = ret r"
    using assms(1) by (auto simp: print_help_and_exit_def bindR_ret_iff)
  have "app_ok s1" using with_logs_keeps [OF s(1) assms(2)] set_log_level_keeps by blast
  from app_exit_keeps [OF s(3) print_Help_keeps [OF s(2) this]] show ?thesis .
qed

text \<open>Copying a string into one of the two name buffers.\<close>

lemma name_copy:
  assumes "c_strcpy b 0 (s @ [0]) = ret b'" and "length b = 32"
  shows "length b' = 32 \<and> 0 \<in> set b'"
  using assms by (auto simp: c_strcpy_def bindR_ret_iff mem_write_ret_iff patch_def)

lemma app_ok_names:
  assumes "app_ok st" and "length b = 32" and "0 \<in> set b"
  shows "app_ok (set_server_name st b)" and "app_ok (set_admin_name st b)"
  using assms by (simp_all add: app_ok_def set_server_name_def set_admin_name_def config_ok_def)

lemma app_ok_config: "app_ok st \<Longrightarrow> config_ok (conf (server st))"
  by (simp add: app_ok_def)

text \<open>An option of a name, in two steps: the validation, and the rest when it succeeded.\<close>

lemma name_option_cases:
  assumes "name_option OS what label line code buffer store s st = ret r"
  obtains (stored) s1 b nm s2 where "0 < length s" "length s < 32"
      "cl_log OS Debug ''application_Startup'' line (bytes_of (''New ['' @ what @ ''] is valid''))
         (bytes_of (''New ['' @ what @ ''] is valid'')) st = ret s1"
      "c_strcpy (buffer (conf (server s1))) 0 (s @ [0]) = ret b"
      "cl_log OS Info ''application_Startup'' (line + 2) (bytes_of (label @ '': %s''))
         (bytes_of (label @ '': '') @ nm) (store s1 b) = ret s2" "r = Running s2"
  | (refused) s1 mg tx where "s = [] \<or> 32 \<le> length s"
      "cl_log OS Error ''application_Startup'' line mg tx st = ret s1" "app_exit OS code s1 = ret r"
proof (cases "length s > 0 \<and> length s < 32")
  case True
  then show ?thesis using assms stored
    by (auto simp: name_option_def Let_def cl_validate_def plain_def bindR_ret_iff)
next
  case False
  then obtain s1 r1 where s1: "cl_log OS Error ''application_Startup'' line
      (bytes_of (''New ['' @ what @ ''] to big [%d/32]''))
      (bytes_of (''New ['' @ what @ ''] to big ['') @ fmt_d (int (length s)) @ bytes_of ''/32]'') st = ret s1"
    "app_exit OS code s1 = ret r1" and r: "on_running (\<lambda>st.
          bindR (c_strcpy (buffer (conf (server st))) 0 (s @ [0])) (\<lambda>b.
          (let st = store st b in
          bindR (c_string b) (\<lambda>nm.
          bindR (cl_log OS Info ''application_Startup'' (line + 2) (bytes_of (label @ '': %s''))
                   (bytes_of (label @ '': '') @ nm) st) (\<lambda>st. ret (Running st)))))) r1 = ret r"
    using assms unfolding name_option_def Let_def cl_validate_def if_not_P [OF False] bindR_ret_iff fst_conv snd_conv
    by blast
  have "r = r1" using s1(2) r by (auto simp: app_exit_def bindR_ret_iff)
  moreover have "s = [] \<or> 32 \<le> length s" using False by auto
  ultimately show ?thesis using s1 refused by blast
qed

lemma name_option_keeps:
  assumes "name_option OS what label line code buffer store s st = ret r" and "app_ok st"
    and "\<And>st. app_ok st \<Longrightarrow> length (buffer (conf (server st))) = 32"
    and "\<And>st b. app_ok st \<Longrightarrow> length b = 32 \<Longrightarrow> 0 \<in> set b \<Longrightarrow> app_ok (store st b)"
  shows "app_ok (outcome_state r)"
  using assms(1)
proof (cases rule: name_option_cases)
  case (stored s1 b nm s2)
  have s1: "app_ok s1" by (rule cl_log_keeps(1) [OF stored(3) assms(2)])
  have "app_ok (store s1 b)" using assms(4) [OF s1] name_copy [OF stored(4) assms(3) [OF s1]] by blast
  then show ?thesis using cl_log_keeps(1) [OF stored(5)] stored(6) by simp
next
  case (refused s1)
  show ?thesis by (rule app_exit_keeps [OF refused(3) cl_log_keeps(1) [OF refused(2) assms(2)]])
qed

lemma option_admin_keeps [app_keeps]:
  "option_admin OS s st = ret r \<Longrightarrow> app_ok st \<Longrightarrow> app_ok (outcome_state r)"
  unfolding option_admin_def
  by (erule (1) name_option_keeps) (auto dest: app_ok_config simp: config_ok_def app_ok_names)

lemma option_server_name_keeps [app_keeps]:
  "option_server_name OS s st = ret r \<Longrightarrow> app_ok st \<Longrightarrow> app_ok (outcome_state r)"
  unfolding option_server_name_def
  by (erule (1) name_option_keeps) (auto dest: app_ok_config simp: config_ok_def app_ok_names)

lemma is_port_available_keeps: "sock_server (snd (is_port_available OS p h)) = sock_server h"
  by (auto simp: is_port_available_def Let_def)

lemma app_ok_handler: "app_ok st \<Longrightarrow> sock_server h = sock_server (handler st) \<Longrightarrow> app_ok (st\<lparr>handler := h\<rparr>)"
  by (simp add: app_ok_def)

lemma app_ok_port: "app_ok st \<Longrightarrow> app_ok (set_port st p)"
  by (simp add: app_ok_def set_port_def config_ok_def)

lemma store_port_keeps:
  assumes "store_port OS v st = ret r" and "app_ok st"
  shows "app_ok (outcome_state r)"
proof -
  obtain t s1 where s1: "cl_log OS Info ''application_Startup'' 101 (bytes_of ''Port: %d'') t
      (set_port st (ucast v)) = ret s1" "r = Running s1"
    using assms(1) by (auto simp: store_port_def Let_def bindR_ret_iff)
  then show ?thesis using cl_log_keeps(1) [OF s1(1) app_ok_port [OF assms(2)]] by simp
qed

lemma probe_port_keeps:
  assumes "probe_port OS v st = ret r" and "app_ok st"
  shows "app_ok (outcome_state r)"
proof -
  obtain b h where bh: "is_port_available (network_os OS) (sint (ucast v :: u32)) (handler st) = (b, h)"
    by fastforce
  have ok: "app_ok (st\<lparr>handler := h\<rparr>)"
    using app_ok_handler [OF assms(2)] is_port_available_keeps [of "network_os OS" _ "handler st"] bh by (metis snd_conv)
  obtain r1 where r1: "cl_validate OS ''application_Startup'' 99 b (plain ''selected port is available'')
      (plain ''port not available'') (app_exit OS EXIT_FAILURE) (st\<lparr>handler := h\<rparr>) = ret r1"
    "on_running (store_port OS v) r1 = ret r"
    using assms(1) unfolding probe_port_def bh by (auto simp: bindR_ret_iff)
  have "app_ok (outcome_state r1)" using cl_validate_keeps [OF r1(1) ok] app_exit_keeps by blast
  from on_running_keeps [OF r1(2) this] store_port_keeps show ?thesis by blast
qed

lemma option_port_keeps [app_keeps]:
  assumes "option_port OS s st = ret r" and "app_ok st"
  shows "app_ok (outcome_state r)"
proof -
  obtain v r1 ms mf where r1: "cl_validate OS ''application_Startup'' 98 ((v :: u64) > 0 \<and> v < 65535) ms mf
      (app_exit OS EXIT_FAILURE) st = ret r1" "on_running (probe_port OS v) r1 = ret r"
    using assms(1) unfolding option_port_def Let_def bindR_ret_iff by blast
  have "app_ok (outcome_state r1)" using cl_validate_keeps [OF r1(1) assms(2)] app_exit_keeps by blast
  from on_running_keeps [OF r1(2) this] probe_port_keeps show ?thesis by blast
qed

lemma apply_option_keeps:
  assumes "apply_option OS opt st = ret r" and "app_ok st"
  shows "app_ok (outcome_state r)"
proof -
  obtain c s where opt: "opt = (c, s)" by fastforce
  note run = assms(1) [unfolded opt apply_option_def Let_def prod.case]
  consider "c = CHR ''a''" | "c = CHR ''m''" | "c = CHR ''d''" | "c = CHR ''n''" | "c = CHR ''p''" | "c = CHR ''l''"
    | "c \<notin> {CHR ''a'', CHR ''m'', CHR ''d'', CHR ''n'', CHR ''p'', CHR ''l''}" by blast
  then show ?thesis
  proof cases
    case 1
    then show ?thesis using run option_admin_keeps assms(2) by simp
  next
    case 2
    then obtain s1 where s1: "cl_text OS Info ''application_Startup'' 74 ''monochrome'' st = ret s1"
      "r = Running (set_logs s1 (set_Formatting (bytes_of ''[$L$X] [$F: $G] - $C$Z'') (logs (server s1))))"
      using run by (auto simp: bindR_ret_iff)
    have "app_ok s1" by (rule cl_log_keeps(2) [OF s1(1) assms(2)])
    moreover from this have "log_inv (logs (server s1))" by (simp add: app_ok_def)
    ultimately show ?thesis unfolding s1(2) by simp
  next
    case 3
    then obtain v s1 where s1: "with_logs (set_log_level (log_os OS) (main_thread OS) v) st = ret s1" "r = Running s1"
      using run by (auto simp: bindR_ret_iff)
    show ?thesis using with_logs_keeps [OF s1(1) assms(2)] set_log_level_keeps s1(2) by fastforce
  next
    case 4
    then show ?thesis using run option_server_name_keeps assms(2) by simp
  next
    case 5
    then show ?thesis using run option_port_keeps assms(2) by simp
  next
    case 6
    then obtain s1 where s1: "cl_text OS Info ''application_Startup'' 108
        ''adjusting of log formatting is not implemented yet'' st = ret s1" "print_help_and_exit OS s1 = ret r"
      using run by (auto simp: bindR_ret_iff)
    show ?thesis by (rule print_help_keeps [OF s1(2) cl_log_keeps(2) [OF s1(1) assms(2)]])
  next
    case 7
    then show ?thesis using run print_help_keeps assms(2) by simp
  qed
qed

lemma apply_options_keeps:
  "apply_options OS opts st = ret r \<Longrightarrow> app_ok st \<Longrightarrow> app_ok (outcome_state r)"
proof (induction opts arbitrary: st r)
  case (Cons opt opts)
  then obtain r1 where r1: "apply_option OS opt st = ret r1" "on_running (apply_options OS opts) r1 = ret r"
    by (auto simp: bindR_ret_iff)
  show ?case
    using on_running_keeps [OF r1(2) apply_option_keeps [OF r1(1) Cons.prems(2)]] Cons.IH by blast
qed simp

lemma apply_rest_keeps:
  "apply_rest OS rest st = ret r \<Longrightarrow> app_ok st \<Longrightarrow> app_ok (outcome_state r)"
  by (auto simp: apply_rest_def bindR_ret_iff split: list.splits dest: cl_log_keeps(1) print_help_keeps)

lemma log_output_names:
  assumes "log_inv s" and "log_output E l L m f s = ret s'"
  shows "thread_names s' = thread_names s \<and> log_inv s'"
proof -
  obtain as where as: "names_ok s as" using assms(1) by (auto simp: log_inv_def)
  have "thread_names s' = thread_names s" if "output_Message E l out t s = ret s'" for out t
    using that output_Message_buffered [OF assms(1), of l E out t]
      output_Message_written [OF assms(1) _ as, of l E out t]
    by (cases "stays_buffered s l") auto
  then show ?thesis
    using log_output_inv [OF assms(2,1)] assms(2) by (auto simp: log_output_eq Let_def split: if_splits)
qed

lemma remove_files_only: "\<exists>fs. snd (remove_files ok d es s) = s\<lparr>files := fs\<rparr>"
proof (induction es arbitrary: s)
  case Nil
  have "snd (remove_files ok d [] s) = s\<lparr>files := files s\<rparr>" by simp
  then show ?case by blast
next
  case (Cons e es)
  obtain n regular where e: "e = (n, regular)" by fastforce
  let ?fp = "take (REGISTERED_THREAD_NAME_LEN_MAX * 2 - 1) (d @ bytes_of ''/'' @ n)"
  consider "regular" "ok ?fp" | "regular" "\<not> ok ?fp" | "\<not> regular" by blast
  then show ?case
  proof cases
    case 1
    then have "remove_files ok d (e # es) s = remove_files ok d es (s\<lparr>files := (files s)(?fp := None)\<rparr>)"
      by (simp add: e Let_def)
    moreover obtain fs where "snd (remove_files ok d es (s\<lparr>files := (files s)(?fp := None)\<rparr>))
        = s\<lparr>files := (files s)(?fp := None)\<rparr>\<lparr>files := fs\<rparr>" using Cons.IH by blast
    ultimately show ?thesis by auto
  next
    case 2
    then have "snd (remove_files ok d (e # es) s) = s\<lparr>files := files s\<rparr>" by (simp add: e Let_def)
    then show ?thesis by blast
  next
    case 3
    then have "remove_files ok d (e # es) s = remove_files ok d es s" by (simp add: e)
    then show ?thesis using Cons.IH by simp
  qed
qed

lemma remove_all_files_only:
  "\<exists>fs. snd (remove_all_Files_In_Directory dir ok d s) = s\<lparr>files := fs\<rparr>"
proof (cases dir)
  case None
  then have "snd (remove_all_Files_In_Directory dir ok d s) = s\<lparr>files := files s\<rparr>"
    by (simp add: remove_all_Files_In_Directory_def)
  then show ?thesis by blast
qed (use remove_files_only in \<open>simp add: remove_all_Files_In_Directory_def\<close>)

text \<open>What the initialisation does behind the settings, the folder and its old files.\<close>

lemma log_init_eq:
  obtains s2 where "log_init E mk dir ok p nm fmt t k s =
      bindR (log_output E Trace (logger_site ''log_init'' 113 t) (bytes_of ''Initialize'')
               (bytes_of ''Initialize'') s2) (\<lambda>s.
      bindR (register_thread_log_under_Name E p t (nm @ [0]) s) (\<lambda>(_, s). ret s))"
    and "thread_names s2 = thread_names s" and "log_inv s2 = log_inv s" and "GeneralLogFormat s2 = fmt"
    and "SpecificLogFormatArray s2 = SpecificLogFormatArray s"
proof -
  define s1 where "s1 = s\<lparr>MainLogFileName := nm, GeneralLogFormat := fmt,
    Use_separate_Files_for_every_Thread := (k \<noteq> 0)\<rparr>"
  define s2 where "s2 = (if mk then s1\<lparr>stdout_text := stdout_text s1
    @ bytes_of ''Folder created successfully.'' @ [10]\<rparr> else s1)"
  obtain fs where rm: "snd (remove_all_Files_In_Directory dir ok directoryName s2) = s2\<lparr>files := fs\<rparr>"
    using remove_all_files_only by blast
  show ?thesis
  proof (rule that [of "s2\<lparr>files := fs\<rparr>"])
    show "log_init E mk dir ok p nm fmt t k s =
      bindR (log_output E Trace (logger_site ''log_init'' 113 t) (bytes_of ''Initialize'')
               (bytes_of ''Initialize'') (s2\<lparr>files := fs\<rparr>)) (\<lambda>s.
      bindR (register_thread_log_under_Name E p t (nm @ [0]) s) (\<lambda>(_, s). ret s))"
      unfolding log_init_def Let_def s1_def [symmetric] s2_def [symmetric] rm by (rule refl)
  qed (simp_all add: s2_def s1_def log_inv_def names_ok_def names_at_def entry_at_def)
qed

lemma log_init_keeps:
  assumes run: "log_init E mk dir ok (Some e) nm fmt t k s = ret s'" and inv: "log_inv s"
    and mem: "heap (thread_names s) e = None" and nm: "c_string (nm @ [0]) = ret n"
  shows "log_inv s'"
proof (rule log_init_eq [of E mk dir ok "Some e" nm fmt t k s])
  fix s2
  assume eq: "log_init E mk dir ok (Some e) nm fmt t k s =
      bindR (log_output E Trace (logger_site ''log_init'' 113 t) (bytes_of ''Initialize'')
               (bytes_of ''Initialize'') s2) (\<lambda>s.
      bindR (register_thread_log_under_Name E (Some e) t (nm @ [0]) s) (\<lambda>(_, s). ret s))"
    and s2: "thread_names s2 = thread_names s" "log_inv s2 = log_inv s"
  obtain x j where x: "log_output E Trace (logger_site ''log_init'' 113 t) (bytes_of ''Initialize'')
      (bytes_of ''Initialize'') s2 = ret x" "register_thread_log_under_Name E (Some e) t (nm @ [0]) x = ret (j, s')"
    using run [unfolded eq bindR_ret_iff] by auto
  have "log_inv x" "heap (thread_names x) e = None"
    using log_output_names [OF _ x(1)] inv s2 mem by simp_all
  then show ?thesis using register_ok [OF _ nm, of x e E t] x(2) by fastforce
qed

lemma startup_logs_keeps:
  assumes "startup_logs OS st = ret st'" and "app_ok st" and "name_memory OS = Some e"
    and "heap (thread_names (logs (server st))) e = None"
  shows "app_ok st'"
proof -
  have inv: "log_inv (logs (server st))" using assms(2) by (simp add: app_ok_def)
  obtain l where l: "log_init (log_os OS) (mkdir_done OS) (log_directory OS) (remove_done OS) (Some e)
      (bytes_of ''main'') main_format (main_thread OS) 1 (logs (server st)) = ret l"
    and st': "st' = set_logs (set_logs st l) (Set_Format_For_Specific_Log_Level Warn alarm_format
       (Set_Format_For_Specific_Log_Level Error alarm_format
         (Set_Format_For_Specific_Log_Level Fatal alarm_format l)))"
    using assms(1) unfolding startup_logs_def with_logs_def Let_def bindR_ret_iff assms(3) by auto
  have "c_string (bytes_of ''main'' @ [0]) = ret (bytes_of ''main'')" by code_simp
  from log_init_keeps [OF l inv assms(4) this] show ?thesis unfolding st' using assms(2) by simp
qed

end
