(* ===== verification/Application_Start.thy ===== *)
theory Application_Start
  imports Application_Behaviour
begin

text \<open>
  The start of the server, from the command line to a state in which clients can connect: without
  options it succeeds, and however it succeeded, clients are served.
\<close>

section \<open>The start\<close>

definition app_initial :: app_state where
  "app_initial = \<lparr>server = broadcast_state.extend broadcast_initial
     (server_state.fields None 0 [] 0 CD_communication_error [] config_initial log_initial),
     handler = handler_initial\<rparr>"

lemma app_initial_ok: "app_ok app_initial"
proof -
  have "config_ok config_initial" unfolding config_ok_def by code_simp
  then show ?thesis
    using log_inv_initial by (simp add: app_ok_def app_initial_def broadcast_state.defs server_state.defs
        broadcast_initial_def handler_initial_def)
qed

text \<open>The server after a start whose agent came up.\<close>

lemma startup_server:
  assumes run: "application_Startup OS argc opts rest st = ret (Running st')" and ok: "app_ok st"
    and mem: "name_memory OS = Some e" "heap (thread_names (logs (server st))) e = None"
    and agent: "queue_left_over OS = Some qs" "agent_thread_ok OS"
  shows "server_ok (server st') [] \<and> agent_pc (server st') = Some At_Receive \<and> mq_maxmsg (server st') = 10
    \<and> broadcast_queue (server st') = qs \<and> \<not> Is_broadcast_paused (server st') \<and> outbox (server st') = []
    \<and> ustore (server st') = users_initial \<and> closed_socks (server st') = []"
proof -
  define init :: "app_state \<Rightarrow> app_state" where "init s = s\<lparr>server := snd (broadcast_agent_init (queue_left_over OS) (agent_thread_ok OS) (server s))\<rparr>" for s
  obtain s1 r s2 where s1: "startup_logs OS st = ret s1"
    and r: "(if argc > 1 then bindR (cl_separator OS s1) (\<lambda>st.
        bindR (apply_options OS opts st) (on_running (apply_rest OS rest))) else ret (Running s1)) = ret r"
    and rest: "r = Running s2" "bindR (c_string (server_name (conf (server (init s2))))) (\<lambda>nm.
         bindR (cl_func OS ''END '' ''application_Startup'' 130
                  (bytes_of ''Basic SubSystems functional => [server: %s] online'')
                  (bytes_of ''Basic SubSystems functional => [server: '' @ nm @ bytes_of ''] online'') (init s2)) (\<lambda>st.
         bindR (cl_separator OS st) (\<lambda>st. ret (Running st)))) = ret (Running st')"
    using run unfolding application_Startup_def Let_def init_def [symmetric] bindR_ret_iff [of "startup_logs _ _"]
      bindR_ret_iff [of "if _ then _ else _"]
    by (auto elim!: on_running.elims)
  have ok1: "app_ok s1" by (rule startup_logs_keeps [OF s1 ok mem])
  have "app_ok (outcome_state r)"
  proof (cases "argc > 1")
    case True
    then obtain x y where x: "cl_separator OS s1 = ret x" "apply_options OS opts x = ret y"
      "on_running (apply_rest OS rest) y = ret r"
      using r by (auto simp: bindR_ret_iff)
    show ?thesis
      using on_running_keeps [OF x(3) apply_options_keeps [OF x(2) cl_separator_keeps [OF x(1) ok1]]]
        apply_rest_keeps by blast
  qed (use r ok1 in auto)
  then have ok2: "app_ok s2" using rest(1) by simp
  have i: "app_ok (init s2)" "agent_pc (server (init s2)) = Some At_Receive" "mq_maxmsg (server (init s2)) = 10"
    "broadcast_queue (server (init s2)) = qs" "broadcast_sem (server (init s2)) = 1"
    using ok2 agent by (simp_all add: init_def app_ok_def broadcast_agent_init_def)
  obtain m f s3 where s3: "cl_func OS ''END '' ''application_Startup'' 130 m f (init s2) = ret s3"
    "cl_separator OS s3 = ret st'"
    using rest(2) by (auto simp: bindR_ret_iff)
  have same: "agent_pc (server x') = agent_pc (server x) \<and> mq_maxmsg (server x') = mq_maxmsg (server x)
      \<and> broadcast_queue (server x') = broadcast_queue (server x) \<and> broadcast_sem (server x') = broadcast_sem (server x)"
    if "with_logs g x = ret x'" for g x x'
    using that by (auto simp: with_logs_def bindR_ret_iff set_logs_def)
  have "app_ok st'" by (rule cl_separator_keeps [OF s3(2) cl_log_keeps(3) [OF s3(1) i(1)]])
  moreover have "users_inv_at users_initial []"
    by (simp add: users_inv_at_def users_at_def users_initial_def)
  ultimately show ?thesis
    using i(2-5) same [OF s3(1) [unfolded cl_func_def]] same [OF s3(2) [unfolded cl_separator_def]]
    by (simp add: server_ok_def app_ok_def Is_broadcast_paused_def)
qed


definition example_os :: app_os where
  "example_os = \<lparr>network_os = \<lparr>os_host = Little, socket_result = 3, setsockopt_ok = True, bind_ok = True,
       listen_ok = True\<rparr>,
     log_os = example_log_env, mkdir_done = True, log_directory = Some [(bytes_of ''old.log'', True)],
     remove_done = (\<lambda>_. True), name_memory = Some 0, main_thread = 1, queue_left_over = Some [],
     agent_thread_ok = True\<rparr>"

lemma main_expansion:
  "expansion tag main_format = [91] @ tag 66 @ tag 76 @ tag 88 @ tag 69 @ [32] @ tag 84 @ [58] @ tag 74
     @ [93, 32, 91] @ tag 66 @ tag 70 @ [58] @ tag 69 @ [32] @ tag 71 @ [93, 32, 45, 32] @ tag 66 @ tag 67
     @ tag 69 @ tag 90"
  by (simp add: main_format_def bytes_of_def)

text \<open>The numbers of the clock and of a line are C integers.\<close>

definition clock_ok :: "log_env \<Rightarrow> bool" where
  "clock_ok E \<longleftrightarrow> length (fmt_0d 2 (tm_hour E)) \<le> 20 \<and> length (fmt_0d 2 (tm_min E)) \<le> 20
     \<and> length (fmt_0d 2 (tm_sec E)) \<le> 20 \<and> length (fmt_0d 3 (tv_nsec E div 1000000)) \<le> 20"

lemma main_expansion_short:
  assumes "clock_ok E" and "length (prefix L) + length m + length (funcName L) + length (fmt_d (Line L)) \<le> 1800"
  shows "length (expansion (tag_text E Trace L m) main_format) < 2048"
  using assms
  by (simp add: main_expansion tag_text_def clock_ok_def Console_Colour_Strings_def Console_Colour_Reset_def
      level_str_def)
definition same_formats :: "log_state \<Rightarrow> log_state \<Rightarrow> bool" where
  "same_formats s s' \<longleftrightarrow> GeneralLogFormat s' = GeneralLogFormat s
     \<and> SpecificLogFormatArray s' = SpecificLogFormatArray s"

lemma output_returns:
  assumes "log_inv s"
  shows "\<exists>s'. output_Message E l out t s = ret s' \<and> log_inv s' \<and> same_formats s s'"
proof -
  obtain as where as: "names_ok s as" using assms by (auto simp: log_inv_def)
  obtain s' where "output_Message E l out t s = ret s'" "same_formats s s'"
    using output_Message_buffered [OF assms, of l E out t] output_Message_written [OF assms _ as, of l E out t]
    by (cases "stays_buffered s l") (auto simp: same_formats_def)
  with output_Message_inv [OF assms, of E l out t] show ?thesis by auto
qed

lemma log_output_returns:
  assumes "log_inv s" and "length (expansion (tag_text E l L (take 2047 f)) (active_format s l)) < 2048"
  shows "\<exists>s'. log_output E l L m f s = ret s' \<and> log_inv s' \<and> same_formats s s' \<and> thread_names s' = thread_names s"
proof -
  obtain s' where s': "log_output E l L m f s = ret s'" "same_formats s s'"
  proof (cases "m = [] \<and> prefix L = []")
    case True
    then show ?thesis using that by (simp add: log_output_eq same_formats_def)
  next
    case False
    obtain s' where "output_Message E l (expansion (tag_text E l L (take 2047 f)) (active_format s l))
        (site_thread L) s = ret s'" "same_formats s s'"
      using output_returns [OF assms(1)] by blast
    then show ?thesis using that assms(2) False by (auto simp: log_output_eq Let_def)
  qed
  with log_output_names [OF assms(1) s'(1)] show ?thesis by blast
qed

lemma add_name_formats:
  "add_Thread_Name_Mapping p t nm s = ret (k, s') \<Longrightarrow> same_formats s s'"
  unfolding add_Thread_Name_Mapping_def
  by (auto simp: bindR_ret_iff same_formats_def split: option.splits)

lemma register_formats:
  assumes "register_thread_log_under_Name E p t nm s = ret (k, s')"
  shows "same_formats s s'"
proof -
  obtain n q s1 where s1: "add_Thread_Name_Mapping p t (named_log n @ [0]) s = ret (q, s1)"
    and s': "(case files s1 (thread_log_name t) of
           None \<Rightarrow> ret (-1, s1)
         | Some c \<Rightarrow>
             if \<not> rename_ok E then ret (-1, s1)
             else ret (0, s1\<lparr>files := (files s1)(thread_log_name t := None, named_log n \<mapsto> c)\<rparr>)) = ret (k, s')"
    using assms unfolding register_thread_log_under_Name_def Let_def bindR_ret_iff by auto
  show ?thesis
    using add_name_formats [OF s1] s' by (auto simp: same_formats_def split: option.splits if_splits)
qed

lemma startup_logs_returns:
  assumes ok: "app_ok st" and clock: "clock_ok (log_os OS)" and mem: "name_memory OS = Some e"
    "heap (thread_names (logs (server st))) e = None"
    and formats: "SpecificLogFormatArray (logs (server st)) = SpecificLogFormatArray log_initial"
  shows "\<exists>l. startup_logs OS st = ret (set_logs st l) \<and> log_inv l \<and> active_format l Trace = main_format"
proof -
  let ?E = "log_os OS" and ?t = "main_thread OS" and ?s = "logs (server st)"
  let ?nm = "bytes_of ''main''"
  have inv: "log_inv ?s" using ok by (simp add: app_ok_def)
  show ?thesis
  proof (rule log_init_eq [of ?E "mkdir_done OS" "log_directory OS" "remove_done OS" "name_memory OS"
        ?nm main_format ?t 1 ?s])
    fix s2
    assume eq: "log_init ?E (mkdir_done OS) (log_directory OS) (remove_done OS) (name_memory OS) ?nm main_format ?t 1 ?s =
      bindR (log_output ?E Trace (logger_site ''log_init'' 113 ?t) (bytes_of ''Initialize'')
               (bytes_of ''Initialize'') s2) (\<lambda>s.
      bindR (register_thread_log_under_Name ?E (name_memory OS) ?t (?nm @ [0]) s) (\<lambda>(_, s). ret s))"
      and s2: "thread_names s2 = thread_names ?s" "log_inv s2 = log_inv ?s" "GeneralLogFormat s2 = main_format"
        "SpecificLogFormatArray s2 = SpecificLogFormatArray ?s"
    have a: "active_format s2 Trace = main_format"
      using s2(3,4) formats by (simp add: active_format_def log_initial_def)
    have len: "length (expansion (tag_text ?E Trace (logger_site ''log_init'' 113 ?t)
        (take 2047 (bytes_of ''Initialize''))) main_format) < 2048"
    proof (rule main_expansion_short [OF clock])
      have "length (fmt_d 113) = 3" by code_simp
      then show "length (prefix (logger_site ''log_init'' 113 ?t)) + length (take 2047 (bytes_of ''Initialize''))
          + length (funcName (logger_site ''log_init'' 113 ?t)) + length (fmt_d (Line (logger_site ''log_init'' 113 ?t))) \<le> 1800"
        by (simp add: logger_site_def site_def)
    qed
    obtain x where x: "log_output ?E Trace (logger_site ''log_init'' 113 ?t) (bytes_of ''Initialize'')
        (bytes_of ''Initialize'') s2 = ret x" "log_inv x" "same_formats s2 x" "thread_names x = thread_names s2"
      using log_output_returns [of s2 ?E Trace "logger_site ''log_init'' 113 ?t" "bytes_of ''Initialize''"
          "bytes_of ''Initialize''"] len s2(2) inv a by auto
    have nm: "c_string (?nm @ [0]) = ret ?nm" by code_simp
    obtain k y where y: "register_thread_log_under_Name ?E (Some e) ?t (?nm @ [0]) x = ret (k, y)" "log_inv y"
      using register_ok [OF x(2) nm, of e ?E ?t] x(4) s2(1) mem(2) by auto
    have f: "same_formats s2 y" using x(3) register_formats [OF y(1)] by (simp add: same_formats_def)
    let ?l = "Set_Format_For_Specific_Log_Level Warn alarm_format
       (Set_Format_For_Specific_Log_Level Error alarm_format
         (Set_Format_For_Specific_Log_Level Fatal alarm_format y))"
    have "startup_logs OS st = ret (set_logs (set_logs st y) ?l)"
      using eq x(1) y(1) mem(1) by (simp add: startup_logs_def with_logs_def Let_def)
    moreover have "set_logs (set_logs st y) ?l = set_logs st ?l" by (simp add: set_logs_def)
    moreover have "active_format ?l Trace = main_format"
      using f a by (auto simp: active_format_def Set_Format_For_Specific_Log_Level_def same_formats_def split: if_splits)
    ultimately show ?thesis using y(2) by auto
  qed
qed

lemma default_start:
  assumes "clock_ok (log_os OS)" and "name_memory OS = Some e"
  shows "\<exists>st. application_Startup OS 1 opts rest app_initial = ret (Running st) \<and> app_ok st
    \<and> conf (server st) = config_initial \<and> handler st = handler_initial
    \<and> active_format (logs (server st)) Trace = main_format
    \<and> (queue_left_over OS = None \<or> \<not> agent_thread_ok OS \<longrightarrow> agent_pc (server st) = None)"
proof -
  let ?E = "log_os OS" and ?t = "main_thread OS"
  let ?init = "\<lambda>st. st\<lparr>server := snd (broadcast_agent_init (queue_left_over OS) (agent_thread_ok OS) (server st))\<rparr>"
  have "heap (thread_names (logs (server app_initial))) e = None"
    "SpecificLogFormatArray (logs (server app_initial)) = SpecificLogFormatArray log_initial"
    by (simp_all add: app_initial_def server_state.defs broadcast_state.defs log_initial_def dll_empty_def)
  then obtain l where l: "startup_logs OS app_initial = ret (set_logs app_initial l)" "log_inv l"
    "active_format l Trace = main_format"
    using startup_logs_returns [OF app_initial_ok assms] by blast
  let ?s = "?init (set_logs app_initial l)"
  have c: "conf (server ?s) = config_initial" and ls: "logs (server ?s) = l"
    and pc: "queue_left_over OS = None \<or> \<not> agent_thread_ok OS \<Longrightarrow> agent_pc (server ?s) = None"
    by (auto simp: broadcast_agent_init_def Let_def set_logs_def app_initial_def server_state.defs
        broadcast_state.defs broadcast_initial_def)
  have ok: "app_ok ?s"
    using app_initial_ok l(2) by (auto simp: broadcast_agent_init_def Let_def set_logs_def app_ok_def)
  have nm: "c_string (server_name config_initial) = ret (bytes_of ''Server_04'')" by code_simp
  let ?m = "bytes_of ''Basic SubSystems functional => [server: %s] online''"
  let ?f = "bytes_of ''Basic SubSystems functional => [server: '' @ bytes_of ''Server_04'' @ bytes_of ''] online''"
  let ?L = "(site ''src/application.c'' ''application_Startup'' 130 ?t)\<lparr>prefix := bytes_of ''END ''\<rparr>"
  have "length (fmt_d 130) = 3" by code_simp
  then have "length (expansion (tag_text ?E Trace ?L (take 2047 ?f)) main_format) < 2048"
    by (intro main_expansion_short [OF assms(1)]) (simp add: site_def)
  then obtain l1 where l1: "log_output ?E Trace ?L ?m ?f l = ret l1" "log_inv l1" "same_formats l l1"
    using log_output_returns [OF l(2), of ?E Trace ?L ?f ?m] l(3) by auto
  obtain l2 where l2: "output_Message ?E Trace separator ?t l1 = ret l2" "log_inv l2" "same_formats l1 l2"
    using output_returns [OF l1(2)] by blast
  have fmt: "active_format (logs (server (set_logs (set_logs ?s l1) l2))) Trace = main_format"
    using l(3) l1(3) l2(3) by (auto simp: same_formats_def active_format_def split: if_splits)
  have "application_Startup OS 1 opts rest app_initial = ret (Running (set_logs (set_logs ?s l1) l2))"
    using l(1) c ls nm l1(1) l2(1)
    by (simp add: application_Startup_def Let_def cl_func_def with_logs_def cl_separator_def print_Separator_def)
  moreover note fmt
  moreover have "app_ok (set_logs (set_logs ?s l1) l2)" using ok l1(2) l2(2) by simp
  moreover have "conf (server (set_logs (set_logs ?s l1) l2)) = config_initial"
    "agent_pc (server (set_logs (set_logs ?s l1) l2)) = agent_pc (server ?s)"
    "handler (set_logs (set_logs ?s l1) l2) = handler_initial"
    using c by (simp_all add: set_logs_def app_initial_def)
  ultimately show ?thesis using pc by auto
qed

text \<open>Without options the server comes up: with a clock that shows C integers and memory for the name
  of the main thread's log, the start returns and the server runs with its built-in names and port,
  whatever else the system answers, even when the agent's queue or its thread could not be created
  and no message will ever be delivered.\<close>

theorem default_start_returns:
  assumes "clock_ok (log_os OS)" and "name_memory OS = Some e"
  shows "\<exists>st. application_Startup OS 1 opts rest app_initial = ret (Running st) \<and> app_ok st
    \<and> conf (server st) = config_initial
    \<and> (queue_left_over OS = None \<or> \<not> agent_thread_ok OS \<longrightarrow> agent_pc (server st) = None)"
  using default_start [OF assms] by blast

lemma example_clock: "clock_ok example_log_env"
  unfolding clock_ok_def by code_simp

lemma example_os_fields:
  "log_os example_os = example_log_env" "name_memory example_os = Some 0" "queue_left_over example_os = Some []"
  "agent_thread_ok example_os"
  by (simp_all add: example_os_def)

theorem default_start_returns_witness:
  "\<exists>st. application_Startup (example_os\<lparr>agent_thread_ok := False\<rparr>) 1 [] [] app_initial = ret (Running st)
    \<and> agent_pc (server st) = None"
  using default_start_returns [of "example_os\<lparr>agent_thread_ok := False\<rparr>" 0 "[]" "[]"] example_clock
  by (auto simp: example_os_fields)


end
