(* ===== verification/Application_End.thy ===== *)
theory Application_End
  imports Application_Start
begin

text \<open>
  What the command line sets, what the process ends with, how the started server accepts
  connections, and what an interrupt does.
\<close>

section \<open>Names on the command line\<close>

lemma with_logs_server:
  "with_logs f st = ret st' \<Longrightarrow> conf (server st') = conf (server st)"
  by (auto simp: with_logs_def bindR_ret_iff set_logs_def)

lemma cl_log_conf:
  "cl_log OS level func line m f st = ret st' \<Longrightarrow> conf (server st') = conf (server st)"
  by (simp add: cl_log_def with_logs_server)

lemma app_exit_conf:
  "app_exit OS code st = ret r \<Longrightarrow> \<exists>st'. r = Exited code st' \<and> conf (server st') = conf (server st)"
  by (auto simp: app_exit_def bindR_ret_iff dest: with_logs_server)

lemma copied_name:
  assumes "c_strcpy b 0 (s @ [0]) = ret b'" and "0 \<notin> set s"
  shows "c_string b' = ret s"
  using assms by (auto simp: c_strcpy_def bindR_ret_iff mem_write_ret_iff patch_def buf_simps)

text \<open>What an option of a name does to the names: it sets its own, or ends the process.\<close>

lemma name_option_effect:
  assumes run: "name_option OS what label line code buffer store s st = ret r" and nul: "0 \<notin> set s"
  shows "if 0 < length s \<and> length s < 32
    then \<exists>b st1 st'. r = Running st' \<and> conf (server st1) = conf (server st)
      \<and> conf (server st') = conf (server (store st1 b)) \<and> c_string b = ret s
    else \<exists>st'. r = Exited code st' \<and> conf (server st') = conf (server st)"
  using run
proof (cases rule: name_option_cases)
  case (stored s1 b nm s2)
  then show ?thesis using cl_log_conf [OF stored(3)] cl_log_conf [OF stored(5)] copied_name [OF stored(4) nul] by auto
next
  case (refused s1)
  then show ?thesis using cl_log_conf [OF refused(2)] app_exit_conf [OF refused(3)] by auto
qed

lemma option_effects:
  assumes "0 \<notin> set s"
  shows "option_admin OS s st = ret r \<Longrightarrow>
      (if 0 < length s \<and> length s < 32
       then \<exists>b st'. r = Running st' \<and> c_string b = ret s \<and> conf (server st') = (conf (server st))\<lparr>admin_name := b\<rparr>
       else \<exists>st'. r = Exited EXIT_SUCCESS st' \<and> conf (server st') = conf (server st))"
    and "option_server_name OS s st = ret r \<Longrightarrow>
      (if 0 < length s \<and> length s < 32
       then \<exists>b st'. r = Running st' \<and> c_string b = ret s \<and> conf (server st') = (conf (server st))\<lparr>server_name := b\<rparr>
       else \<exists>st'. r = Exited EXIT_FAILURE st' \<and> conf (server st') = conf (server st))"
proof -
  assume "option_admin OS s st = ret r"
  note e = name_option_effect [OF this [unfolded option_admin_def] assms]
  show "if 0 < length s \<and> length s < 32
       then \<exists>b st'. r = Running st' \<and> c_string b = ret s \<and> conf (server st') = (conf (server st))\<lparr>admin_name := b\<rparr>
       else \<exists>st'. r = Exited EXIT_SUCCESS st' \<and> conf (server st') = conf (server st)"
  proof (cases "0 < length s \<and> length s < 32")
    case True
    show ?thesis using e unfolding if_P [OF True] by (simp add: set_admin_name_def) metis
  qed (use e in argo)
next
  assume "option_server_name OS s st = ret r"
  note e = name_option_effect [OF this [unfolded option_server_name_def] assms]
  show "if 0 < length s \<and> length s < 32
       then \<exists>b st'. r = Running st' \<and> c_string b = ret s \<and> conf (server st') = (conf (server st))\<lparr>server_name := b\<rparr>
       else \<exists>st'. r = Exited EXIT_FAILURE st' \<and> conf (server st') = conf (server st)"
  proof (cases "0 < length s \<and> length s < 32")
    case True
    show ?thesis using e unfolding if_P [OF True] by (simp add: set_server_name_def) metis
  qed (use e in argo)
qed

text \<open>The names on the command line: a name of 1 to 31 bytes is stored whole and terminated, and
  nothing else of the configuration changes; any other one ends the process with the configuration
  untouched, with code 1 for the server's name but with code 0, that of a success, for the
  administrator's.\<close>

theorem names_on_the_command_line:
  assumes "0 \<notin> set s"
  shows "(option_admin OS s st = ret r \<longrightarrow>
      (if 0 < length s \<and> length s < 32
       then \<exists>b st'. r = Running st' \<and> c_string b = ret s \<and> conf (server st') = (conf (server st))\<lparr>admin_name := b\<rparr>
       else \<exists>st'. r = Exited EXIT_SUCCESS st' \<and> conf (server st') = conf (server st)))
    \<and> (option_server_name OS s st = ret r \<longrightarrow>
      (if 0 < length s \<and> length s < 32
       then \<exists>b st'. r = Running st' \<and> c_string b = ret s \<and> conf (server st') = (conf (server st))\<lparr>server_name := b\<rparr>
       else \<exists>st'. r = Exited EXIT_FAILURE st' \<and> conf (server st') = conf (server st)))"
  using option_effects [OF assms, of OS st r] by blast

text \<open>A log call of this file returns as long as what it prints fits.\<close>

lemma cl_log_returns:
  assumes "log_inv (logs (server st))"
    and "length (expansion (tag_text (log_os OS) l (site ''src/application.c'' f n (main_thread OS)) (take 2047 x))
           (active_format (logs (server st)) l)) < 2048"
  shows "\<exists>s'. cl_log OS l f n m x st = ret (set_logs st s') \<and> log_inv s' \<and> same_formats (logs (server st)) s'"
  using log_output_returns [OF assms, of m] by (auto simp: cl_log_def with_logs_def)

lemma app_exit_returns:
  assumes "log_inv (logs (server st))"
    and "length (expansion (tag_text (log_os OS) Trace (logger_site ''log_shutdown'' 163 (main_thread OS))
           (take 2047 (bytes_of ''Shutdown''))) (active_format (logs (server st)) Trace)) < 2048"
  shows "\<exists>st'. app_exit OS code st = ret (Exited code st')"
proof -
  obtain s where s: "log_output (log_os OS) Trace (logger_site ''log_shutdown'' 163 (main_thread OS))
      (bytes_of ''Shutdown'') (bytes_of ''Shutdown'') (logs (server st)) = ret s" "log_inv s"
    using log_output_returns [OF assms] by blast
  obtain s' where "WriteMessagesToFile (log_os OS) s = ret s'" using write_out_ok [OF s(2)] by blast
  then show ?thesis using s(1) by (simp add: app_exit_def with_logs_def log_shutdown_def)
qed

lemma too_long_admin_returns:
  "\<exists>st. option_admin example_os (replicate 32 65) app_initial = ret (Exited 0 st)"
proof -
  let ?x = "bytes_of ''New [admin name] to big ['' @ fmt_d 32 @ bytes_of ''/32]''"
  let ?m = "bytes_of ''New [admin name] to big [%d/32]''"
  have l: "logs (server app_initial) = log_initial"
    by (simp add: app_initial_def server_state.defs broadcast_state.defs)
  have "length (expansion (tag_text (log_os example_os) Error
      (site ''src/application.c'' ''application_Startup'' 66 (main_thread example_os)) (take 2047 ?x))
      (active_format log_initial Error)) < 2048" by code_simp
  then obtain s where s: "cl_log example_os Error ''application_Startup'' 66 ?m ?x app_initial = ret (set_logs app_initial s)"
    "log_inv s" "same_formats log_initial s"
    using cl_log_returns [of app_initial example_os Error "''application_Startup''" 66 ?x ?m] log_inv_initial l by auto
  have "length (expansion (tag_text (log_os example_os) Trace (logger_site ''log_shutdown'' 163 (main_thread example_os))
           (take 2047 (bytes_of ''Shutdown''))) (active_format log_initial Trace)) < 2048" by code_simp
  moreover have "active_format s Trace = active_format log_initial Trace"
    using s(3) by (simp add: same_formats_def active_format_def)
  ultimately obtain st where "app_exit example_os 0 (set_logs app_initial s) = ret (Exited 0 st)"
    using app_exit_returns [of "set_logs app_initial s" example_os 0] s(2) by auto
  then show ?thesis
    using s(1) by (auto simp: option_admin_def name_option_def cl_validate_def EXIT_SUCCESS_def)
qed

theorem names_on_the_command_line_witness:
  "\<exists>st. option_admin example_os (replicate 32 65) app_initial = ret (Exited 0 st)
    \<and> conf (server st) = config_initial"
proof -
  obtain st where st: "option_admin example_os (replicate 32 65) app_initial = ret (Exited 0 st)"
    using too_long_admin_returns by blast
  have "conf (server app_initial) = config_initial"
    by (simp add: app_initial_def server_state.defs broadcast_state.defs)
  with names_on_the_command_line [of "replicate 32 65" example_os app_initial "Exited 0 st"] st
  show ?thesis by simp
qed

section \<open>Accepting connections\<close>

text \<open>The run of the started server, with the handler it ends in.\<close>

lemma run_starts_handler:
  assumes "log_inv (logs (server st))" and "clock_ok (log_os OS)"
    and "active_format (logs (server st)) Trace = main_format"
    and "connection_handler (network_os OS) rs (port (conf (server st))) (handler st) = (Handler_Waits, h)"
  shows "\<exists>l. application_Run OS rs st = ret (Handler_Waits, (set_logs st l)\<lparr>handler := h\<rparr>)"
proof -
  let ?L = "(site ''src/application.c'' ''application_Run'' 137 (main_thread OS))\<lparr>prefix := bytes_of ''START ''\<rparr>"
  have "length (fmt_d 137) = 3" by code_simp
  then have "length (expansion (tag_text (log_os OS) Trace ?L (take 2047 [])) main_format) < 2048"
    by (intro main_expansion_short [OF assms(2)]) (simp add: site_def)
  then obtain l where "log_output (log_os OS) Trace ?L [] [] (logs (server st)) = ret l"
    using log_output_returns [OF assms(1), of "log_os OS" Trace ?L "[]" "[]"] assms(3) by auto
  then have "application_Run OS rs st = ret (Handler_Waits, (set_logs st l)\<lparr>handler := h\<rparr>)"
    using assms(4) by (simp add: application_Run_def cl_func_def with_logs_def set_logs_def)
  then show ?thesis by blast
qed

text \<open>C24: The whole process without options: when the clock shows C integers, there is memory for the name
  of a log, and the system grants a listening socket, the server comes up, binds port 8111 and
  never ends by itself on any number of connections: the sockets it starts threads for are exactly
  the accepted ones whose thread could be created, in their order, and it closes the others.\<close>

theorem server_comes_up_and_accepts:
  assumes "clock_ok (log_os OS)" and "name_memory OS = Some e"
    and "socket_result (network_os OS) \<noteq> -1" and "bind_ok (network_os OS)" and "listen_ok (network_os OS)"
    and "Accept_Failed \<notin> set rs"
  shows "\<exists>st. main OS 1 opts rest rs c u app_initial = ret (None, st)
    \<and> Sys_Bind (socket_result (network_os OS)) (htons (os_host (network_os OS)) 8111) INADDR_ANY
        \<in> set (sys_calls (handler st))
    \<and> threads_of (sys_calls (handler st)) = started rs \<and> closes_of (sys_calls (handler st)) = refused rs"
proof -
  obtain st where st: "application_Startup OS 1 opts rest app_initial = ret (Running st)" "app_ok st"
    "handler st = handler_initial" "active_format (logs (server st)) Trace = main_format"
    using default_start [OF assms(1,2)] by blast
  let ?ss = "socket_result (network_os OS)"
  let ?cs = "[Sys_Socket, Sys_Bind ?ss (htons (os_host (network_os OS)) 8111) INADDR_ANY, Sys_Listen ?ss SOMAXCONN]
    @ concat (map (calls_of ?ss) rs)"
  let ?h = "handler_initial\<lparr>sys_calls := ?cs\<rparr>"
  have "before_failure rs = rs" using assms(6) by (auto simp: before_failure_def takeWhile_eq_all_conv)
  then have h: "connection_handler (network_os OS) rs p handler_initial = (Handler_Waits, ?h)" for p
    using assms(3-6) by (simp add: connection_handler_def accept_loop_calls Let_def sys_def handler_initial_def)
  have cs: "threads_of ?cs = started rs \<and> closes_of ?cs = refused rs"
    using loop_threads [OF assms(6), of ?ss] by (simp add: threads_of_def closes_of_def)
  have "log_inv (logs (server st))" using st(2) by (simp add: app_ok_def)
  then obtain l where "application_Run OS rs st = ret (Handler_Waits, (set_logs st l)\<lparr>handler := ?h\<rparr>)"
    using run_starts_handler [OF _ assms(1) st(4)] h st(3) by metis
  then have "main OS 1 opts rest rs c u app_initial = ret (None, (set_logs st l)\<lparr>handler := ?h\<rparr>)"
    using st(1) by (simp add: main_def)
  then show ?thesis using cs by auto
qed

theorem server_comes_up_and_accepts_witness:
  "\<exists>st. main example_os 1 [] [] [Accepted 4 True, Accepted 5 False, Accepted 6 True] True True app_initial
      = ret (None, st)
    \<and> threads_of (sys_calls (handler st)) = [4, 6] \<and> closes_of (sys_calls (handler st)) = [5]"
proof -
  have "socket_result (network_os example_os) \<noteq> -1" "bind_ok (network_os example_os)" "listen_ok (network_os example_os)"
    by (simp_all add: example_os_def)
  then have "\<exists>st. main example_os 1 [] [] [Accepted 4 True, Accepted 5 False, Accepted 6 True] True True app_initial
      = ret (None, st)
    \<and> threads_of (sys_calls (handler st)) = started [Accepted 4 True, Accepted 5 False, Accepted 6 True]
    \<and> closes_of (sys_calls (handler st)) = refused [Accepted 4 True, Accepted 5 False, Accepted 6 True]"
    using server_comes_up_and_accepts [of example_os 0 "[Accepted 4 True, Accepted 5 False, Accepted 6 True]" "[]" "[]" True True]
      example_clock by (auto simp: example_os_fields)
  then show ?thesis by (simp add: started_def refused_def)
qed

section \<open>What the process ends with\<close>

lemma accept_loop_ends: "fst (accept_loop ss rs st) \<noteq> Handler_Exits code"
  by (simp add: accept_loop_calls)

lemma handler_exit_code:
  "connection_handler OS rs p st = (Handler_Exits code, h) \<Longrightarrow> code = 1"
  by (auto simp: connection_handler_def Let_def accept_loop_calls split: if_splits)

lemma run_exit_code:
  assumes "application_Run OS rs st = ret (Handler_Exits code, st')"
  shows "code = 1"
proof -
  obtain s1 where s1: "(let (e, h) = connection_handler (network_os OS) rs (port (conf (server s1))) (handler s1);
          st = s1\<lparr>handler := h\<rparr> in
      if e = Handler_Returns
      then bindR (cl_func OS ''END '' ''application_Run'' 139 [] [] st) (\<lambda>st. ret (e, st))
      else ret (e, st)) = ret (Handler_Exits code, st')"
    using assms unfolding application_Run_def bindR_ret_iff by blast
  obtain e h where eh: "connection_handler (network_os OS) rs (port (conf (server s1))) (handler s1) = (e, h)"
    by fastforce
  have "e = Handler_Exits code" using s1 unfolding eh by (auto simp: Let_def bindR_ret_iff split: if_splits)
  then show ?thesis using handler_exit_code [OF eh [unfolded \<open>e = Handler_Exits code\<close>]] by simp
qed

lemma shutdown_result:
  "application_Shutdown OS c u st = ret (result, st') \<Longrightarrow> result = 0"
  by (auto simp: application_Shutdown_def bindR_ret_iff Let_def EXIT_SUCCESS_def)

text \<open>A server that came up never ends with success: when the start returns and the process ends
  afterwards, in whatever way, its exit code is 1, also when the connection handler returned and
  the shutdown did all its work.\<close>

theorem running_server_never_ends_with_success:
  assumes "application_Startup OS argc opts rest st = ret (Running st1)"
    and "main OS argc opts rest rs c u st = ret (Some code, st')"
  shows "code = EXIT_FAILURE"
proof -
  obtain e s2 where run: "application_Run OS rs st1 = ret (e, s2)"
    and e: "(case e of
                 Handler_Exits code \<Rightarrow> ret (Some code, s2)
               | Handler_Waits \<Rightarrow> ret (None, s2)
               | Handler_Returns \<Rightarrow>
                   bindR (application_Shutdown OS c u s2) (\<lambda>(result, st).
                     ret (Some (if result \<noteq> 0 then EXIT_SUCCESS else EXIT_FAILURE), st))) = ret (Some code, st')"
    using assms(2) unfolding main_def assms(1) by (auto simp: bindR_ret_iff)
  show ?thesis
  proof (cases e)
    case (Handler_Exits k)
    then show ?thesis using e run_exit_code run by (auto simp: EXIT_FAILURE_def)
  next
    case Handler_Returns
    then show ?thesis using e by (auto simp: bindR_ret_iff dest: shutdown_result)
  qed (use e in simp)
qed

theorem running_server_never_ends_with_success_witness:
  "\<exists>st'. main (example_os\<lparr>network_os := (network_os example_os)\<lparr>bind_ok := False\<rparr>\<rparr>) 1 [] [] [] True True app_initial
     = ret (Some EXIT_FAILURE, st')"
proof -
  let ?OS = "example_os\<lparr>network_os := (network_os example_os)\<lparr>bind_ok := False\<rparr>\<rparr>"
  obtain st where st: "application_Startup ?OS 1 [] [] app_initial = ret (Running st)" "app_ok st"
    "active_format (logs (server st)) Trace = main_format"
    using default_start [of ?OS 0 "[]" "[]"] example_clock by (auto simp: example_os_fields)
  let ?L = "(site ''src/application.c'' ''application_Run'' 137 (main_thread ?OS))\<lparr>prefix := bytes_of ''START ''\<rparr>"
  have "length (fmt_d 137) = 3" by code_simp
  then have "length (expansion (tag_text (log_os ?OS) Trace ?L (take 2047 [])) main_format) < 2048"
    using example_clock by (intro main_expansion_short) (simp_all add: site_def example_os_fields)
  then obtain l where l: "log_output (log_os ?OS) Trace ?L [] [] (logs (server st)) = ret l"
    using log_output_returns [of "logs (server st)" "log_os ?OS" Trace ?L "[]" "[]"] st(2,3) by (auto simp: app_ok_def)
  have "\<exists>code st'. main ?OS 1 [] [] [] True True app_initial = ret (Some code, st')"
    using st(1) l by (simp add: main_def application_Run_def cl_func_def with_logs_def set_logs_def
        connection_handler_def example_os_def Let_def)
  then show ?thesis using running_server_never_ends_with_success [OF st(1)] by metis
qed

section \<open>The interrupt\<close>

lemma with_logs_rest:
  assumes "with_logs f st = ret st'"
  shows "\<exists>l. st' = set_logs st l"
  using assms by (auto simp: with_logs_def bindR_ret_iff)

lemma set_logs_twice [simp]: "set_logs (set_logs st l) l' = set_logs st l'"
  by (simp add: set_logs_def)

lemma handler_set_logs [simp]: "handler (set_logs st l) = handler st"
  by (simp add: set_logs_def)

lemma interrupt_result:
  assumes "sigint_Handler OS signum st = ret st'"
  shows "\<exists>l. st' = (set_logs st l)\<lparr>handler := connection_handler_shutdown (handler st)\<rparr>"
  using assms unfolding sigint_Handler_def cl_log_def cl_text_def cl_separator_def Let_def bindR_ret_iff
  by (auto dest!: with_logs_rest)

lemma output_while_locked: "LogLock s \<Longrightarrow> output_Message E l m t s = fail Deadlock"
  by (simp add: output_Message_def Let_def)

text \<open>The interrupt: delivered while the logger's mutex is held, the handler waits for that mutex for
  ever, because it logs before anything else; delivered otherwise, all it does outside the logger
  is to ask the system to close the socket -1, so that the listening socket, the clients and the
  broadcast agent go on as before.\<close>

theorem interrupt_stops_nothing:
  assumes "\<not> fst (SpecificLogFormatArray (logs (server st)) ! level_code Trace)" and "sock_server (handler st) = -1"
  shows "(LogLock (logs (server st)) \<longrightarrow> sigint_Handler OS signum st = fail Deadlock)
    \<and> (\<forall>st'. sigint_Handler OS signum st = ret st' \<longrightarrow>
         sys_calls (handler st') = sys_calls (handler st) @ [Sys_Close (-1)]
         \<and> (server st')\<lparr>logs := logs (server st)\<rparr> = server st)"
proof (intro conjI impI allI)
  assume locked: "LogLock (logs (server st))"
  let ?s = "set_Formatting (bytes_of ''$C'') (logs (server st))"
  have "active_format ?s Trace = bytes_of ''$C''" "LogLock ?s"
    using assms(1) locked by (simp_all add: active_format_def set_Formatting_def)
  then have "log_output (log_os OS) Trace (site ''src/application.c'' ''sigint_Handler'' 219 (main_thread OS)) [8, 13] [8, 13] ?s
      = fail Deadlock"
    by (simp add: log_output_eq bytes_of_def tag_text_def output_while_locked site_def)
  then show "sigint_Handler OS signum st = fail Deadlock"
    by (simp add: sigint_Handler_def cl_log_def with_logs_def Let_def)
next
  fix st' assume "sigint_Handler OS signum st = ret st'"
  from interrupt_result [OF this] assms(2)
  show "sys_calls (handler st') = sys_calls (handler st) @ [Sys_Close (-1)]"
    and "(server st')\<lparr>logs := logs (server st)\<rparr> = server st"
    by (auto simp: connection_handler_shutdown_def set_logs_def)
qed

theorem interrupt_stops_nothing_witness:
  "sigint_Handler example_os 2 (set_logs app_initial (log_initial\<lparr>LogLock := True\<rparr>)) = fail Deadlock"
proof -
  let ?st = "set_logs app_initial (log_initial\<lparr>LogLock := True\<rparr>)"
  have "\<not> fst (SpecificLogFormatArray (logs (server ?st)) ! level_code Trace)" "sock_server (handler ?st) = -1"
    "LogLock (logs (server ?st))"
    by (simp_all add: log_initial_def app_initial_def handler_initial_def)
  with interrupt_stops_nothing [of ?st example_os 2] show ?thesis by blast
qed

end
