(* ===== verification/Chat_Spec.thy ===== *)
theory Chat_Spec
  imports Commands Client_Login
begin

text \<open>
  What the chat server promises, without its buffers, pointers and bytes on the wire: the members of
  the chat, the messages on their way to everybody, and what each request of a client does. The
  texts of the answers and the reading of a command are those of the code.
\<close>

section \<open>The chat\<close>

text \<open>
  A member shows a name. \<open>m_len\<close> is the length of the name it last logged in with, and only as much
  of its name is told to the others: after a second login under a shorter name the two differ.
\<close>

record member =
  m_sock :: u16
  m_name :: "byte list"
  m_len :: nat
  m_in :: bool
  m_kicked :: bool

text \<open>
  \<open>me\<close> is the member whose thread is served, \<open>room\<close> the capacity of the queue, \<open>srv\<close> and \<open>adm\<close> the
  names of the server and of the administrator.
\<close>

record chat =
  members :: "member list"
  me :: "nat option"
  pending :: "server_msg list"
  room :: nat
  paused :: bool
  closed :: "u16 list"
  srv :: "byte list"
  adm :: "byte list"

type_synonym chat_output = "(u16 \<times> server_msg) list"

definition own_member :: "chat \<Rightarrow> member" where
  "own_member c = members c ! the (me c)"

definition other_members :: "chat \<Rightarrow> member list" where
  "other_members c = take (the (me c)) (members c) @ drop (Suc (the (me c))) (members c)"

definition set_own :: "member \<Rightarrow> chat \<Rightarrow> chat" where
  "set_own m c = c\<lparr>members := (members c)[the (me c) := m]\<rparr>"

definition told_name :: "member \<Rightarrow> byte list" where
  "told_name m = take (m_len m) (m_name m)"

definition tell :: "server_msg \<Rightarrow> member list \<Rightarrow> chat_output" where
  "tell w ms = map (\<lambda>m. (m_sock m, w)) (filter m_in ms)"

definition tell_own :: "server_msg \<Rightarrow> chat \<Rightarrow> chat_output" where
  "tell_own w c = [(m_sock (own_member c), w)]"

section \<open>Requests\<close>

text \<open>
  A request is a login, a chat text, a text that starts with a slash, a message the server takes
  for invalid, or one of a type it does not know.
\<close>

datatype request =
    Login_As "byte list"
  | Say "byte list"
  | Order "byte list"
  | Ill_Formed
  | Unknown_Type

text \<open>A text of the server answering a text of a client: behind the server's name comes what the
  sender's field has from the client's own text.\<close>

definition reply :: "u64 \<Rightarrow> chat \<Rightarrow> byte list \<Rightarrow> byte list \<Rightarrow> server_msg" where
  "reply t c body f = Server_To_Client t
     (srv c @ take (32 - length (srv c)) (drop (8 + length (srv c)) (body @ replicate (552 - length body) 0)))
     (take 511 f)"

definition offer :: "bool \<Rightarrow> server_msg \<Rightarrow> chat \<Rightarrow> chat" where
  "offer ok w c = (if ok \<and> length (pending c) < room c then c\<lparr>pending := pending c @ [w]\<rparr> else c)"

definition do_say :: "bool \<Rightarrow> u64 \<Rightarrow> byte list \<Rightarrow> chat \<Rightarrow> chat \<times> chat_output" where
  "do_say ok t body c =
     (offer ok (Server_To_Client t (told_name (own_member c)) body) c,
      if ok \<and> length (pending c) < room c then []
      else tell_own (Server_To_Client t
        (srv c @ drop (length (srv c)) (sender_field (told_name (own_member c)))) queue_full_text) c)"

definition login_result :: "byte list \<Rightarrow> chat \<Rightarrow> login_response_code" where
  "login_result nm c =
     (if \<exists>b \<in> set nm. \<not> name_byte_ok b then LR_name_invalid
      else if \<exists>m \<in> set (members c). m_in m \<and> m_name m = nm then LR_name_taken
      else LR_success)"

definition renamed :: "byte list \<Rightarrow> member \<Rightarrow> member" where
  "renamed nm m = m\<lparr>m_name := nm @ drop (length nm) (m_name m), m_len := length nm, m_in := True\<rparr>"

definition do_login :: "bool \<Rightarrow> u64 \<Rightarrow> byte list \<Rightarrow> chat \<Rightarrow> chat \<times> chat_output" where
  "do_login ok t nm c =
     (let answer = tell_own (Login_Response (login_result nm c) (srv c)) c in
      if login_result nm c = LR_success
      then (offer ok (User_Added t nm) (set_own (renamed nm (own_member c)) c),
            answer @ concat (map (\<lambda>m. tell_own (User_Added 0 (told_name m)) c) (filter m_in (other_members c))))
      else (c, answer))"

section \<open>Commands\<close>

fun kick_first :: "byte list \<Rightarrow> member list \<Rightarrow> (u16 \<times> member list) option" where
  "kick_first n [] = None"
| "kick_first n (m # ms) =
     (if m_name m = n \<and> m_in m then Some (m_sock m, m\<lparr>m_kicked := True\<rparr> # ms)
      else map_option (\<lambda>(sk, ms). (sk, m # ms)) (kick_first n ms))"

definition do_kick :: "u64 \<Rightarrow> byte list \<Rightarrow> chat \<Rightarrow> chat \<times> chat_output" where
  "do_kick t body c =
     (case kick_argument (body @ [0]) of
        Some (Inr (Some nk)) \<Rightarrow>
          (let n = takeWhile (\<lambda>b. b \<noteq> 0) nk in
           case kick_first n (members c) of
             Some (sk, ms) \<Rightarrow> (c\<lparr>members := ms, closed := closed c @ [sk]\<rparr>, [])
           | None \<Rightarrow> (c, tell_own (reply t c body
               (bytes_of ''[name: '' @ n @ bytes_of ''] is not in user list'')) c))
      | _ \<Rightarrow> (c, []))"

definition do_pause :: "u64 \<Rightarrow> byte list \<Rightarrow> chat \<Rightarrow> chat \<times> chat_output" where
  "do_pause t body c =
     (if paused c then (c, tell_own (reply t c body (bytes_of ''Server is already paused'')) c)
      else (c\<lparr>paused := True\<rparr>, tell (reply t c body (bytes_of ''admin has paused the server'')) (members c)))"

definition do_resume :: "u64 \<Rightarrow> byte list \<Rightarrow> chat \<Rightarrow> chat \<times> chat_output" where
  "do_resume t body c =
     (if paused c
      then (c\<lparr>paused := False\<rparr>, tell (reply t c body (bytes_of ''admin has resumed the server'')) (members c))
      else (c, tell_own (reply t c body (bytes_of ''Server is not paused, [/resume] makes no sense'')) c))"

text \<open>One text per command of the table; the first one is built over the client's own text.\<close>

definition help_of :: "u64 \<Rightarrow> byte list \<Rightarrow> AC_Command_Data \<Rightarrow> server_msg" where
  "help_of t residue d = Server_To_Client t
     (bytes_of (ac_syntax d) @ take (32 - length (ac_syntax d)) (drop (8 + length (ac_syntax d)) residue))
     (bytes_of (ac_description d))"

definition do_help :: "u64 \<Rightarrow> byte list \<Rightarrow> chat \<Rightarrow> chat \<times> chat_output" where
  "do_help t body c =
     (c, tell_own (help_of t (body @ replicate (552 - length body) 0) (hd All_Admin_Commands_Data)) c
         @ concat (map (\<lambda>d. tell_own (help_of t (replicate 552 0) d) c) (tl All_Admin_Commands_Data)))"

definition do_order :: "u64 \<Rightarrow> byte list \<Rightarrow> chat \<Rightarrow> chat \<times> chat_output" where
  "do_order t body c =
     (if m_name (own_member c) \<noteq> adm c then (c, tell_own (reply t c body denied_text) c)
      else case the_ret (get_server_command (body @ [0])) of
          AC_Kick \<Rightarrow> do_kick t body c
        | AC_Pause \<Rightarrow> do_pause t body c
        | AC_Resume \<Rightarrow> do_resume t body c
        | AC_Help \<Rightarrow> do_help t body c
        | _ \<Rightarrow> (c, tell_own (reply t c body (bytes_of ''Caution! detected invalid [server_commands] '' @ body)) c))"

fun do_request :: "bool \<Rightarrow> u64 \<Rightarrow> request \<Rightarrow> chat \<Rightarrow> chat \<times> chat_output" where
  "do_request ok t (Login_As nm) c = do_login ok t nm c"
| "do_request ok t (Say body) c = do_say ok t body c"
| "do_request ok t (Order body) c = do_order t body c"
| "do_request ok t Ill_Formed c = (set_own ((own_member c)\<lparr>m_kicked := True\<rparr>) c, [])"
| "do_request ok t Unknown_Type c = (c, [])"

section \<open>The rest of the chat's life\<close>

definition do_connect :: "u16 \<Rightarrow> chat \<Rightarrow> chat \<times> chat_output" where
  "do_connect sk c =
     (c\<lparr>members := members c @ [\<lparr>m_sock = sk, m_name = [], m_len = 0, m_in = False, m_kicked = False\<rparr>],
        me := Some (length (members c))\<rparr>, [])"

definition do_leave :: "u64 \<Rightarrow> chat \<Rightarrow> chat \<times> chat_output" where
  "do_leave t c =
     (c\<lparr>members := other_members c, me := None, closed := closed c @ [m_sock (own_member c)]\<rparr>,
      if m_len (own_member c) = 0 then []
      else tell (User_Removed t (if m_kicked (own_member c) then CD_kicked_from_the_server else CD_communication_error)
        (told_name (own_member c))) (other_members c))"

text \<open>The agent takes the message that waits longest to all members that are logged in.\<close>

definition do_deliver :: "chat \<Rightarrow> chat \<times> chat_output" where
  "do_deliver c = (c\<lparr>pending := tl (pending c)\<rparr>, tell (hd (pending c)) (members c))"

text \<open>
  The events: a connection, a request together with whether the queue can take a message, the end of
  the connection that is served, and a turn of the agent. Each has the surroundings it happens in.
\<close>

datatype chat_event =
    Joins env u16
  | Asks env bool request
  | Quits env
  | Delivers env

fun chat_step :: "chat_event \<Rightarrow> chat \<Rightarrow> chat \<times> chat_output" where
  "chat_step (Joins E sk) c = do_connect sk c"
| "chat_step (Asks E ok q) c = do_request ok (stamp_value E True) q c"
| "chat_step (Quits E) c = do_leave (stamp_value E True) c"
| "chat_step (Delivers E) c = do_deliver c"

text \<open>
  The requests the chat has an answer to. On others the server's behaviour is undefined: a login name of
  31 bytes, which the receiver lets through, is not terminated, and a \<^verbatim>\<open>/kick\<close> of the administrator
  without a name, or with one of 31 bytes or more, reads or writes outside its array.
\<close>

fun well_posed :: "request \<Rightarrow> bool" where
  "well_posed (Login_As nm) \<longleftrightarrow> nm \<noteq> [] \<and> length nm \<le> 30 \<and> 0 \<notin> set nm"
| "well_posed (Say body) \<longleftrightarrow> body \<noteq> [] \<and> length body \<le> 511 \<and> 0 \<notin> set body \<and> body ! 0 \<noteq> 47"
| "well_posed (Order body) \<longleftrightarrow> body \<noteq> [] \<and> length body \<le> 511 \<and> 0 \<notin> set body \<and> body ! 0 = 47
     \<and> (get_server_command (body @ [0]) = ret AC_Kick \<longrightarrow>
          is_ret (kick_argument (body @ [0])) \<and> the_ret (kick_argument (body @ [0])) \<noteq> None)"
| "well_posed Ill_Formed = True"
| "well_posed Unknown_Type = True"

fun possible :: "chat_event \<Rightarrow> chat \<Rightarrow> bool" where
  "possible (Joins E sk) c \<longleftrightarrow> sk \<notin> m_sock ` set (members c)"
| "possible (Asks E ok q) c \<longleftrightarrow> me c \<noteq> None \<and> well_posed q"
| "possible (Quits E) c \<longleftrightarrow> me c \<noteq> None"
| "possible (Delivers E) c \<longleftrightarrow> pending c \<noteq> [] \<and> \<not> paused c"

fun event_env :: "chat_event \<Rightarrow> env" where
  "event_env (Joins E sk) = E"
| "event_env (Asks E ok q) = E"
| "event_env (Quits E) = E"
| "event_env (Delivers E) = E"

text \<open>A run: the final chat, and the bytes all events put on the sockets.\<close>

definition on_sockets :: "env \<Rightarrow> chat_output \<Rightarrow> (u16 \<times> byte list) list" where
  "on_sockets E os = concat (map (\<lambda>(sk, w). sent_msg E w sk) os)"

fun chat_run :: "chat_event list \<Rightarrow> chat \<Rightarrow> (chat \<times> (u16 \<times> byte list) list) option" where
  "chat_run [] c = Some (c, [])"
| "chat_run (e # es) c =
     (if possible e c
      then map_option (\<lambda>(c', bs). (c', on_sockets (event_env e) (snd (chat_step e c)) @ bs))
             (chat_run es (fst (chat_step e c)))
      else None)"

end
