(* ===== verification/Chat_Refinement.thy ===== *)
theory Chat_Refinement
  imports Chat_Spec Chat_Server
begin

text \<open>
  The server implements the chat of \<^verbatim>\<open>Chat_Spec\<close>: a simulation that relates the users in memory to
  the members, the byte buffers in the queue to the messages on their way, and the variables of
  the program to the state of the chat, and shows that every event of the server does what the
  chat's event does and puts the frames of the chat's messages on the sockets.
\<close>

section \<open>The relation\<close>

definition member_of :: "user \<Rightarrow> member" where
  "member_of u = \<lparr>m_sock = sock u, m_name = display_name u, m_len = unat (name_length u),
     m_in = logged_in u, m_kicked = should_shutdown u\<rparr>"

text \<open>Behind the name a user shows its buffer is zero.\<close>

definition tidy_user :: "user \<Rightarrow> bool" where
  "tidy_user u \<longleftrightarrow> name u = sender_field (display_name u) \<and> unat (name_length u) \<le> length (display_name u)"

definition on_its_way :: "queue_message \<Rightarrow> server_msg \<Rightarrow> bool" where
  "on_its_way q w \<longleftrightarrow> sender q = None \<and> length (qmsg q) = 555 \<and> length (msg_body w) \<le> 552
     \<and> take (3 + length (msg_body w)) (qmsg q) = encode w \<and> loggable (qmsg q)"

definition sim :: "server_state \<Rightarrow> nat list \<Rightarrow> chat \<Rightarrow> bool" where
  "sim st as c \<longleftrightarrow> server_ok st as \<and> (\<forall>a \<in> set as. tidy_user (user_at (ustore st) a))
     \<and> members c = map (\<lambda>a. member_of (user_at (ustore st) a)) as
     \<and> (\<forall>i. me c = Some i \<longrightarrow> i < length as \<and> self st = Some (as ! i)
          \<and> disconnect_reason st = CD_communication_error)
     \<and> list_all2 on_its_way (broadcast_queue st) (pending c)
     \<and> room c = mq_maxmsg st \<and> paused c = broadcast_Paused st \<and> closed c = closed_socks st
     \<and> srv c = server_string st \<and> adm c = admin_string st \<and> agent_pc st = Some At_Receive"

lemma member_of_fields [simp]:
  "m_sock (member_of u) = sock u" "m_name (member_of u) = display_name u"
  "m_len (member_of u) = unat (name_length u)" "m_in (member_of u) = logged_in u"
  "m_kicked (member_of u) = should_shutdown u"
  by (simp_all add: member_of_def)

lemma on_its_way_iff: "on_its_way q w \<longleftrightarrow> sender q = None \<and> carries_frame E (qmsg q) (msg_type w) (msg_body w)"
  by (auto simp: on_its_way_def carries_frame_def encode_def printable_iff)

lemma queued_on_its_way: "queued E q w \<Longrightarrow> on_its_way q w"
  by (simp add: queued_def carries_def on_its_way_iff [of q w E])

lemma list_all2_snoc: "list_all2 P xs ys \<Longrightarrow> P x y \<Longrightarrow> list_all2 P (xs @ [x]) (ys @ [y])"
  by (simp add: list_all2_appendI)

section \<open>Names\<close>

lemma display_name_nonzero: "0 \<notin> set (display_name u)"
  by (auto simp: display_name_def dest: set_takeWhileD)

lemma takeWhile_padded: "0 \<notin> set d \<Longrightarrow> takeWhile (\<lambda>c. c \<noteq> 0) (d @ replicate n (0 :: byte)) = d"
  by (cases n) (simp_all add: takeWhile_tail)

lemma renamed_user:
  assumes t: "tidy_user u" and ok: "user_ok u" and nm: "length nm \<le> 30" "0 \<notin> set nm"
  shows "member_of (with_name u nm) = renamed nm (member_of u)" and "tidy_user (with_name u nm)"
proof -
  let ?d = "display_name u"
  have d: "length ?d \<le> 31" using user_name_string [OF ok] by simp
  have "name (with_name u nm) = nm @ drop (length nm) (?d @ replicate (32 - length ?d) 0)"
    using t by (simp add: with_name_def patch_def tidy_user_def sender_field_def)
  also have "\<dots> = (nm @ drop (length nm) ?d) @ replicate (32 - length (nm @ drop (length nm) ?d)) 0"
    using d nm(1) by (cases "length nm \<le> length ?d") simp_all
  finally have n: "name (with_name u nm) = sender_field (nm @ drop (length nm) ?d)"
    by (simp add: sender_field_def)
  have "0 \<notin> set (nm @ drop (length nm) ?d)"
    using nm(2) display_name_nonzero [of u] by (auto dest: in_set_dropD)
  then have dn: "display_name (with_name u nm) = nm @ drop (length nm) ?d"
    unfolding display_name_def [of "with_name u nm"] n by (rule takeWhile_sender_field)
  have l: "unat (name_length (with_name u nm)) = length nm"
    using nm(1) by (simp add: with_name_def unat_length_name)
  show "member_of (with_name u nm) = renamed nm (member_of u)"
    using dn l by (simp add: member_of_def renamed_def with_name_def)
  show "tidy_user (with_name u nm)" using n dn l by (simp add: tidy_user_def)
qed

lemma tidy_new: "tidy_user (new_user t sk)"
  by (simp add: tidy_user_def new_user_def display_name_def sender_field_def)

lemma told_name_notice:
  assumes "tidy_user u"
  shows "strncpy_image (name u) (unat (name_length u)) = told_name (member_of u)"
proof -
  let ?d = "display_name u" and ?n = "unat (name_length u)"
  have "name u = ?d @ replicate (32 - length ?d) 0" "?n \<le> length ?d"
    using assms by (simp_all add: tidy_user_def sender_field_def)
  then have "take ?n (name u) = take ?n ?d" by simp
  moreover have "0 \<notin> set (take ?n ?d)" using display_name_nonzero [of u] by (auto dest: in_set_takeD)
  then have "takeWhile (\<lambda>c. c \<noteq> 0) (take ?n ?d) = take ?n ?d" using takeWhile_padded [of "take ?n ?d" 0] by simp
  ultimately show ?thesis using \<open>?n \<le> length ?d\<close>
    by (simp add: strncpy_image_def told_name_def Let_def del: takeWhile_eq_all_conv)
qed

section \<open>Members and users\<close>

lemma sim_client_ok:
  assumes "sim st as c" and "me c = Some i"
  shows "client_ok st as (as ! i)" and "own_user st = user_at (ustore st) (as ! i)"
    and "own_member c = member_of (own_user st)" and "i < length as"
    and "self st = Some (as ! i)"
  using assms by (auto simp: sim_def server_ok_def client_ok_def own_user_def own_member_def)

lemma sim_inv: "sim st as c \<Longrightarrow> users_inv_at (ustore st) as"
  by (simp add: sim_def server_ok_def)

lemma sim_at: "sim st as c \<Longrightarrow> users_at (ustore st) as"
  by (simp add: sim_def server_ok_def users_inv_at_def)

lemma tell_users:
  "on_sockets E (tell w (map (\<lambda>a. member_of (user_at s a)) as)) =
     concat (map (\<lambda>a. sent_msg E w (sock (user_at s a))) (filter (\<lambda>a. logged_in (user_at s a)) as))"
  by (simp add: on_sockets_def tell_def filter_map comp_def)

lemma tell_everybody:
  assumes "sim st as c"
  shows "broadcast_output E (ustore st) as None (encode w) = on_sockets E (tell w (members c))"
  using assms by (simp add: sim_def tell_users broadcast_output_def recipients_def sent_msg_def)

lemma tell_own_user:
  "own_member c = member_of (own_user st) \<Longrightarrow> on_sockets E (tell_own w c) = sent_msg E w (sock (own_user st))"
  by (simp add: on_sockets_def tell_own_def)

lemma on_sockets_append [simp]: "on_sockets E (xs @ ys) = on_sockets E xs @ on_sockets E ys"
  by (simp add: on_sockets_def)

lemma on_sockets_Nil [simp]: "on_sockets E [] = []"
  by (simp add: on_sockets_def)

lemma on_sockets_concat: "on_sockets E (concat (map f xs)) = concat (map (\<lambda>x. on_sockets E (f x)) xs)"
  by (induction xs) simp_all

lemma filter_others:
  assumes "distinct as" and "i < length as"
  shows "filter (\<lambda>b. b \<noteq> as ! i \<and> P b) as = filter P (take i as @ drop (Suc i) as)"
proof -
  have as: "as = take i as @ as ! i # drop (Suc i) as" using assms(2) by (rule id_take_nth_drop)
  then have n: "as ! i \<notin> set (take i as) \<union> set (drop (Suc i) as)"
    using assms(1) by (metis distinct_append distinct.simps(2) UnE disjoint_iff list.set_intros(1))
  have "filter (\<lambda>b. b \<noteq> as ! i \<and> P b) xs = filter P xs" if "as ! i \<notin> set xs" for xs
    using that by (intro filter_cong) auto
  then have "filter (\<lambda>b. b \<noteq> as ! i \<and> P b) (take i as @ as ! i # drop (Suc i) as) = filter P (take i as @ drop (Suc i) as)"
    using n by simp
  with as show ?thesis by (rule trans [OF arg_cong])
qed

lemma sim_others:
  assumes "sim st as c" and "me c = Some i"
  shows "map (\<lambda>b. member_of (user_at (ustore st) b)) (take i as @ drop (Suc i) as) = other_members c"
  using assms by (simp add: sim_def other_members_def take_map drop_map)

lemma sim_distinct: "sim st as c \<Longrightarrow> distinct as"
  by (auto simp: sim_def server_ok_def users_inv_at_def distinct_map)

text \<open>A state after a round of the own thread, with the members' new state.\<close>

lemma sim_round:
  assumes "sim st as c" and "me c = Some i" and "client_ok st' as (as ! i)" and "unmoved st st'"
    and "members c' = map (\<lambda>a. member_of (user_at (ustore st') a)) as"
    and "\<forall>a \<in> set as. tidy_user (user_at (ustore st') a)"
    and "list_all2 on_its_way (broadcast_queue st') (pending c')"
    and "paused c' = broadcast_Paused st'" and "closed c' = closed_socks st'"
    and "me c' = me c" "room c' = room c" "srv c' = srv c" "adm c' = adm c"
  shows "sim st' as c'"
  using assms
  by (simp add: sim_def server_ok_def client_ok_def unmoved_def server_string_def admin_string_def)

lemma sim_round_same:
  assumes "sim st as c" and "me c = Some i" and "client_ok st' as (as ! i)" and "unmoved st st'"
    and "ustore st' = ustore st" and "broadcast_queue st' = broadcast_queue st"
    and "broadcast_Paused st' = broadcast_Paused st" and "closed_socks st' = closed_socks st"
  shows "sim st' as c"
  using assms(1) by (intro sim_round [OF assms(1-4)]) (simp_all add: sim_def assms(5-8))

lemma members_update:
  assumes "sim st as c" and "i < length as" and "user_at s' = (user_at (ustore st))(as ! i := u)"
  shows "map (\<lambda>a. member_of (user_at s' a)) as = (members c)[i := member_of u]"
proof (rule nth_equalityI)
  fix j assume "j < length (map (\<lambda>a. member_of (user_at s' a)) as)"
  moreover have "distinct as" using sim_distinct [OF assms(1)] .
  moreover have "members c = map (\<lambda>a. member_of (user_at (ustore st) a)) as" using assms(1) by (simp add: sim_def)
  ultimately show "map (\<lambda>a. member_of (user_at s' a)) as ! j = (members c)[i := member_of u] ! j"
    using assms(2,3) by (simp add: nth_list_update nth_eq_iff_index_eq)
qed (use assms in \<open>simp add: sim_def\<close>)

lemma offer_room:
  assumes "sim st as c" and "mq_send_ok R = ok"
  shows "queue_room R st \<longleftrightarrow> ok \<and> length (pending c) < room c"
  using assms by (auto simp: queue_room_def sim_def dest: list_all2_lengthD)

section \<open>Requests on the wire\<close>

text \<open>The inputs of a round that are a request: a whole message with a true length.\<close>

fun asks :: "round_input \<Rightarrow> request \<Rightarrow> bool" where
  "asks R (Login_As nm) \<longleftrightarrow> brings R 0 (login_len nm) (login_body nm) \<and> 0 < length nm \<and> length nm \<le> 30 \<and> 0 \<notin> set nm"
| "asks R (Say body) \<longleftrightarrow> brings R 2 (of_nat (length body)) body \<and> body \<noteq> [] \<and> length body \<le> 511 \<and> 0 \<notin> set body
     \<and> body ! 0 \<noteq> 47"
| "asks R (Order body) \<longleftrightarrow> brings R 2 (of_nat (length body)) body \<and> body \<noteq> [] \<and> length body \<le> 511 \<and> 0 \<notin> set body
     \<and> body ! 0 = 47 \<and> honest_body 2 body"
| "asks R Ill_Formed \<longleftrightarrow> (\<exists>t body. brings R t (of_nat (length body)) body \<and> length body \<le> 511
     \<and> receive_decision t (length body) body \<in> {NV_invalid_length, NV_Name_length_invalid, NV_Version_invalid,
         NV_Magic_num_invalid})"
| "asks R Unknown_Type \<longleftrightarrow> (\<exists>t body. brings R t (of_nat (length body)) body \<and> length body \<le> 511
     \<and> receive_decision t (length body) body = NV_unset)"

lemma asks_well_posed: "asks R q \<Longrightarrow> well_posed q"
  by (cases q) (auto simp: honest_body_def)

text \<open>Every honest message is a request.\<close>

lemma honest_asks:
  assumes "honest R"
  shows "\<exists>q. asks R q"
proof -
  obtain t body where R: "brings R t (of_nat (length body)) body" and h: "honest_body t body"
    using assms by (auto simp: honest_def)
  have l: "length body \<le> 511" using h by (simp add: honest_body_def)
  let ?d = "receive_decision t (length body) body"
  from decision_cases [of t "length body" body] show ?thesis
  proof (elim disjE conjE)
    assume "?d \<in> {NV_invalid_length, NV_Name_length_invalid, NV_Version_invalid, NV_Magic_num_invalid, NV_unset}"
    then consider "?d = NV_unset"
      | "?d \<in> {NV_invalid_length, NV_Name_length_invalid, NV_Version_invalid, NV_Magic_num_invalid}" by blast
    then show ?thesis
    proof cases
      case 1
      then have "asks R Unknown_Type" unfolding asks.simps using R l by blast
      then show ?thesis by blast
    next
      case 2
      then have "asks R Ill_Formed" unfolding asks.simps using R l by blast
      then show ?thesis by blast
    qed
  next
    assume t: "t = 0" and d: "?d = NV_Received_login"
    then have "receive_decision 0 (length body) body = NV_Received_login" by simp
    note b = login_body_of [OF this]
    have "length body \<le> 35" "0 \<notin> set (drop 5 body)" using h t d by (simp_all add: honest_body_def)
    moreover have "length body = 5 + length (drop 5 body)" using b(2) by simp
    then have "login_len (drop 5 body) = of_nat (length body)" by (simp add: login_len_def)
    then have "brings R 0 (login_len (drop 5 body)) (login_body (drop 5 body))"
      using R t unfolding b(1) [symmetric] by simp
    ultimately have "asks R (Login_As (drop 5 body))" using b(2) by auto
    then show ?thesis by blast
  next
    assume "t = 2" "length body \<noteq> 0" "?d = NV_Received_Server_command"
    then have "asks R (Order body)" using R h by (auto simp: honest_body_def receive_decision_def split: if_splits)
    then show ?thesis by blast
  next
    assume "t = 2" "length body \<noteq> 0" "?d = NV_Received_Message"
    then have "asks R (Say body)" using R h by (auto simp: honest_body_def receive_decision_def split: if_splits)
    then show ?thesis by blast
  qed
qed

section \<open>Chat texts\<close>

lemma sender_field_full: "length s = 32 \<Longrightarrow> sender_field s = s"
  by (simp add: sender_field_def)

lemma carried_sender:
  assumes "carries E m (Server_To_Client t nm body)" and "k \<le> 32"
  shows "bslice m (11 + k) (32 - k) = drop k (sender_field nm)"
proof -
  let ?b = "msg_body (Server_To_Client t nm body)"
  have nm: "length nm \<le> 32" and f: "take (3 + length ?b) m = frame MT_ServerToClient ?b"
    using assms(1) unfolding carries_def carries_frame_def msg_type.simps by auto
  have "m = frame MT_ServerToClient ?b @ drop (3 + length ?b) m"
    unfolding f [symmetric] by simp
  then obtain h r where "m = h @ net_image t @ sender_field nm @ body @ r" "length h = 3"
    unfolding frame_def by (intro that [of "mt_code MT_ServerToClient # net_image (of_nat (length ?b) :: u16)"]) simp_all
  then show ?thesis using nm assms(2) by (simp add: bslice_def)
qed

lemma sent_frame_is_message: "sent_on E (frame (msg_type w) (msg_body w)) sk = sent_msg E w sk"
  by (simp add: sent_msg_def encode_def)

text \<open>What a request's round has to show.\<close>

definition refined :: "round_input \<Rightarrow> server_state \<Rightarrow> nat list \<Rightarrow> chat \<times> chat_output \<Rightarrow> bool" where
  "refined R st as r \<longleftrightarrow> (\<exists>st'. client_round R st = ret (True, st') \<and> sim st' as (fst r)
     \<and> outbox st' = outbox st @ on_sockets (net_env R) (snd r))"

lemma text_round:
  assumes "sim st as c" and "me c = Some i" and "brings R 2 (of_nat (length body)) body"
    and "body \<noteq> []" and "length body \<le> 511"
  shows "client_round R st = bindR (if body ! 0 = 47 then handle_command R (received_state (of_nat (length body)) body st)
    else handle_message R (received_state (of_nat (length body)) body st)) (\<lambda>st. ret (True, st))"
  using assms(5) by (intro client_round_text [OF sim_client_ok(1) [OF assms(1,2)] assms(3-5)]) (simp add: unat_of_nat)

lemma sim_unmoved_queue:
  assumes "sim st as c" and "me c = Some i" and "client_ok st' as (as ! i)" and "unmoved st st'"
    and "ustore st' = ustore st" and "broadcast_queue st' = broadcast_queue st @ [q]" and "on_its_way q w"
    and "broadcast_Paused st' = broadcast_Paused st" and "closed_socks st' = closed_socks st"
  shows "sim st' as (c\<lparr>pending := pending c @ [w]\<rparr>)"
  using assms(1,7)
  by (intro sim_round [OF assms(1-4)]) (simp_all add: sim_def assms(5,6,8,9) list_all2_snoc)

lemma told_own_name:
  assumes "sim st as c" and "me c = Some i"
  shows "take (unat (name_length (own_user st))) (own_name st) = told_name (own_member c)"
  using sim_client_ok [OF assms] by (simp add: own_name_def told_name_def)

lemma sim_strings:
  assumes "sim st as c"
  shows "srv c = server_string st" and "adm c = admin_string st" and "length (srv c) \<le> 31"
    and "config_ok (conf st)"
  using assms config_strings(2) [of st] by (simp_all add: sim_def server_ok_def)

lemma refine_say:
  assumes sim: "sim st as c" and me: "me c = Some i" and q: "asks R (Say body)"
  shows "refined R st as (do_say (mq_send_ok R) (stamp_value (net_env R) True) body c)"
proof -
  let ?E = "net_env R" and ?len = "of_nat (length body) :: u16"
  let ?t = "stamp_value ?E True" and ?nm = "told_name (own_member c)" and ?st = "received_state ?len body st"
  have b: "brings R 2 ?len body" "body \<noteq> []" "length body \<le> 511" "0 \<notin> set body" "body ! 0 \<noteq> 47"
    using q by simp_all
  have n: "unat ?len = length body" using b(3) by (simp add: unat_of_nat)
  note ok = sim_client_ok(1) [OF sim me]
  have ok': "client_ok ?st as (as ! i)" using ok by simp
  have r: "client_round R st = bindR (handle_message R ?st) (\<lambda>st. ret (True, st))"
    using text_round [OF sim me b(1-3)] b(5) by simp
  obtain m where m: "carries ?E m (Server_To_Client ?t ?nm body)"
    and h: "if queue_room R ?st
     then handle_message R ?st = ret (?st\<lparr>msg := m, broadcast_queue := broadcast_queue ?st @ [\<lparr>sender = None, qmsg = m\<rparr>]\<rparr>)
     else \<exists>m'. handle_message R ?st = ret (?st\<lparr>msg := m', outbox := outbox ?st
       @ sent_on ?E (frame MT_ServerToClient (response_body ?E (server_string ?st) m queue_full_text)) (sock (own_user ?st))\<rparr>)"
    using handle_message_effect [OF ok' _ _ b(3) n b(4), of R] told_own_name [OF sim me] by auto
  note room = offer_room [OF sim refl, of R]
  show ?thesis
  proof (cases "queue_room R st")
    case True
    let ?s = "?st\<lparr>msg := m, broadcast_queue := broadcast_queue st @ [\<lparr>sender = None, qmsg = m\<rparr>]\<rparr>"
    have "on_its_way \<lparr>sender = None, qmsg = m\<rparr> (Server_To_Client ?t ?nm body)"
      using m by (intro queued_on_its_way [of ?E]) (simp add: queued_def)
    then have "sim ?s as (c\<lparr>pending := pending c @ [Server_To_Client ?t ?nm body]\<rparr>)"
      using ok by (intro sim_unmoved_queue [OF sim me]) (simp_all add: unmoved_def)
    then show ?thesis using True room r h by (simp add: refined_def do_say_def offer_def)
  next
    case False
    then obtain m' where m': "handle_message R ?st = ret (?st\<lparr>msg := m', outbox := outbox st
       @ sent_on ?E (frame MT_ServerToClient (response_body ?E (srv c) m queue_full_text)) (sock (own_user st))\<rparr>)"
      using h sim_strings(1) [OF sim] by auto
    let ?s = "?st\<lparr>msg := m', outbox := outbox st
       @ sent_on ?E (frame MT_ServerToClient (response_body ?E (srv c) m queue_full_text)) (sock (own_user st))\<rparr>"
    let ?w = "Server_To_Client ?t (srv c @ drop (length (srv c)) (sender_field ?nm)) queue_full_text"
    have k: "length (srv c) \<le> 32" using sim_strings(3) [OF sim] by simp
    have nm: "length ?nm \<le> 32" using m by (simp add: carries_def)
    have "take 511 queue_full_text = queue_full_text" unfolding queue_full_text_def by code_simp
    then have "response_body ?E (srv c) m queue_full_text = msg_body ?w"
      using carried_sender [OF m k] k nm by (simp add: response_body_def sender_field_full)
    then have "sent_on ?E (frame MT_ServerToClient (response_body ?E (srv c) m queue_full_text)) (sock (own_user st))
        = on_sockets ?E (tell_own ?w c)"
      using sent_frame_is_message [of ?E ?w] tell_own_user [OF sim_client_ok(3) [OF sim me], of ?E ?w] by simp
    moreover have "sim ?s as c"
      using ok by (intro sim_round_same [OF sim me]) (simp_all add: unmoved_def)
    moreover have full: "(mq_send_ok R \<and> length (pending c) < room c) = False" using False room by simp
    ultimately show ?thesis using r m' unfolding refined_def do_say_def offer_def full by simp
  qed
qed

section \<open>Commands\<close>

lemma answer_reply:
  assumes "sim st as c"
  shows "answer E st body f = encode (reply (stamp_value E True) c body f)"
  using sim_strings(1,3) [OF assms] by (simp add: answer_def encode_def reply_def sender_field_full)

lemma answered:
  assumes sim: "sim st as c" and me: "me c = Some i" and l: "length body \<le> 511" and f: "0 \<notin> set f"
    and r: "client_round R st = bindR (respond_self (net_env R) f (received_state len body st)) (\<lambda>st. ret (True, st))"
  shows "refined R st as (c, tell_own (reply (stamp_value (net_env R) True) c body f) c)"
proof -
  let ?E = "net_env R" and ?w = "reply (stamp_value (net_env R) True) c body f"
  note ok = sim_client_ok(1) [OF sim me]
  obtain m where m: "respond_self ?E f (received_state len body st) = ret ((received_state len body st)
    \<lparr>msg := m, outbox := outbox st @ sent_on ?E (answer ?E st body f) (sock (own_user st))\<rparr>)"
    using respond_self_received [OF ok l f, of ?E len] by blast
  have "sim ((received_state len body st)\<lparr>msg := m, outbox := v\<rparr>) as c" for v
    using ok by (intro sim_round_same [OF sim me]) (simp_all add: unmoved_def)
  moreover have "sent_on ?E (answer ?E st body f) (sock (own_user st)) = on_sockets ?E (tell_own ?w c)"
    using tell_own_user [OF sim_client_ok(3) [OF sim me], of ?E ?w] by (simp add: answer_reply [OF sim] sent_msg_def)
  ultimately show ?thesis using r m by (simp add: refined_def)
qed

definition marked_at :: "user_store \<Rightarrow> nat \<Rightarrow> nat \<Rightarrow> user" where
  "marked_at s t = (user_at s)(t := (user_at s t)\<lparr>should_shutdown := True\<rparr>)"

lemma kick_first_target:
  assumes "distinct as"
  shows "kick_first n (map (\<lambda>a. member_of (user_at s a)) as) =
    map_option (\<lambda>t. (sock (user_at s t), map (\<lambda>a. member_of (marked_at s t a)) as)) (kick_target s as n)"
  using assms
proof (induction as)
  case Nil
  then show ?case by (simp add: kick_target_def)
next
  case (Cons a as)
  show ?case
  proof (cases "display_name (user_at s a) = n \<and> logged_in (user_at s a)")
    case True
    then have "kick_target s (a # as) n = Some a" by (simp add: kick_target_def)
    moreover have "map (\<lambda>b. member_of (marked_at s a b)) as = map (\<lambda>b. member_of (user_at s b)) as"
      using Cons.prems by (intro map_cong) (auto simp: marked_at_def)
    ultimately show ?thesis using True by (simp add: member_of_def display_name_def marked_at_def)
  next
    case False
    then have k: "kick_target s (a # as) n = kick_target s as n" by (auto simp: kick_target_def)
    have "marked_at s t a = user_at s a" if "kick_target s as n = Some t" for t
      using Cons.prems that by (auto simp: kick_target_def marked_at_def dest: find_Some_mem)
    then show ?thesis unfolding k
      using Cons.IH Cons.prems False by (cases "kick_target s as n") auto
  qed
qed

lemma tidy_marked: "tidy_user (u\<lparr>should_shutdown := b\<rparr>) = tidy_user u"
  by (simp add: tidy_user_def display_name_def)

lemma refine_kick:
  assumes sim: "sim st as c" and me: "me c = Some i" and l: "length body \<le> 511" and z: "0 \<notin> set body"
    and nk: "kick_argument (body @ [0]) = ret (Some nk)"
    and r: "client_round R st = bindR (command_kick (net_env R) (received_state len body st)) (\<lambda>st. ret (True, st))"
  shows "refined R st as (do_kick (stamp_value (net_env R) True) body c)"
proof -
  let ?E = "net_env R" and ?st = "received_state len body st"
  have ka: "kick_argument (drop off_text (msg ?st)) = ret (Some nk)"
    using nk by (simp add: kick_argument_def received_string [OF l z])
  obtain n where n: "c_string nk = ret n" "0 \<notin> set n" using kick_argument_string [OF nk] by blast
  then have tn: "takeWhile (\<lambda>b. b \<noteq> 0) nk = n" by (auto simp: c_string_def split: if_splits)
  have inv: "users_inv_at (ustore ?st) as" using sim_inv [OF sim] by simp
  have ms: "members c = map (\<lambda>a. member_of (user_at (ustore st) a)) as" using sim by (simp add: sim_def)
  note loop = kick_loop [OF inv n(1)] and first = kick_first_target [OF sim_distinct [OF sim], where s = "ustore st" and n = n]
  show ?thesis
  proof (cases "kick_target (ustore st) as n")
    case None
    let ?f = "bytes_of ''[name: '' @ n @ bytes_of ''] is not in user list''"
    have "0 \<notin> set (bytes_of ''[name: '')" "0 \<notin> set (bytes_of ''] is not in user list'')" by code_simp+
    then have z: "0 \<notin> set ?f" using n(2) by simp
    have "client_round R st = bindR (respond_self ?E ?f ?st) (\<lambda>st. ret (True, st))"
      using r ka loop None n(1) by (simp add: command_kick_def)
    from answered [OF sim me l z this] show ?thesis
      using first None nk tn ms by (simp add: do_kick_def)
  next
    case (Some t)
    then have t: "t \<in> set as" by (auto simp: kick_target_def dest: find_Some_mem)
    have "user_ok (user_at (ustore st) t)" using inv t by (simp add: users_inv_at_def)
    then obtain us where us: "user_should_shutdown (Some t) (ustore st) = ret us" "users_inv_at us as"
      "user_at us = (user_at (ustore st))(t := (user_at (ustore st) t)\<lparr>should_shutdown := True\<rparr>)"
      using update_step [OF sim_inv [OF sim] t, of "\<lambda>u. u\<lparr>should_shutdown := True\<rparr>"]
      by (auto simp: user_should_shutdown_def user_ok_def)
    let ?s = "?st\<lparr>closed_socks := closed_socks st @ [sock (user_at (ustore st) t)], ustore := us\<rparr>"
    have f: "kick_first n (members c) = Some (sock (user_at (ustore st) t), map (\<lambda>a. member_of (user_at us a)) as)"
      using first Some ms by (simp add: marked_at_def us(3))
    have "client_ok ?s as (as ! i)" using sim_client_ok(1) [OF sim me] us(2) by (simp add: client_ok_def)
    moreover have "\<forall>a \<in> set as. tidy_user (user_at us a)" using sim us(3) by (simp add: sim_def tidy_marked)
    ultimately have "sim ?s as (c\<lparr>members := map (\<lambda>a. member_of (user_at us a)) as,
        closed := closed c @ [sock (user_at (ustore st) t)]\<rparr>)"
      using sim by (intro sim_round [OF sim me]) (simp_all add: unmoved_def sim_def)
    moreover have "client_round R st = ret (True, ?s)"
      using r ka loop Some us(1) by (simp add: command_kick_def)
    ultimately show ?thesis using f nk tn by (simp add: refined_def do_kick_def)
  qed
qed

lemma refine_pause:
  assumes sim: "sim st as c" and me: "me c = Some i" and l: "length body \<le> 511"
    and r: "client_round R st = bindR (command_pause (net_env R) (received_state len body st)) (\<lambda>st. ret (True, st))"
  shows "refined R st as (do_pause (stamp_value (net_env R) True) body c)"
proof (cases "broadcast_Paused st")
  case True
  then have p: "paused c" using sim by (simp add: sim_def)
  have "client_round R st = bindR (respond_self (net_env R) (bytes_of ''Server is already paused'')
      (received_state len body st)) (\<lambda>st. ret (True, st))"
    using r True by (simp add: command_pause_def Is_broadcast_paused_def)
  from answered [OF sim me l answer_texts(3) this] show ?thesis using p by (simp add: do_pause_def)
next
  case False
  then have p: "\<not> paused c" using sim by (simp add: sim_def)
  let ?E = "net_env R" and ?w = "reply (stamp_value (net_env R) True) c body (bytes_of ''admin has paused the server'')"
  note ok = sim_client_ok(1) [OF sim me]
  obtain m where m: "command_pause ?E (received_state len body st) = ret ((received_state len body st)
      \<lparr>broadcast_sem := 0, broadcast_Paused := True, msg := m,
       outbox := outbox st @ on_sockets ?E (tell ?w (members c))\<rparr>)"
    using command_pause_effect [OF ok l False, of ?E len] tell_everybody [OF sim, of ?E ?w] answer_reply [OF sim]
    by auto
  let ?s = "(received_state len body st)\<lparr>broadcast_sem := 0, broadcast_Paused := True, msg := m,
       outbox := outbox st @ on_sockets ?E (tell ?w (members c))\<rparr>"
  have "client_ok ?s as (as ! i)" using ok by (simp add: client_ok_def)
  then have "sim ?s as (c\<lparr>paused := True\<rparr>)"
    using sim by (intro sim_round [OF sim me]) (simp_all add: unmoved_def sim_def)
  then show ?thesis using r m p by (simp add: refined_def do_pause_def)
qed

lemma refine_resume:
  assumes sim: "sim st as c" and me: "me c = Some i" and l: "length body \<le> 511"
    and r: "client_round R st = bindR (command_resume (net_env R) (received_state len body st)) (\<lambda>st. ret (True, st))"
  shows "refined R st as (do_resume (stamp_value (net_env R) True) body c)"
proof (cases "broadcast_Paused st")
  case False
  then have p: "\<not> paused c" using sim by (simp add: sim_def)
  have "client_round R st = bindR (respond_self (net_env R) (bytes_of ''Server is not paused, [/resume] makes no sense'')
      (received_state len body st)) (\<lambda>st. ret (True, st))"
    using r False by (simp add: command_resume_def Is_broadcast_paused_def)
  from answered [OF sim me l answer_texts(5) this] show ?thesis using p by (simp add: do_resume_def)
next
  case True
  then have p: "paused c" using sim by (simp add: sim_def)
  let ?E = "net_env R" and ?w = "reply (stamp_value (net_env R) True) c body (bytes_of ''admin has resumed the server'')"
  note ok = sim_client_ok(1) [OF sim me]
  obtain m where m: "command_resume ?E (received_state len body st) = ret ((received_state len body st)
      \<lparr>msg := m, outbox := outbox st @ on_sockets ?E (tell ?w (members c)),
       broadcast_sem := 1, broadcast_Paused := False\<rparr>)"
    using command_resume_effect [OF ok l True, of ?E len] tell_everybody [OF sim, of ?E ?w] answer_reply [OF sim]
    by auto
  let ?s = "(received_state len body st)\<lparr>msg := m, outbox := outbox st @ on_sockets ?E (tell ?w (members c)),
       broadcast_sem := 1, broadcast_Paused := False\<rparr>"
  have "client_ok ?s as (as ! i)" using ok by (simp add: client_ok_def)
  then have "sim ?s as (c\<lparr>paused := False\<rparr>)"
    using sim by (intro sim_round [OF sim me]) (simp_all add: unmoved_def sim_def)
  then show ?thesis using r m p by (simp add: refined_def do_resume_def)
qed

lemma help_of_text:
  assumes "d \<in> set All_Admin_Commands_Data" and "552 \<le> length residue"
  shows "encode (help_of (stamp_value E True) residue d) = help_text E
    (take (32 - length (ac_syntax d)) (drop (8 + length (ac_syntax d)) residue)) d"
  using assms(2) table_texts [OF assms(1)]
  by (simp add: help_text_def encode_def help_of_def sender_field_full)

lemma refine_help:
  assumes sim: "sim st as c" and me: "me c = Some i" and l: "length body \<le> 511"
    and r: "client_round R st = bindR (command_help (net_env R) (received_state len body st)) (\<lambda>st. ret (True, st))"
  shows "refined R st as (do_help (stamp_value (net_env R) True) body c)"
proof -
  let ?E = "net_env R" and ?d = "hd All_Admin_Commands_Data" and ?b = "body @ replicate (552 - length body) 0"
  let ?t = "stamp_value (net_env R) True" and ?sk = "sock (own_user st)"
  note ok = sim_client_ok(1) [OF sim me] and own = tell_own_user [OF sim_client_ok(3) [OF sim me]]
  have d: "?d \<in> set All_Admin_Commands_Data" by (subst table_split) simp
  have "bslice (received 2 len body) (3 + (8 + length (ac_syntax ?d))) (32 - length (ac_syntax ?d)) =
      take (32 - length (ac_syntax ?d)) (drop (8 + length (ac_syntax ?d)) ?b)" by (rule bslice_received)
  then have res: "bslice (received 2 len body) (11 + length (ac_syntax ?d)) (32 - length (ac_syntax ?d)) =
      take (32 - length (ac_syntax ?d)) (drop (8 + length (ac_syntax ?d)) ?b)" by simp
  have first: "sent_on ?E (help_text ?E (take (32 - length (ac_syntax ?d)) (drop (8 + length (ac_syntax ?d)) ?b)) ?d) ?sk
      = on_sockets ?E (tell_own (help_of ?t ?b ?d) c)"
    using l by (simp add: own sent_msg_def help_of_text [OF d])
  have clean: "sent_on ?E (clean_text ?E d) ?sk = on_sockets ?E (tell_own (help_of ?t (replicate 552 0) d) c)"
    if "d \<in> set (tl All_Admin_Commands_Data)" for d
  proof -
    have d: "d \<in> set All_Admin_Commands_Data" using that by (metis list.set_intros(2) table_split)
    then have "length (ac_syntax d) \<le> 32" using table_texts [OF d] by simp
    then show ?thesis by (simp add: own sent_msg_def help_of_text [OF d] clean_text_def)
  qed
  let ?os = "snd (do_help ?t body c)"
  have out: "help_output ?E (bslice (received 2 len body) (11 + length (ac_syntax ?d)) (32 - length (ac_syntax ?d))) ?sk
      = on_sockets ?E ?os"
    unfolding help_output_def res first do_help_def snd_conv on_sockets_append on_sockets_concat
    by (simp add: clean cong: map_cong)
  let ?s = "(received_state len body st)\<lparr>outbox := outbox st @ on_sockets ?E ?os, msg := msg_zero\<rparr>"
  have "command_help ?E (received_state len body st) = ret ?s"
    using command_help_effect [OF ok l, of ?E len] unfolding out .
  moreover have "sim ?s as c" using ok by (intro sim_round_same [OF sim me]) (simp_all add: unmoved_def)
  ultimately show ?thesis using r by (simp add: refined_def do_help_def)
qed

lemma refine_order:
  assumes sim: "sim st as c" and me: "me c = Some i" and q: "asks R (Order body)"
  shows "refined R st as (do_order (stamp_value (net_env R) True) body c)"
proof -
  let ?E = "net_env R" and ?st = "received_state (of_nat (length body)) body st"
  have b: "brings R 2 (of_nat (length body)) body" "body \<noteq> []" "length body \<le> 511" "0 \<notin> set body" "body ! 0 = 47"
    and hb: "honest_body 2 body" using q by simp_all
  note ok = sim_client_ok [OF sim me]
  have ok': "client_ok ?st as (as ! i)" using ok(1) by simp
  have r: "client_round R st = bindR (handle_command R ?st) (\<lambda>st. ret (True, st))"
    using text_round [OF sim me b(1-3)] b(5) by simp
  have nm: "m_name (own_member c) = own_name st" "adm c = admin_string st"
    using ok(3) sim_strings [OF sim] by (simp_all add: own_name_def)
  have ad: "admin_string ?st = admin_string st" by (simp add: admin_string_def)
  note str = received_string [OF b(3,4)]
  obtain code where code: "get_server_command (body @ [0]) = ret code" using get_server_command_returns [OF str(2)] by blast
  have gc: "get_server_command (drop off_text (msg ?st)) = ret code"
    using code by (simp add: get_server_command_def str)
  show ?thesis
  proof (cases "own_name st = admin_string st")
    case False
    then have "client_round R st = bindR (respond_self ?E denied_text ?st) (\<lambda>st. ret (True, st))"
      using r ad by (simp add: handle_command_eq [OF ok'])
    from answered [OF sim me b(3) answer_texts(1) this] show ?thesis using False nm by (simp add: do_order_def)
  next
    case True
    then have r: "client_round R st = bindR (run_admin_command ?E code ?st) (\<lambda>st. ret (True, st))"
      using r ad gc by (simp add: handle_command_eq [OF ok'])
    have tr: "the_ret (get_server_command (body @ [0])) = code" using code by (simp add: the_ret_def)
    show ?thesis
    proof (cases "code = AC_Kick")
      case True
      then obtain nk where nk: "kick_argument (body @ [0]) = ret (Some nk)"
        using hb code by (auto simp: honest_body_def dest: is_ret_the)
      have "client_round R st = bindR (command_kick ?E ?st) (\<lambda>st. ret (True, st))"
        using r True by (simp add: run_admin_command_def)
      from refine_kick [OF sim me b(3,4) nk this] show ?thesis
        using \<open>own_name st = admin_string st\<close> nm tr True by (simp add: do_order_def)
    next
      case False
      let ?f = "bytes_of ''Caution! detected invalid [server_commands] '' @ body"
      have "0 \<notin> set (bytes_of ''Caution! detected invalid [server_commands] '')" by code_simp
      then have z: "0 \<notin> set ?f" using b(4) by simp
      have "command_invalid ?E ?st = respond_self ?E ?f ?st" by (simp add: command_invalid_def str)
      then show ?thesis
        using r False tr nm \<open>own_name st = admin_string st\<close> refine_pause [OF sim me b(3)] refine_resume [OF sim me b(3)]
          refine_help [OF sim me b(3)] answered [OF sim me b(3) z]
        by (cases code) (simp_all add: run_admin_command_def do_order_def)
    qed
  qed
qed

section \<open>Logins and other messages\<close>

lemma login_result_code:
  assumes "sim st as c"
  shows "login_result nm c = login_code (ustore st) as nm"
  using assms by (auto simp: login_result_def login_code_def name_taken_def sim_def)

lemma old_users_told:
  assumes sim: "sim st as c" and me: "me c = Some i"
  shows "old_users_output E (ustore st) as (as ! i) (sock (own_user st)) =
    on_sockets E (concat (map (\<lambda>m. tell_own (User_Added 0 (told_name m)) c) (filter m_in (other_members c))))"
proof -
  let ?u = "\<lambda>b. user_at (ustore st) b"
  have f: "filter (\<lambda>b. b \<noteq> as ! i \<and> logged_in (?u b)) as = filter (\<lambda>b. logged_in (?u b)) (take i as @ drop (Suc i) as)"
    using filter_others [OF sim_distinct [OF sim] sim_client_ok(4) [OF sim me]] .
  show ?thesis
    unfolding old_users_output_def f sim_others [OF sim me, symmetric]
    by (simp add: on_sockets_concat tell_own_user [OF sim_client_ok(3) [OF sim me]] filter_map comp_def told_name_def
        del: filter_append map_append)
qed

lemma offer_fields [simp]:
  "members (offer ok w c) = members c" "me (offer ok w c) = me c" "room (offer ok w c) = room c"
  "paused (offer ok w c) = paused c" "closed (offer ok w c) = closed c" "srv (offer ok w c) = srv c"
  "adm (offer ok w c) = adm c"
  by (simp_all add: offer_def)

lemma set_own_fields [simp]:
  "pending (set_own m c) = pending c" "me (set_own m c) = me c" "room (set_own m c) = room c"
  "paused (set_own m c) = paused c" "closed (set_own m c) = closed c" "srv (set_own m c) = srv c"
  "adm (set_own m c) = adm c" "members (set_own m c) = (members c)[the (me c) := m]"
  by (simp_all add: set_own_def)

lemma refine_login:
  assumes sim: "sim st as c" and me: "me c = Some i" and q: "asks R (Login_As nm)" and mem: "memory_ok R st"
  shows "refined R st as (do_login (mq_send_ok R) (stamp_value (net_env R) True) nm c)"
proof -
  let ?E = "net_env R" and ?t = "stamp_value (net_env R) True" and ?code = "login_result nm c"
  have n: "brings R 0 (login_len nm) (login_body nm)" "0 < length nm" "length nm \<le> 30" "0 \<notin> set nm"
    using q by simp_all
  note ok = sim_client_ok [OF sim me] and own = tell_own_user [OF sim_client_ok(3) [OF sim me]]
  show ?thesis
  proof (cases "name_taken (ustore st) as nm \<or> (\<exists>b \<in> set nm. \<not> name_byte_ok b)")
    case True
    then have code: "?code = (if \<exists>b \<in> set nm. \<not> name_byte_ok b then LR_name_invalid else LR_name_taken)"
      "?code \<noteq> LR_success"
      by (auto simp: login_result_code [OF sim] login_code_def)
    obtain st' where st': "client_round R st = ret (True, st')" "ustore st' = ustore st" "client_ok st' as (as ! i)"
      "unmoved st st'" "closed_socks st' = closed_socks st" "broadcast_Paused st' = broadcast_Paused st"
      "broadcast_queue st' = broadcast_queue st"
      "outbox st' = outbox st @ sent_msg ?E (Login_Response ?code (server_string st)) (sock (own_user st))"
      using login_refused_effect [OF ok(1) n(1-4) True] unfolding code(1) by blast
    have "sim st' as c" by (rule sim_round_same [OF sim me st'(3,4,2,7,6,5)])
    then show ?thesis
      using st' code(2) sim_strings(1) [OF sim] own by (auto simp: refined_def do_login_def Let_def)
  next
    case False
    then have f: "\<forall>b \<in> set nm. name_byte_ok b" "\<not> name_taken (ustore st) as nm" by auto
    then have code: "?code = LR_success" by (auto simp: login_result_code [OF sim] login_code_def)
    obtain st' qm where st': "client_round R st = ret (True, st')" "client_ok st' as (as ! i)" "unmoved st st'"
      "closed_socks st' = closed_socks st" "broadcast_Paused st' = broadcast_Paused st"
      "user_at (ustore st') = (user_at (ustore st))(as ! i := with_name (own_user st) nm)"
      "broadcast_queue st' = (if queue_room R st then broadcast_queue st @ [qm] else broadcast_queue st)"
      "queued ?E qm (User_Added ?t nm)"
      "outbox st' = outbox st @ sent_msg ?E (Login_Response LR_success (server_string st)) (sock (own_user st))
         @ old_users_output ?E (ustore st) as (as ! i) (sock (own_user st))"
      using login_succeeds_effect [OF ok(1) n(1-3) f mem] by blast
    have u: "tidy_user (own_user st)" "user_ok (own_user st)"
      using sim ok(2,4) client_ok_user [OF ok(1), of "as ! i"] by (simp_all add: sim_def)
    note ren = renamed_user [OF u n(3,4)]
    let ?c = "offer (mq_send_ok R) (User_Added ?t nm) (set_own (renamed nm (own_member c)) c)"
    have "sim st' as ?c"
    proof (rule sim_round [OF sim me st'(2,3)])
      show "members ?c = map (\<lambda>a. member_of (user_at (ustore st') a)) as"
        using members_update [OF sim ok(4) st'(6)] ren(1) ok(3) me by simp
      show "\<forall>a \<in> set as. tidy_user (user_at (ustore st') a)" using sim ren(2) st'(6) by (simp add: sim_def)
      show "list_all2 on_its_way (broadcast_queue st') (pending ?c)"
        using sim st'(7) queued_on_its_way [OF st'(8)] offer_room [OF sim refl, of R]
        by (auto simp: sim_def offer_def list_all2_snoc)
    qed (use sim st'(4,5) in \<open>simp_all add: sim_def\<close>)
    moreover have "outbox st' = outbox st @ on_sockets ?E (tell_own (Login_Response LR_success (srv c)) c
        @ concat (map (\<lambda>m. tell_own (User_Added 0 (told_name m)) c) (filter m_in (other_members c))))"
      using st'(9) sim_strings(1) [OF sim] by (simp add: own old_users_told [OF sim me])
    ultimately show ?thesis using st'(1) code by (simp add: refined_def do_login_def Let_def)
  qed
qed

lemma refine_ill_formed:
  assumes sim: "sim st as c" and me: "me c = Some i" and q: "asks R Ill_Formed"
  shows "refined R st as (do_request ok t Ill_Formed c)"
proof -
  obtain y body where R: "brings R y (of_nat (length body)) body" "length body \<le> 511"
    and d: "receive_decision y (length body) body \<in> {NV_invalid_length, NV_Name_length_invalid, NV_Version_invalid,
         NV_Magic_num_invalid}" using q by auto
  note ok' = sim_client_ok [OF sim me]
  obtain m where r: "client_round R st = bindR (dispatch R (receive_decision y (length body) body)
      (st\<lparr>connection_status := 3, msg_length := of_nat (length body), msg := m\<rparr>)) (\<lambda>st. ret (True, st))"
    using client_round_decides [OF ok'(1) R] by blast
  let ?s = "st\<lparr>connection_status := 3, msg_length := of_nat (length body), msg := m\<rparr>"
  have "user_ok (user_at (ustore st) (as ! i))" using client_ok_user [OF ok'(1)] ok'(4) by simp
  then obtain us where us: "user_should_shutdown (Some (as ! i)) (ustore st) = ret us" "users_inv_at us as"
    "user_at us = (user_at (ustore st))(as ! i := (own_user st)\<lparr>should_shutdown := True\<rparr>)"
    using update_step [OF sim_inv [OF sim], of "as ! i" "\<lambda>u. u\<lparr>should_shutdown := True\<rparr>"] ok'(2,4)
    by (auto simp: user_should_shutdown_def user_ok_def)
  have "dispatch R (receive_decision y (length body) body) ?s = handle_invalid ?s"
    using d by (auto simp: dispatch_def)
  then have "client_round R st = ret (True, ?s\<lparr>ustore := us\<rparr>)" using r us(1) ok'(5) by (simp add: handle_invalid_def)
  moreover have "sim (?s\<lparr>ustore := us\<rparr>) as (set_own ((own_member c)\<lparr>m_kicked := True\<rparr>) c)"
  proof (rule sim_round [OF sim me])
    show "client_ok (?s\<lparr>ustore := us\<rparr>) as (as ! i)" using ok'(1) us(2) by (simp add: client_ok_def)
    have "(own_member c)\<lparr>m_kicked := True\<rparr> = member_of ((own_user st)\<lparr>should_shutdown := True\<rparr>)"
      using ok'(3) by (simp add: member_of_def display_name_def)
    then show "members (set_own ((own_member c)\<lparr>m_kicked := True\<rparr>) c) =
        map (\<lambda>a. member_of (user_at (ustore (?s\<lparr>ustore := us\<rparr>)) a)) as"
      using members_update [OF sim ok'(4) us(3)] me by simp
    have "tidy_user (own_user st)" using sim ok'(2,4) by (simp add: sim_def)
    then show "\<forall>a \<in> set as. tidy_user (user_at (ustore (?s\<lparr>ustore := us\<rparr>)) a)"
      using sim us(3) by (simp add: sim_def tidy_marked)
  qed (use sim in \<open>simp_all add: sim_def unmoved_def\<close>)
  ultimately show ?thesis by (simp add: refined_def)
qed

lemma refine_unknown:
  assumes sim: "sim st as c" and me: "me c = Some i" and q: "asks R Unknown_Type"
  shows "refined R st as (do_request ok t Unknown_Type c)"
proof -
  obtain y body where R: "brings R y (of_nat (length body)) body" "length body \<le> 511"
    and d: "receive_decision y (length body) body = NV_unset" using q by auto
  note ok' = sim_client_ok [OF sim me]
  obtain m where r: "client_round R st = bindR (dispatch R NV_unset
      (st\<lparr>connection_status := 3, msg_length := of_nat (length body), msg := m\<rparr>)) (\<lambda>st. ret (True, st))"
    using client_round_decides [OF ok'(1) R] unfolding d by blast
  let ?s = "st\<lparr>connection_status := 3, msg_length := of_nat (length body), msg := m\<rparr>"
  have "sim ?s as c" using ok'(1) by (intro sim_round_same [OF sim me]) (simp_all add: unmoved_def)
  then show ?thesis using r by (simp add: refined_def dispatch_def)
qed

lemma refine_request:
  assumes "sim st as c" and "me c = Some i" and "asks R q" and "memory_ok R st"
  shows "refined R st as (do_request (mq_send_ok R) (stamp_value (net_env R) True) q c)"
proof (cases q)
  case (Login_As nm)
  then show ?thesis using refine_login [OF assms(1,2) _ assms(4)] assms(3) by simp
next
  case (Say body)
  then show ?thesis using refine_say [OF assms(1,2)] assms(3) by simp
next
  case (Order body)
  then show ?thesis using refine_order [OF assms(1,2)] assms(3) by simp
next
  case Ill_Formed
  then show ?thesis using refine_ill_formed [OF assms(1,2)] assms(3) by blast
next
  case Unknown_Type
  then show ?thesis using refine_unknown [OF assms(1,2)] assms(3) by blast
qed

section \<open>Every event\<close>

text \<open>The server's events that are an event of the chat, in a state of the server.\<close>

fun realises :: "server_state \<Rightarrow> chat_event \<Rightarrow> server_event list \<Rightarrow> bool" where
  "realises st (Joins E sk) es \<longleftrightarrow> (\<exists>t a. es = [Connect t sk (Some a)] \<and> heap (users (ustore st)) a = None)"
| "realises st (Asks E ok q) es \<longleftrightarrow> (\<exists>R. es = [Round R] \<and> asks R q \<and> mq_send_ok R = ok \<and> net_env R = E \<and> memory_ok R st)"
| "realises st (Quits E) es \<longleftrightarrow> (\<exists>G. es = [Round G, Leave E] \<and> gone G)"
| "realises st (Delivers E) es \<longleftrightarrow> es = [Agent E, Agent E, Agent E, Agent E]"

lemma refine_joins:
  assumes sim: "sim st as c" and new: "sk \<notin> m_sock ` set (members c)" and a: "heap (users (ustore st)) a = None"
  shows "\<exists>st'. server_run [Connect t sk (Some a)] st = Some (ret st') \<and> sim st' (as @ [a]) (fst (do_connect sk c))
    \<and> outbox st' = outbox st"
proof -
  have ms: "members c = map (\<lambda>a. member_of (user_at (ustore st) a)) as" using sim by (simp add: sim_def)
  then have "sk \<notin> sock ` user_at (ustore st) ` set as" using new by (auto simp: image_image)
  from create_inv [OF sim_inv [OF sim] this a, of t] obtain us where
    us: "create_User t sk (Some a) (ustore st) = ret (Some a, us)" "users_inv_at us (as @ [a])"
    "user_at us a = new_user t sk" "\<forall>b \<in> set as. user_at us b = user_at (ustore st) b" by blast
  let ?s = "st\<lparr>ustore := us, self := Some a, msg := msg_zero, msg_length := 0,
    disconnect_reason := CD_communication_error\<rparr>"
  have "client_begin t sk (Some a) st = ret ?s" using us(1) by (simp add: client_begin_def)
  moreover have "member_of (new_user t sk) = \<lparr>m_sock = sk, m_name = [], m_len = 0, m_in = False, m_kicked = False\<rparr>"
    by (simp add: member_of_def new_user_def display_name_def)
  then have "sim ?s (as @ [a]) (fst (do_connect sk c))"
    using sim us(2-4) tidy_new [of t sk] ms
    by (auto simp: sim_def server_ok_def do_connect_def server_string_def admin_string_def)
  ultimately show ?thesis by simp
qed

lemma refine_quits:
  assumes sim: "sim st as c" and me: "me c = Some i" and G: "gone G"
  shows "\<exists>st'. server_run [Round G, Leave E] st = Some (ret st')
    \<and> sim st' (take i as @ drop (Suc i) as) (fst (do_leave (stamp_value E True) c))
    \<and> outbox st' = outbox st @ on_sockets E (snd (do_leave (stamp_value E True) c))"
proof -
  note ok = sim_client_ok [OF sim me]
  let ?s = "st\<lparr>msg := msg_zero, connection_status := left_status G\<rparr>" and ?a = "as ! i"
  let ?xs = "take i as" and ?ys = "drop (Suc i) as"
  have r: "client_round G st = ret (False, ?s)" by (rule client_round_gone [OF ok(1) G])
  have as: "as = ?xs @ ?a # ?ys" using ok(4) by (rule id_take_nth_drop)
  have ok': "client_ok ?s as ?a" using ok(1) by simp
  have "connection_status ?s \<le> 0" by (simp add: left_status_def)
  from client_end_effect [OF ok' as _ this, of E] obtain st' where st': "client_end E ?s = ret st'"
    "users_inv_at (ustore st') (?xs @ ?ys)" "\<forall>b \<in> set (?xs @ ?ys). user_at (ustore st') b = user_at (ustore st) b"
    "closed_socks st' = closed_socks st @ [sock (own_user st)]" "broadcast_queue st' = broadcast_queue st"
    "outbox st' = outbox st @ leave_output E ?s as ?a" "broadcast_sem st' = broadcast_sem st"
    "broadcast_Paused st' = broadcast_Paused st" "conf st' = conf st" "logs st' = logs st"
    "mq_maxmsg st' = mq_maxmsg st" "agent_pc st' = agent_pc st" by auto
  have ms: "map (\<lambda>b. member_of (user_at (ustore st') b)) (?xs @ ?ys) = other_members c"
    unfolding sim_others [OF sim me, symmetric] using st'(3) by (intro map_cong) auto
  have tidy: "\<forall>b \<in> set (?xs @ ?ys). tidy_user (user_at (ustore st') b)"
    using sim st'(3) by (auto simp: sim_def dest: in_set_takeD in_set_dropD)
  have so: "server_ok st' (?xs @ ?ys)" using sim st'(2,7-10) by (simp add: sim_def server_ok_def)
  have str: "server_string st' = server_string st" "admin_string st' = admin_string st"
    using st'(9) by (simp_all add: server_string_def admin_string_def)
  have sk: "m_sock (own_member c) = sock (own_user st)" using ok(3) by simp
  have sim': "sim st' (?xs @ ?ys) (fst (do_leave (stamp_value E True) c))"
    unfolding sim_def do_leave_def fst_conv using so tidy ms
  proof (intro conjI, goal_cases)
    case 4
    then show ?case by simp
  next
    case 5
    then show ?case using sim st'(5) by (simp add: sim_def)
  next
    case 8
    then show ?case using sim st'(4) sk by (simp add: sim_def)
  qed (use sim st'(8,11,12) str in \<open>simp_all add: sim_def\<close>)
  let ?w = "User_Removed (stamp_value E True) (if m_kicked (own_member c) then CD_kicked_from_the_server
    else CD_communication_error) (told_name (own_member c))"
  have dr: "disconnect_reason st = CD_communication_error" using sim me by (simp add: sim_def)
  have "tidy_user (own_user st)" using sim ok(2,4) by (simp add: sim_def)
  from told_name_notice [OF this] have w: "leave_notice E ?s = ?w"
    using dr ok(3) by (simp add: leave_notice_def leave_code_def)
  have f: "filter (\<lambda>b. b \<noteq> ?a \<and> logged_in (user_at (ustore st) b)) as =
      filter (\<lambda>b. logged_in (user_at (ustore st) b)) (?xs @ ?ys)"
    by (rule filter_others [OF sim_distinct [OF sim] ok(4)])
  have z: "m_len (own_member c) = 0 \<longleftrightarrow> name_length (own_user st) = 0"
    using ok(3) by (simp add: unat_eq_0)
  have "leave_output E ?s as ?a = on_sockets E (snd (do_leave (stamp_value E True) c))"
    unfolding leave_output_def w do_leave_def snd_conv z sim_others [OF sim me, symmetric]
    by (simp add: tell_users f del: map_append filter_append)
  then show ?thesis using r st'(1,6) sim' by simp
qed

lemma refine_delivers:
  assumes sim: "sim st as c" and p: "pending c \<noteq> []" "\<not> paused c"
  shows "\<exists>st'. server_run [Agent E, Agent E, Agent E, Agent E] st = Some (ret st')
    \<and> sim st' as (fst (do_deliver c)) \<and> outbox st' = outbox st @ on_sockets E (snd (do_deliver c))"
proof -
  obtain w ws where w: "pending c = w # ws" using p(1) by (cases "pending c") auto
  then obtain q qs where q: "broadcast_queue st = q # qs" "on_its_way q w" "list_all2 on_its_way qs ws"
    using sim by (auto simp: sim_def list_all2_Cons2)
  have s: "agent_pc st = Some At_Receive" "broadcast_sem st = 1"
    using sim p(2) by (simp_all add: sim_def server_ok_def)
  have m: "sender q = None" "carries_frame E (qmsg q) (msg_type w) (msg_body w)"
    using q(2) by (simp_all add: on_its_way_iff [of q w E])
  let ?s = "st\<lparr>broadcast_queue := qs, agent_buffer := Some q,
    outbox := outbox st @ broadcast_output E (ustore st) as (sender q) (frame (msg_type w) (msg_body w)),
    broadcast_sem := 1, agent_pc := Some At_Receive\<rparr>"
  have "server_run [Agent E, Agent E, Agent E, Agent E] st = Some (ret ?s)"
    by (rule agent_turn_eq [OF sim_at [OF sim] s q(1) m(2)])
  moreover have "sim ?s as (fst (do_deliver c))"
    unfolding sim_def do_deliver_def fst_conv
  proof (intro conjI, goal_cases)
    case 1
    then show ?case using sim p(2) by (simp add: sim_def server_ok_def)
  next
    case 5
    then show ?case using q(3) w by simp
  qed (use sim in \<open>simp_all add: sim_def server_string_def admin_string_def\<close>)
  moreover have "broadcast_output E (ustore st) as (sender q) (frame (msg_type w) (msg_body w)) =
      on_sockets E (snd (do_deliver c))"
    using tell_everybody [OF sim, of E w] m(1) w by (simp add: do_deliver_def encode_def)
  ultimately show ?thesis by simp
qed

lemma refine_event:
  assumes "sim st as c" and "possible e c" and "realises st e es"
  shows "\<exists>st' as'. server_run es st = Some (ret st') \<and> sim st' as' (fst (chat_step e c))
    \<and> outbox st' = outbox st @ on_sockets (event_env e) (snd (chat_step e c))"
proof (cases e)
  case (Joins E sk)
  then obtain t a where "es = [Connect t sk (Some a)]" "heap (users (ustore st)) a = None" using assms(3) by auto
  then show ?thesis using refine_joins [OF assms(1), of sk a t] assms(2) Joins by (fastforce simp: do_connect_def)
next
  case (Asks E ok q)
  then obtain R i where "es = [Round R]" "asks R q" "mq_send_ok R = ok" "net_env R = E" "memory_ok R st" "me c = Some i"
    using assms(2,3) by auto
  with refine_request [OF assms(1), of i R q] Asks show ?thesis by (auto simp: refined_def)
next
  case (Quits E)
  then obtain G i where "es = [Round G, Leave E]" "gone G" "me c = Some i" using assms(2,3) by auto
  with refine_quits [OF assms(1), of i G E] Quits show ?thesis by auto
next
  case (Delivers E)
  then have "es = [Agent E, Agent E, Agent E, Agent E]" "pending c \<noteq> []" "\<not> paused c" using assms(2,3) by auto
  with refine_delivers [OF assms(1), of E] Delivers show ?thesis by auto
qed

section \<open>Whole runs\<close>

lemma server_run_append:
  "server_run es st = Some (ret st1) \<Longrightarrow> server_run (es @ fs) st = server_run fs st1"
  by (induction es arbitrary: st) (auto split: option.splits sum.splits)

text \<open>A run of the server that plays a run of the chat: each event of the chat with the server's
  events that realise it in the state the run has reached.\<close>

fun plays :: "server_state \<Rightarrow> (chat_event \<times> server_event list) list \<Rightarrow> bool" where
  "plays st [] = True"
| "plays st ((e, es) # ps) \<longleftrightarrow> realises st e es
     \<and> (case server_run es st of Some (Some (Inr st')) \<Rightarrow> plays st' ps | _ \<Rightarrow> True)"

lemma refine_run:
  assumes "sim st as c" and "plays st ps" and "chat_run (map fst ps) c = Some (c', bs)"
  shows "\<exists>st' as'. server_run (concat (map snd ps)) st = Some (ret st') \<and> sim st' as' c' \<and> outbox st' = outbox st @ bs"
  using assms
proof (induction ps arbitrary: st as c bs)
  case Nil
  then show ?case by auto
next
  case (Cons p ps)
  obtain e es where p: "p = (e, es)" by fastforce
  obtain bs' where pos: "possible e c" and rest: "chat_run (map fst ps) (fst (chat_step e c)) = Some (c', bs')"
    and bs: "bs = on_sockets (event_env e) (snd (chat_step e c)) @ bs'"
    using Cons.prems(3) p by (auto split: if_splits)
  have re: "realises st e es" using Cons.prems(2) p by simp
  obtain st1 as1 where st1: "server_run es st = Some (ret st1)" "sim st1 as1 (fst (chat_step e c))"
    "outbox st1 = outbox st @ on_sockets (event_env e) (snd (chat_step e c))"
    using refine_event [OF Cons.prems(1) pos re] by blast
  have "plays st1 ps" using Cons.prems(2) p st1(1) by simp
  from Cons.IH [OF st1(2) this rest] show ?case
    using st1(3) bs p by (auto simp: server_run_append [OF st1(1)])
qed

end
