(* ===== verification/Chat_Theorems.thy ===== *)
theory Chat_Theorems
  imports Chat_Refinement Application_Start
begin

text \<open>
  The whole program as a chat: from the command line on, every run of the server is a run of the
  chat of \<^verbatim>\<open>Chat_Spec\<close>, and what holds of all runs of the chat holds of the users in the server's
  memory.
\<close>

section \<open>The started server\<close>

definition new_chat :: "nat \<Rightarrow> byte list \<Rightarrow> byte list \<Rightarrow> chat" where
  "new_chat n s a = \<lparr>members = [], me = None, pending = [], room = n, paused = False, closed = [],
     srv = s, adm = a\<rparr>"

lemma started_sim:
  assumes "application_Startup OS argc opts rest app_initial = ret (Running st)"
    and "name_memory OS = Some e" and "queue_left_over OS = Some []" and "agent_thread_ok OS"
  shows "sim (server st) [] (new_chat 10 (server_string (server st)) (admin_string (server st)))"
    and "outbox (server st) = []"
proof -
  have "heap (thread_names (logs (server app_initial))) e = None"
    by (simp add: app_initial_def server_state.defs broadcast_state.defs log_initial_def dll_empty_def)
  note s = startup_server [OF assms(1) app_initial_ok assms(2) this assms(3,4)]
  then have "server_ok (server st) []" "agent_pc (server st) = Some At_Receive" "mq_maxmsg (server st) = 10"
    "broadcast_queue (server st) = []" "\<not> broadcast_Paused (server st)" "closed_socks (server st) = []"
    by (simp_all add: Is_broadcast_paused_def)
  then show "sim (server st) [] (new_chat 10 (server_string (server st)) (admin_string (server st)))"
    by (simp add: sim_def new_chat_def)
  show "outbox (server st) = []" using s by simp
qed

lemma started_run:
  assumes "application_Startup OS argc opts rest app_initial = ret (Running st)"
    and "name_memory OS = Some e" and "queue_left_over OS = Some []" and "agent_thread_ok OS"
    and "plays (server st) ps"
    and "chat_run (map fst ps) (new_chat 10 (server_string (server st)) (admin_string (server st))) = Some (c, bs)"
  shows "\<exists>st' as. server_run (concat (map snd ps)) (server st) = Some (ret st') \<and> sim st' as c \<and> outbox st' = bs"
  using refine_run [OF started_sim(1) [OF assms(1-4)] assms(5,6)] started_sim(2) [OF assms(1-4)] by simp


section \<open>Names\<close>

text \<open>Whether every login of a run is the first one of its client.\<close>

fun first_logins :: "chat_event list \<Rightarrow> chat \<Rightarrow> bool" where
  "first_logins [] c = True"
| "first_logins (e # es) c \<longleftrightarrow>
     (case e of Asks E ok (Login_As nm) \<Rightarrow> \<not> m_in (own_member c) | _ \<Rightarrow> True)
     \<and> first_logins es (fst (chat_step e c))"

definition names_distinct :: "member list \<Rightarrow> bool" where
  "names_distinct ms \<longleftrightarrow> distinct (map m_name (filter m_in ms)) \<and> (\<forall>m \<in> set ms. \<not> m_in m \<longrightarrow> m_name m = [])"

text \<open>Only names and logins matter for it.\<close>

definition name_and_login :: "member \<Rightarrow> byte list \<times> bool" where
  "name_and_login m = (m_name m, m_in m)"

lemma names_distinct_cong:
  assumes "map name_and_login ms' = map name_and_login ms"
  shows "names_distinct ms' = names_distinct ms"
proof -
  have "names_distinct ks \<longleftrightarrow> distinct (map fst (filter snd (map name_and_login ks)))
      \<and> (\<forall>p \<in> set (map name_and_login ks). \<not> snd p \<longrightarrow> fst p = [])" for ks
    by (simp add: names_distinct_def name_and_login_def filter_map comp_def)
  then show ?thesis using assms by presburger
qed

lemma names_distinct_marked:
  "kick_first n ms = Some (sk, ms') \<Longrightarrow> map name_and_login ms' = map name_and_login ms"
  by (induction ms arbitrary: ms') (auto simp: name_and_login_def split: if_splits)

lemma names_distinct_update:
  assumes "names_distinct ms" and "i < length ms" and "m_name m = m_name (ms ! i)" and "m_in m = m_in (ms ! i)"
  shows "names_distinct (ms[i := m])"
proof -
  have "map name_and_login (ms[i := m]) = (map name_and_login ms)[i := name_and_login (ms ! i)]"
    using assms(3,4) by (simp add: map_update name_and_login_def)
  also have "\<dots> = map name_and_login ms" using assms(2) by (simp flip: map_update)
  finally show ?thesis using names_distinct_cong assms(1) by blast
qed

lemma names_distinct_login:
  assumes "names_distinct ms" and "i < length ms" and "\<not> m_in (ms ! i)"
    and "\<not> (\<exists>m \<in> set ms. m_in m \<and> m_name m = nm)"
  shows "names_distinct (ms[i := renamed nm (ms ! i)])"
proof -
  have s: "ms = take i ms @ ms ! i # drop (Suc i) ms" using assms(2) by (rule id_take_nth_drop)
  have u: "ms[i := renamed nm (ms ! i)] = take i ms @ renamed nm (ms ! i) # drop (Suc i) ms"
    using assms(2) by (rule upd_conv_take_nth_drop)
  have d: "names_distinct (take i ms @ ms ! i # drop (Suc i) ms)" using assms(1) s by simp
  then have "m_name (ms ! i) = []" using assms(3) by (simp add: names_distinct_def)
  then have nm: "m_name (renamed nm (ms ! i)) = nm" "m_in (renamed nm (ms ! i))" by (simp_all add: renamed_def)
  have "nm \<notin> m_name ` {m \<in> set (take i ms) \<union> set (drop (Suc i) ms). m_in m}"
    using assms(4) by (auto dest: in_set_takeD in_set_dropD)
  then show ?thesis unfolding u using d nm assms(3) by (auto simp: names_distinct_def)
qed

text \<open>The member served is one of the members.\<close>

definition served :: "chat \<Rightarrow> bool" where
  "served c \<longleftrightarrow> (\<forall>i. me c = Some i \<longrightarrow> i < length (members c))"

lemma length_kick: "kick_first n ms = Some (sk, ms') \<Longrightarrow> length ms' = length ms"
  by (induction ms arbitrary: ms') (auto split: if_splits)

lemma order_keeps:
  assumes "names_distinct (members c)" and "served c"
  shows "names_distinct (members (fst (do_order t body c))) \<and> served (fst (do_order t body c))"
proof -
  have kick: "names_distinct (members (fst (do_kick t body c))) \<and> served (fst (do_kick t body c))"
  proof (cases "\<exists>nk sk ms. kick_argument (body @ [0]) = ret (Some nk)
      \<and> kick_first (takeWhile (\<lambda>b. b \<noteq> 0) nk) (members c) = Some (sk, ms)")
    case True
    then obtain nk sk ms where k: "kick_argument (body @ [0]) = ret (Some nk)"
      "kick_first (takeWhile (\<lambda>b. b \<noteq> 0) nk) (members c) = Some (sk, ms)" by blast
    have "names_distinct ms" using names_distinct_cong [OF names_distinct_marked [OF k(2)]] assms(1) by simp
    then show ?thesis using k length_kick [OF k(2)] assms(2) by (simp add: do_kick_def served_def)
  next
    case False
    then have "fst (do_kick t body c) = c"
      by (auto simp: do_kick_def Let_def split: option.splits sum.splits)
    then show ?thesis using assms by simp
  qed
  show ?thesis
  proof (cases "m_name (own_member c) = adm c")
    case True
    then show ?thesis using assms kick
      by (cases "the_ret (get_server_command (body @ [0]))")
        (simp_all add: do_order_def do_pause_def do_resume_def do_help_def served_def)
  qed (use assms in \<open>simp add: do_order_def\<close>)
qed

lemma login_keeps:
  assumes "names_distinct (members c)" and "served c" and "me c = Some i" and "\<not> m_in (own_member c)"
  shows "names_distinct (members (fst (do_login ok t nm c))) \<and> served (fst (do_login ok t nm c))"
proof (cases "login_result nm c = LR_success")
  case True
  then have free: "\<not> (\<exists>m \<in> set (members c). m_in m \<and> m_name m = nm)"
    by (auto simp: login_result_def split: if_splits)
  have i: "i < length (members c)" "own_member c = members c ! i"
    using assms(2,3) by (simp_all add: served_def own_member_def)
  then have "names_distinct ((members c)[i := renamed nm (own_member c)])"
    using names_distinct_login [OF assms(1) i(1) _ free] assms(4) by simp
  then show ?thesis using True assms(2,3) by (simp add: do_login_def served_def Let_def)
qed (use assms in \<open>simp add: do_login_def Let_def\<close>)

lemma step_keeps:
  assumes n: "names_distinct (members c)" and s: "served c" and p: "possible e c"
    and first: "case e of Asks E ok (Login_As nm) \<Rightarrow> \<not> m_in (own_member c) | _ \<Rightarrow> True"
  shows "names_distinct (members (fst (chat_step e c))) \<and> served (fst (chat_step e c))"
proof (cases e)
  case (Joins E sk)
  then show ?thesis using n by (simp add: do_connect_def names_distinct_def served_def)
next
  case (Quits E)
  obtain i where "me c = Some i" using p Quits by auto
  then have i: "i < length (members c)" using s by (simp add: served_def)
  have "names_distinct (take i (members c) @ members c ! i # drop (Suc i) (members c))"
    using n i by (simp flip: id_take_nth_drop)
  then have "names_distinct (take i (members c) @ drop (Suc i) (members c))"
    by (auto simp: names_distinct_def split: if_splits)
  then show ?thesis using Quits \<open>me c = Some i\<close> by (simp add: do_leave_def served_def other_members_def)
next
  case (Delivers E)
  then show ?thesis using n s by (simp add: do_deliver_def served_def)
next
  case (Asks E ok q)
  then obtain i where me: "me c = Some i" using p by auto
  have i: "i < length (members c)" "own_member c = members c ! i"
    using s me by (simp_all add: served_def own_member_def)
  show ?thesis
  proof (cases q)
    case (Login_As nm)
    then show ?thesis using login_keeps [OF n s me] first Asks by simp
  next
    case (Say body)
    then show ?thesis using n s Asks by (simp add: do_say_def served_def)
  next
    case (Order body)
    then show ?thesis using order_keeps [OF n s] Asks by simp
  next
    case Ill_Formed
    then show ?thesis using names_distinct_update [OF n i(1)] s Asks me i(2) by (simp add: served_def)
  next
    case Unknown_Type
    then show ?thesis using n s Asks by simp
  qed
qed

lemma run_keeps:
  assumes "names_distinct (members c)" and "served c" and "first_logins es c" and "chat_run es c = Some (c', bs)"
  shows "names_distinct (members c')"
  using assms
proof (induction es arbitrary: c bs)
  case (Cons e es)
  then obtain bs' where p: "possible e c" and r: "chat_run es (fst (chat_step e c)) = Some (c', bs')"
    by (auto split: if_splits)
  have "names_distinct (members (fst (chat_step e c))) \<and> served (fst (chat_step e c))"
    using Cons.prems(3) by (intro step_keeps [OF Cons.prems(1,2) p]) simp
  then show ?case using Cons.IH [OF _ _ _ r] Cons.prems(3) by simp
qed simp

lemma sim_names_distinct:
  assumes sim: "sim st as c" and n: "names_distinct (members c)" and ab: "a \<in> set as" "b \<in> set as" "a \<noteq> b"
    and i: "logged_in (user_at (ustore st) a)" "logged_in (user_at (ustore st) b)"
  shows "display_name (user_at (ustore st) a) \<noteq> display_name (user_at (ustore st) b)"
proof -
  let ?as = "filter (\<lambda>a. logged_in (user_at (ustore st) a)) as"
  have "members c = map (\<lambda>a. member_of (user_at (ustore st) a)) as" using sim by (simp add: sim_def)
  then have "distinct (map (\<lambda>a. display_name (user_at (ustore st) a)) ?as)"
    using n by (simp add: names_distinct_def filter_map comp_def)
  moreover have "a \<in> set ?as" "b \<in> set ?as" using ab i by simp_all
  ultimately show ?thesis using ab(3) unfolding distinct_map inj_on_def by blast
qed

text \<open>C10: Names are unique in sequential runs as long as nobody logs in twice: after every run of
  the started server made of whole rounds one after another, each a well-posed request of the client
  that connected last, of connections, ends of that client's connection and turns of the agent, in which
  each login is the first one of its client, no two users that are logged in show the same name. The
  check of a name and the login are two calls; logins whose calls interleave are not such runs.\<close>

theorem names_stay_distinct:
  assumes "application_Startup OS argc opts rest app_initial = ret (Running st)"
    and "name_memory OS = Some e" and "queue_left_over OS = Some []" and "agent_thread_ok OS"
    and "plays (server st) ps"
    and "chat_run (map fst ps) (new_chat 10 (server_string (server st)) (admin_string (server st))) = Some (c, bs)"
    and "first_logins (map fst ps) (new_chat 10 (server_string (server st)) (admin_string (server st)))"
  shows "\<exists>st' as. server_run (concat (map snd ps)) (server st) = Some (ret st') \<and> users_inv_at (ustore st') as
    \<and> (\<forall>a \<in> set as. \<forall>b \<in> set as. a \<noteq> b \<and> logged_in (user_at (ustore st') a) \<and> logged_in (user_at (ustore st') b) \<longrightarrow>
         display_name (user_at (ustore st') a) \<noteq> display_name (user_at (ustore st') b))"
proof -
  obtain st' as where st': "server_run (concat (map snd ps)) (server st) = Some (ret st')" "sim st' as c"
    using started_run [OF assms(1-6)] by blast
  let ?c = "new_chat 10 (server_string (server st)) (admin_string (server st))"
  have "names_distinct (members ?c)" "served ?c" by (simp_all add: new_chat_def names_distinct_def served_def)
  then have "names_distinct (members c)" by (rule run_keeps [OF _ _ assms(7,6)])
  then show ?thesis using st' sim_inv [OF st'(2)] sim_names_distinct [OF st'(2)] by blast
qed

section \<open>An example\<close>

text \<open>A client connects, logs in, says something and leaves; the agent takes its turns.\<close>

definition silent_round :: "u8 \<Rightarrow> byte list \<Rightarrow> round_input" where
  "silent_round t body = (example_round t body)\<lparr>entry_memory := None\<rparr>"

definition example_play :: "(chat_event \<times> server_event list) list" where
  "example_play =
     [(Joins example_env 7, [Connect 9 7 (Some 3)]),
      (Asks example_env True (Login_As [67, 68]), [Round (silent_round 0 (login_body [67, 68]))]),
      (Asks example_env True (Say [72, 105]), [Round (silent_round 2 [72, 105])]),
      (Delivers example_env, [Agent example_env, Agent example_env, Agent example_env, Agent example_env]),
      (Delivers example_env, [Agent example_env, Agent example_env, Agent example_env, Agent example_env])]"

lemma example_plays:
  assumes "heap (users (ustore st)) 3 = None"
  shows "plays st example_play"
proof -
  have b: "brings (silent_round t body) t (of_nat (length body)) body" for t body
    using example_round_brings [of t body] by (simp add: silent_round_def brings_def)
  have m: "memory_ok (silent_round t body) s" for t body s by (simp add: silent_round_def memory_ok_def)
  have f: "mq_send_ok (silent_round t body)" "net_env (silent_round t body) = example_env" for t body
    by (simp_all add: silent_round_def example_round_def)
  have "asks (silent_round 2 [72, 105]) (Say [72, 105])" using b [of 2 "[72, 105]"] by simp
  then have say: "realises s (Asks example_env True (Say [72, 105])) [Round (silent_round 2 [72, 105])]" for s
    using m f by (simp del: asks.simps)
  have "asks (silent_round 0 (login_body [67, 68])) (Login_As [67, 68])"
    using b [of 0 "login_body [67, 68]"] by (simp add: login_len_def)
  then have login: "realises s (Asks example_env True (Login_As [67, 68])) [Round (silent_round 0 (login_body [67, 68]))]" for s
    using m f by (simp del: asks.simps)
  have join: "realises st (Joins example_env 7) [Connect 9 7 (Some 3)]" using assms by simp
  show ?thesis
    unfolding example_play_def using say login join
    by (simp del: realises.simps(1,2) server_run.simps split: option.split sum.split)
qed

definition example_result :: "(chat \<times> (u16 \<times> byte list) list) option" where
  "example_result = chat_run (map fst example_play) (new_chat 10 (bytes_of ''Server_04'') (bytes_of ''Admin''))"

lemma example_result_ok:
  "example_result \<noteq> None" "map fst (snd (the example_result)) = [7, 7, 7]"
  "first_logins (map fst example_play) (new_chat 10 (bytes_of ''Server_04'') (bytes_of ''Admin''))"
  by code_simp+

lemma example_started:
  obtains st where "application_Startup example_os 1 [] [] app_initial = ret (Running st)"
    and "plays (server st) example_play" and "server_string (server st) = bytes_of ''Server_04''"
    and "admin_string (server st) = bytes_of ''Admin''"
proof -
  obtain st where st: "application_Startup example_os 1 [] [] app_initial = ret (Running st)" "app_ok st"
    "conf (server st) = config_initial"
    using default_start [of example_os 0 "[]" "[]"] example_clock by (auto simp: example_os_fields)
  have "takeWhile (\<lambda>c. c \<noteq> 0) (server_name config_initial) = bytes_of ''Server_04''"
    "takeWhile (\<lambda>c. c \<noteq> 0) (admin_name config_initial) = bytes_of ''Admin''" by code_simp+
  then have "server_string (server st) = bytes_of ''Server_04''" "admin_string (server st) = bytes_of ''Admin''"
    using st(3) by (simp_all add: server_string_def admin_string_def)
  moreover have "heap (users (ustore (server st))) 3 = None"
    using st(2) by (simp add: app_ok_def users_initial_def dll_empty_def)
  ultimately show thesis using that [OF st(1) example_plays] by blast
qed


theorem names_stay_distinct_witness:
  "\<exists>st st' as. application_Startup example_os 1 [] [] app_initial = ret (Running st)
    \<and> server_run (concat (map snd example_play)) (server st) = Some (ret st') \<and> users_inv_at (ustore st') as"
proof -
  obtain st where st: "application_Startup example_os 1 [] [] app_initial = ret (Running st)"
    "plays (server st) example_play" "server_string (server st) = bytes_of ''Server_04''"
    "admin_string (server st) = bytes_of ''Admin''"
    using example_started .
  obtain c bs where "example_result = Some (c, bs)" using example_result_ok(1) by (cases example_result) auto
  then have r: "chat_run (map fst example_play) (new_chat 10 (server_string (server st)) (admin_string (server st))) = Some (c, bs)"
    unfolding st(3,4) example_result_def [symmetric] .
  have "first_logins (map fst example_play) (new_chat 10 (server_string (server st)) (admin_string (server st)))"
    unfolding st(3,4) by (rule example_result_ok(3))
  from names_stay_distinct [OF st(1) example_os_fields(2-4) st(2) r this] st(1) show ?thesis by blast
qed

end
