(* ===== verification/Threads.thy ===== *)
theory Threads
  imports Chat_Server
begin

text \<open>
  The threads of the server step by step: the body of \<^verbatim>\<open>client_Thread\<close> in
  \<^verbatim>\<open>src/src/clientthread.c\<close> and the loop of \<^verbatim>\<open>broadcast_agent\<close> as lists of instructions, one for each
  call of a function that reads or writes what the threads share. A thread keeps the instructions
  that are left and its local variables in them; between two instructions of one thread any other
  thread can run. An instruction that has to wait, for the mutex of the user list, the semaphore,
  room in the message queue or a message, is not executed (\<open>None\<close>).

  \<open>Client\<close> has the same handlers as functions on the state; \<open>leads\<close> below takes the instructions of a
  handler along such a function.
\<close>

section \<open>Instructions\<close>

text \<open>The five loops over the users, with what they do to a user in their tests and bodies.\<close>

datatype walk = Old_Users | Logged_In | Others | Kicked "byte list option" | Delivery

datatype instr =
    I_Find_socket nat u16 "nat option"
  | I_Add_user nat u16 "nat option"
  | I_Begin "nat option"
  | I_Top
  | I_Check
  | I_Length
  | I_Receive
  | I_Copy_name
  | I_Name_free "byte list"
  | I_Build_login login_response_code
  | I_Login "byte list"
  | I_Register
  | I_Build_added
  | I_Build_old nat
  | I_Build_text
  | I_Queue "instr list"
  | I_Mq_send queue_message "instr list"
  | I_Respond "byte list"
  | I_Send_self
  | I_Clear
  | I_Is_admin
  | I_Command
  | I_Kick_name
  | I_Not_found "byte list option"
  | I_Close nat
  | I_Mark nat
  | I_Pause
  | I_Sem_wait
  | I_Set_paused
  | I_Resume
  | I_Sem_post
  | I_Unset_paused
  | I_Build_help AC_Command_Data
  | I_Invalid
  | I_Shutdown
  | I_Logout
  | I_Reason
  | I_Has_name
  | I_Build_removed
  | I_Close_self
  | I_Find_own
  | I_Unlink nat
  | I_Lock walk
  | I_Target walk "nat option"
  | I_Next walk nat
  | I_Send_to nat
  | I_Unlock
  | A_Receive
  | A_Wait
  | A_Send_to nat
  | A_Post

section \<open>What the handlers do next\<close>

definition login_answer :: "login_response_code \<Rightarrow> byte list \<Rightarrow> instr list" where
  "login_answer response_Code login_name =
     [I_Build_login response_Code, I_Send_self, I_Clear]
     @ (if response_Code = LR_success
        then [I_Login login_name, I_Register, I_Clear, I_Build_added, I_Queue [], I_Clear, I_Lock Old_Users]
        else [])"

definition queue_full :: "instr list" where
  "queue_full = [I_Respond (bytes_of ''Message Queue is sadly full, wait for admin to resume chat''), I_Send_self]"

definition not_admin :: "instr list" where
  "not_admin = [I_Respond (bytes_of ''Caution! You dont have required permissions for [server_commands]''), I_Send_self]"

definition help_code :: "AC_Command_Data list \<Rightarrow> instr list" where
  "help_code ds = concat (map (\<lambda>d. [I_Build_help d, I_Send_self, I_Clear]) ds)"

definition command_code :: "admin_command_code \<Rightarrow> instr list" where
  "command_code c = (case c of
       AC_Kick \<Rightarrow> [I_Kick_name]
     | AC_Pause \<Rightarrow> [I_Pause]
     | AC_Resume \<Rightarrow> [I_Resume]
     | AC_Help \<Rightarrow> help_code All_Admin_Commands_Data
     | _ \<Rightarrow> [I_Invalid, I_Send_self])"

definition handler_code :: "network_validation_code \<Rightarrow> instr list" where
  "handler_code v = (case v of
       NV_Received_login \<Rightarrow> [I_Copy_name]
     | NV_Received_Message \<Rightarrow> [I_Build_text, I_Queue queue_full]
     | NV_Received_Server_command \<Rightarrow> [I_Is_admin]
     | NV_unset \<Rightarrow> []
     | _ \<Rightarrow> [I_Shutdown])"

definition leave_code_of :: "instr list" where
  "leave_code_of = [I_Logout, I_Reason, I_Has_name, I_Close_self, I_Find_own]"

section \<open>The loops over the users\<close>

definition walk_test :: "walk \<Rightarrow> nat \<Rightarrow> server_state \<Rightarrow> bool res" where
  "walk_test w target st = (case w of
       Old_Users \<Rightarrow> if Some target \<noteq> self st then is_User_LoggedIn (Some target) (ustore st) else ret False
     | Logged_In \<Rightarrow> logged_in_test target st
     | Others \<Rightarrow> others_test target st
     | Kicked name_to_kick \<Rightarrow>
         bindR (get_User_name (Some target) (ustore st)) (\<lambda>nm.
           (case name_to_kick of
              None \<Rightarrow> fail Uninit_Read
            | Some nk \<Rightarrow> bindR (c_streq nm nk) (\<lambda>eq.
                if eq then is_User_LoggedIn (Some target) (ustore st) else ret False)))
     | Delivery \<Rightarrow> (case agent_buffer st of
           None \<Rightarrow> fail Uninit_Read
         | Some buffer \<Rightarrow>
             if Some target \<noteq> sender buffer then is_User_LoggedIn (Some target) (ustore st) else ret False))"

text \<open>What the body does to a user the test admits; the kick leaves its loop.\<close>

definition walk_body :: "walk \<Rightarrow> nat \<Rightarrow> instr list" where
  "walk_body w target = (case w of
       Old_Users \<Rightarrow> [I_Build_old target, I_Send_self, I_Clear, I_Next w target]
     | Logged_In \<Rightarrow> [I_Send_to target, I_Next w target]
     | Others \<Rightarrow> [I_Send_to target, I_Next w target]
     | Kicked _ \<Rightarrow> [I_Close target, I_Mark target, I_Unlock]
     | Delivery \<Rightarrow> [A_Send_to target, I_Next w target])"

text \<open>What follows when the end of the list is reached.\<close>

definition walk_end :: "walk \<Rightarrow> instr list" where
  "walk_end w = (case w of Kicked name_to_kick \<Rightarrow> [I_Unlock, I_Not_found name_to_kick] | _ \<Rightarrow> [I_Unlock])"

section \<open>Executing an instruction\<close>

text \<open>A call that takes the mutex of the users for as long as it runs.\<close>

definition if_free :: "server_state \<Rightarrow> 'a \<Rightarrow> 'a option" where
  "if_free st r = (if user_lock (ustore st) then None else Some r)"

text \<open>The two halves of \<^verbatim>\<open>create_User\<close> and \<^verbatim>\<open>remove_User\<close>: the mutex is free between the search and
  the change.\<close>

definition add_User :: "nat \<Rightarrow> u16 \<Rightarrow> nat option \<Rightarrow> user_store \<Rightarrow> (nat option \<times> user_store) res" where
  "add_User threadID sk malloc s =
     bindR (lock_user_mutex s) (\<lambda>s.
       (case malloc of
          None \<Rightarrow> ret (None, s)
        | Some a \<Rightarrow>
            bindR (dll_append a (new_user threadID sk) (users s)) (\<lambda>l.
              ret (Some a, unlock_user_mutex (s\<lparr>users := l\<rparr>)))))"

definition unlink_User :: "nat \<Rightarrow> user_store \<Rightarrow> user_store res" where
  "unlink_User p s =
     bindR (lock_user_mutex s) (\<lambda>s.
     bindR (dll_unlink p (users s)) (\<lambda>l.
       ret (unlock_user_mutex (s\<lparr>users := l\<rparr>))))"

abbreviation onward :: "instr list \<Rightarrow> server_state res \<Rightarrow> (server_state \<times> instr list) res option" where
  "onward js r \<equiv> Some (bindR r (\<lambda>st. ret (st, js)))"

text \<open>
  The step of an instruction: the state it leaves and the instructions to do before the ones that
  are left. \<open>R\<close> holds the current message of the thread and the answers of the system.
\<close>

fun exec :: "round_input \<Rightarrow> instr \<Rightarrow> server_state \<Rightarrow> (server_state \<times> instr list) res option" where
  "exec R (I_Find_socket threadID sk malloc) st =
     if_free st (bindR (f_find_User sk (ustore st)) (\<lambda>(found, us).
       ret (st\<lparr>ustore := us\<rparr>, [if found \<noteq> None then I_Begin None else I_Add_user threadID sk malloc])))"
| "exec R (I_Add_user threadID sk malloc) st =
     if_free st (bindR (add_User threadID sk malloc (ustore st)) (\<lambda>(u, us).
       ret (st\<lparr>ustore := us\<rparr>, [I_Begin u])))"
| "exec R (I_Begin u) st =
     Some (ret (st\<lparr>self := u, msg := msg_zero, msg_length := 0,
       disconnect_reason := CD_communication_error\<rparr>, [I_Top]))"
| "exec R I_Top st = onward [I_Check] (bindR (self_sock (clear_msg st)) (\<lambda>_. ret (clear_msg st)))"
| "exec R I_Check st =
     Some (bindR (Check_for_Message (header_io R) (msg st)) (\<lambda>(got, m).
       ret (st\<lparr>connection_status := got, msg := m\<rparr>,
            if got \<le> 0 then leave_code_of else [I_Length, I_Receive, I_Top])))"
| "exec R I_Length st =
     onward [] (ret (st\<lparr>msg_length := ntohs (host (net_env R)) (hdr_length (host (net_env R)) (msg st))\<rparr>))"
| "exec R I_Receive st =
     Some (bindR (self_sock st) (\<lambda>_. bindR (network_Receive (net_env R) (body_io R) (msg st)) (\<lambda>(v, m).
       ret (st\<lparr>msg := m\<rparr>, handler_code v))))"
| "exec R I_Copy_name st =
     Some (bindR (c_strncpy (replicate NET_NAME_LEN 0) 0 (drop off_auth_name (msg st)) (name_size (msg_length st)))
       (\<lambda>login_name. ret (st, [I_Name_free login_name])))"
| "exec R (I_Name_free login_name) st =
     (if user_lock (ustore st) \<and> dfront (users (ustore st)) \<noteq> None then None
      else Some (bindR (login_response_for login_name st) (\<lambda>(response_Code, st).
        ret (st, login_answer response_Code login_name))))"
| "exec R (I_Build_login response_Code) st =
     onward [] (bindR (build_login_response (net_env R) (get_server_name (conf st)) (msg st) response_Code)
       (\<lambda>m. ret (st\<lparr>msg := m\<rparr>)))"
| "exec R (I_Login login_name) st =
     if_free st (bindR (login_User (self st) login_name (of_nat (name_size (msg_length st))) (ustore st))
       (\<lambda>(_, us). ret (st\<lparr>ustore := us\<rparr>, [])))"
| "exec R I_Register st =
     onward [] (bindR (get_User_name (self st) (ustore st)) (\<lambda>nm.
       bindR (register_thread_log_under_Name (file_env R) (entry_memory R) (own_thread R) nm (logs st))
         (\<lambda>(_, lg). ret (st\<lparr>logs := lg\<rparr>))))"
| "exec R I_Build_added st =
     onward [] (bindR (get_User_name (self st) (ustore st)) (\<lambda>nm.
       bindR (get_User_name_length (self st) (ustore st)) (\<lambda>len.
       bindR (build_User_Added (net_env R) (msg st) nm len True) (\<lambda>m. ret (st\<lparr>msg := m\<rparr>)))))"
| "exec R (I_Build_old target) st =
     onward [] (bindR (get_User_name (Some target) (ustore st)) (\<lambda>nm.
       bindR (get_User_name_length (Some target) (ustore st)) (\<lambda>len.
       bindR (build_User_Added (net_env R) (msg st) nm len False) (\<lambda>m. ret (st\<lparr>msg := m\<rparr>)))))"
| "exec R I_Build_text st =
     onward [] (bindR (get_User_name (self st) (ustore st)) (\<lambda>nm.
       bindR (get_User_name_length (self st) (ustore st)) (\<lambda>len.
       bindR (build_Server_to_client (net_env R) (msg st) (msg_length st) nm len) (\<lambda>m. ret (st\<lparr>msg := m\<rparr>)))))"
| "exec R (I_Queue refused) st =
     Some (ret (st, if \<not> length (broadcast_queue st) < mq_maxmsg st then refused
                    else [I_Mq_send \<lparr>sender = None, qmsg = msg st\<rparr> refused]))"
| "exec R (I_Mq_send loc_msg refused) st =
     (if \<not> mq_send_ok R then Some (ret (st, refused))
      else if \<not> length (broadcast_queue st) < mq_maxmsg st then None
      else Some (ret (st\<lparr>broadcast_queue := broadcast_queue st @ [loc_msg]\<rparr>, [])))"
| "exec R (I_Respond formatted) st = onward [] (respond (net_env R) formatted st)"
| "exec R I_Send_self st = onward [] (send_self (net_env R) st)"
| "exec R I_Clear st = onward [] (ret (clear_msg st))"
| "exec R I_Is_admin st =
     Some (bindR (get_User_name (self st) (ustore st)) (\<lambda>nm.
       bindR (c_streq nm (get_admin_name (conf st))) (\<lambda>is_admin.
         ret (st, if is_admin then [I_Command] else not_admin))))"
| "exec R I_Command st =
     Some (bindR (get_server_command (drop off_text (msg st))) (\<lambda>admin_code. ret (st, command_code admin_code)))"
| "exec R I_Kick_name st =
     Some (bindR (kick_argument (drop off_text (msg st))) (\<lambda>nk. ret (st, [I_Lock (Kicked nk)])))"
| "exec R (I_Not_found name_to_kick) st =
     Some (case name_to_kick of
       None \<Rightarrow> fail Uninit_Read
     | Some nk \<Rightarrow> bindR (c_string nk) (\<lambda>s.
         ret (st, [I_Respond (bytes_of ''[name: '' @ s @ bytes_of ''] is not in user list''), I_Send_self])))"
| "exec R (I_Close target) st =
     onward [] (bindR (user_sock (Some target) (ustore st)) (\<lambda>sk.
       ret (st\<lparr>closed_socks := closed_socks st @ [sk]\<rparr>)))"
| "exec R (I_Mark target) st =
     onward [] (bindR (user_should_shutdown (Some target) (ustore st)) (\<lambda>us. ret (st\<lparr>ustore := us\<rparr>)))"
| "exec R I_Pause st =
     Some (ret (st, if Is_broadcast_paused st then [I_Respond (bytes_of ''Server is already paused''), I_Send_self]
       else [I_Sem_wait, I_Set_paused, I_Respond (bytes_of ''admin has paused the server''), I_Lock Logged_In]))"
| "exec R I_Sem_wait st =
     (if broadcast_sem st = 0 then None
      else onward [] (ret (st\<lparr>broadcast_sem := broadcast_sem st - 1\<rparr>)))"
| "exec R I_Set_paused st = onward [] (ret (st\<lparr>broadcast_Paused := True\<rparr>))"
| "exec R I_Resume st =
     Some (ret (st, if \<not> Is_broadcast_paused st
       then [I_Respond (bytes_of ''Server is not paused, [/resume] makes no sense''), I_Send_self]
       else [I_Respond (bytes_of ''admin has resumed the server''), I_Lock Logged_In, I_Sem_post, I_Unset_paused]))"
| "exec R I_Sem_post st = onward [] (ret (st\<lparr>broadcast_sem := broadcast_sem st + 1\<rparr>))"
| "exec R I_Unset_paused st = onward [] (ret (st\<lparr>broadcast_Paused := False\<rparr>))"
| "exec R (I_Build_help d) st =
     onward [] (bindR (build_Server_response_Special (net_env R) (msg st) (bytes_of (ac_syntax d) @ [0])
       (bytes_of (ac_description d))) (\<lambda>m. ret (st\<lparr>msg := m\<rparr>)))"
| "exec R I_Invalid st =
     onward [] (bindR (c_string (drop off_text (msg st))) (\<lambda>s.
       respond (net_env R) (bytes_of ''Caution! detected invalid [server_commands] '' @ s) st))"
| "exec R I_Shutdown st = onward [] (handle_invalid st)"
| "exec R I_Logout st = onward [] (bindR (logout_user (self st) (ustore st)) (\<lambda>us. ret (st\<lparr>ustore := us\<rparr>)))"
| "exec R I_Reason st =
     onward [] (if connection_status st = cs_code CS_Closed_Connection
       then ret (st\<lparr>disconnect_reason := CD_connection_closed_by_client\<rparr>)
       else bindR (should_User_shutdown (self st) (ustore st)) (\<lambda>sd.
         ret (if sd then st\<lparr>disconnect_reason := CD_kicked_from_the_server\<rparr> else st)))"
| "exec R I_Has_name st =
     Some (bindR (get_User_name_length (self st) (ustore st)) (\<lambda>len.
       ret (st, if len \<noteq> 0 then [I_Build_removed, I_Lock Others] else [])))"
| "exec R I_Build_removed st =
     onward [] (bindR (get_User_name (self st) (ustore st)) (\<lambda>nm.
       bindR (get_User_name_length (self st) (ustore st)) (\<lambda>len.
       bindR (build_User_Removed (net_env R) (msg st) (disconnect_reason st) nm len) (\<lambda>m. ret (st\<lparr>msg := m\<rparr>)))))"
| "exec R I_Close_self st =
     onward [] (bindR (self_sock st) (\<lambda>sk. ret (st\<lparr>closed_socks := closed_socks st @ [sk]\<rparr>)))"
| "exec R I_Find_own st =
     if_free st (bindR (self_sock st) (\<lambda>sk. bindR (f_find_User sk (ustore st)) (\<lambda>(locPointer, us).
       ret (st\<lparr>ustore := us\<rparr>, case locPointer of None \<Rightarrow> [] | Some p \<Rightarrow> [I_Unlink p]))))"
| "exec R (I_Unlink p) st =
     if_free st (bindR (unlink_User p (ustore st)) (\<lambda>us. ret (st\<lparr>ustore := us\<rparr>, [])))"
| "exec R (I_Lock w) st =
     if_free st (bindR (lock_user_mutex (ustore st)) (\<lambda>us.
       ret (st\<lparr>ustore := us\<rparr>, [I_Target w (get_First_User us)])))"
| "exec R (I_Target w target) st =
     Some (case target of
       None \<Rightarrow> ret (st, walk_end w)
     | Some t \<Rightarrow> bindR (walk_test w t st) (\<lambda>c. ret (st, if c then walk_body w t else [I_Next w t])))"
| "exec R (I_Next w t) st =
     Some (bindR (iterate_User (Some t) (ustore st)) (\<lambda>target. ret (st, [I_Target w target])))"
| "exec R (I_Send_to target) st =
     onward [] (bindR (user_sock (Some target) (ustore st)) (\<lambda>sk. send_to (net_env R) sk (msg st) st))"
| "exec R I_Unlock st = onward [] (ret (st\<lparr>ustore := unlock_user_mutex (ustore st)\<rparr>))"
| "exec R A_Receive st =
     (case mq_receive st of
        None \<Rightarrow> None
      | Some (q, st) \<Rightarrow> Some (ret (st\<lparr>agent_buffer := Some q\<rparr>, [A_Wait])))"
| "exec R A_Wait st =
     (if broadcast_sem st = 0 then None
      else Some (ret (st\<lparr>broadcast_sem := broadcast_sem st - 1\<rparr>, [I_Lock Delivery, A_Post])))"
| "exec R (A_Send_to target) st =
     Some (case agent_buffer st of
       None \<Rightarrow> fail Uninit_Read
     | Some buffer \<Rightarrow> bindR (user_sock (Some target) (ustore st)) (\<lambda>sk.
         bindR (send_to (net_env R) sk (qmsg buffer) st) (\<lambda>st. ret (st, []))))"
| "exec R A_Post st = Some (ret (st\<lparr>broadcast_sem := broadcast_sem st + 1\<rparr>, [A_Receive]))"

section \<open>Threads and schedules\<close>

text \<open>
  A thread: what it has still to do, the input of its current round, and the inputs to come. Only
  the check for a message takes the next input.
\<close>

record thread_state =
  to_do :: "instr list"
  current :: round_input
  coming :: "round_input list"

definition proceed ::
    "thread_state \<Rightarrow> instr list \<Rightarrow> (server_state \<times> instr list) res option
     \<Rightarrow> (server_state \<times> thread_state) res option" where
  "proceed th is r = map_option (\<lambda>x. bindR x (\<lambda>(st, js). ret (st, th\<lparr>to_do := js @ is\<rparr>))) r"

definition thread_step :: "thread_state \<Rightarrow> server_state \<Rightarrow> (server_state \<times> thread_state) res option" where
  "thread_step th st =
     (case to_do th of
        [] \<Rightarrow> None
      | i # is \<Rightarrow>
          (case i of
             I_Check \<Rightarrow> (case coming th of
                 [] \<Rightarrow> None
               | R # Rs \<Rightarrow> proceed (th\<lparr>current := R, coming := Rs\<rparr>) is (exec R I_Check st))
           | _ \<Rightarrow> proceed th is (exec (current th) i st)))"

text \<open>
  A schedule says which thread is offered the next step; a thread that has to wait, or has ended,
  leaves everything as it is.
\<close>

type_synonym system = "server_state \<times> thread_state list"

definition system_step :: "nat \<Rightarrow> system \<Rightarrow> system res option" where
  "system_step k S =
     (if k < length (snd S)
      then map_option (\<lambda>r. bindR r (\<lambda>(st, th). ret (st, (snd S)[k := th]))) (thread_step (snd S ! k) (fst S))
      else None)"

fun run_schedule :: "nat list \<Rightarrow> system \<Rightarrow> system res" where
  "run_schedule [] S = ret S"
| "run_schedule (k # ks) S =
     (case system_step k S of
        None \<Rightarrow> run_schedule ks S
      | Some r \<Rightarrow> bindR r (run_schedule ks))"

definition client_thread :: "nat \<Rightarrow> u16 \<Rightarrow> nat option \<Rightarrow> round_input list \<Rightarrow> thread_state" where
  "client_thread threadID arg user_memory Rs =
     \<lparr>to_do = [I_Find_socket threadID arg user_memory], current = hd Rs, coming = Rs\<rparr>"

definition agent_thread :: "round_input \<Rightarrow> thread_state" where
  "agent_thread R = \<lparr>to_do = [A_Receive], current = R, coming = []\<rparr>"

section \<open>A step of a thread\<close>

lemma bindR_retE:
  "bindR m f = ret y \<Longrightarrow> (\<And>x. m = ret x \<Longrightarrow> f x = ret y \<Longrightarrow> P) \<Longrightarrow> P"
  by (auto simp: bindR_ret_iff)

lemmas step_defs = thread_step_def proceed_def

lemma thread_step_plain:
  "to_do th = i # is \<Longrightarrow> i \<noteq> I_Check \<Longrightarrow> thread_step th st = proceed th is (exec (current th) i st)"
  by (cases i) (simp_all add: thread_step_def del: exec.simps)

lemma proceed_ret:
  "proceed th is r = Some (ret (st', th')) \<Longrightarrow> \<exists>js. r = Some (ret (st', js)) \<and> th' = th\<lparr>to_do := js @ is\<rparr>"
  by (auto simp: proceed_def elim!: bindR_retE)

lemma thread_stepE:
  assumes "thread_step th st = Some (ret (st', th'))"
  obtains R i "is" js where "to_do th = i # is" and "exec R i st = Some (ret (st', js))" and "to_do th' = js @ is"
proof (cases "to_do th")
  case Nil
  then show thesis using assms by (simp add: thread_step_def)
next
  case (Cons i "is")
  show thesis
  proof (cases "i = I_Check")
    case True
    then obtain R Rs where "proceed (th\<lparr>current := R, coming := Rs\<rparr>) is (exec R i st) = Some (ret (st', th'))"
      using assms Cons by (cases "coming th") (simp_all add: thread_step_def del: exec.simps)
    from proceed_ret [OF this] show thesis using that [OF Cons] by auto
  next
    case False
    then have "proceed th is (exec (current th) i st) = Some (ret (st', th'))"
      using assms by (simp add: thread_step_plain [OF Cons] del: exec.simps)
    from proceed_ret [OF this] show thesis using that [OF Cons] by auto
  qed
qed

lemma update_user_same_lock: "update_user p f s = ret s' \<Longrightarrow> user_lock s' = user_lock s"
  by (auto simp: update_user_def elim!: bindR_retE)

end
