(* ===== verification/Threads_Types.thy ===== *)
theory Threads_Types
  imports Threads
begin

text \<open>
  The sizes of what the threads share: every message has the bytes of a \<^verbatim>\<open>CombinedMessage\<close>, every user's
  name its 32, every local name its 31. They hold whatever the clients send and however many threads
  interleave, because every write of the program is checked against the object it goes to.
\<close>

section \<open>Calls keep the size of the message\<close>

lemma mem_write_length: "mem_write b off bs = ret b' \<Longrightarrow> length b' = length b"
  by (auto simp: mem_write_ret_iff)

lemma store_length:
  "store16 e m off x = ret m' \<Longrightarrow> length m' = length m"
  "store64 e m off y = ret m' \<Longrightarrow> length m' = length m"
  "store32 e m off z = ret m' \<Longrightarrow> length m' = length m"
  by (simp_all add: store16_def store64_def store32_def mem_write_length)

lemma c_strncpy_length: "c_strncpy b off src n = ret b' \<Longrightarrow> length b' = length b"
  by (auto simp: c_strncpy_def mem_write_length split: if_splits)

lemma c_strcpy_length: "c_strcpy b off src = ret b' \<Longrightarrow> length b' = length b"
  by (auto simp: c_strcpy_def elim!: bindR_retE dest: mem_write_length)

lemma sys_read_length: "sys_read rd b off n = ret (k, b') \<Longrightarrow> length b' = length b"
  by (auto simp: sys_read_def elim!: bindR_retE dest: mem_write_length split: io.splits)

lemmas write_lengths = mem_write_length store_length c_strncpy_length c_strcpy_length sys_read_length

lemma Check_for_Message_length: "Check_for_Message rd m = ret (k, m') \<Longrightarrow> length m' = length m"
  by (auto simp: Check_for_Message_def dest: write_lengths)

lemma network_Receive_length: "network_Receive E rd m = ret (v, m') \<Longrightarrow> length m' = length m"
  by (auto simp: network_Receive_def Let_def elim!: bindR_retE dest: write_lengths split: if_splits)

lemma build_length:
  "build_login_response E nm m c = ret m' \<Longrightarrow> length m' = length m"
  "build_User_Added E m nm' k s = ret m' \<Longrightarrow> length m' = length m"
  "build_User_Removed E m d nm' k = ret m' \<Longrightarrow> length m' = length m"
  "build_Server_to_client E m l nm' k = ret m' \<Longrightarrow> length m' = length m"
  "build_Server_response E nm m f = ret m' \<Longrightarrow> length m' = length m"
  "build_Server_response_Special E m nm f = ret m' \<Longrightarrow> length m' = length m"
  by (auto simp: build_login_response_def build_User_Added_def build_User_Removed_def build_Server_to_client_def
      build_Server_response_def build_Server_response_Special_def build_response_as_def Let_def
      elim!: bindR_retE dest!: write_lengths)

lemmas message_lengths = Check_for_Message_length network_Receive_length build_length

lemma kick_argument_length: "kick_argument tx = ret (Some b) \<Longrightarrow> length b = NET_NAME_LEN"
  by (auto simp: kick_argument_def elim!: bindR_retE dest!: mem_write_length split: option.splits)

section \<open>Sizes of the shared state and of what is left to do\<close>

definition sized_message :: "byte list \<Rightarrow> bool" where
  "sized_message m \<longleftrightarrow> length m = sizeof_CombinedMessage"

definition sized_users :: "user_store \<Rightarrow> bool" where
  "sized_users s \<longleftrightarrow> (\<forall>n \<in> ran (heap (users s)). length (name (item n)) = 32)"

definition sized :: "server_state \<Rightarrow> bool" where
  "sized st \<longleftrightarrow> sized_message (msg st) \<and> (\<forall>q \<in> set (broadcast_queue st). sized_message (qmsg q))
     \<and> (case agent_buffer st of None \<Rightarrow> True | Some q \<Rightarrow> sized_message (qmsg q)) \<and> sized_users (ustore st)"

definition sized_name :: "byte list option \<Rightarrow> bool" where
  "sized_name nm \<longleftrightarrow> (case nm of None \<Rightarrow> True | Some b \<Rightarrow> length b = NET_NAME_LEN)"

fun sized_walk :: "walk \<Rightarrow> bool" where
  "sized_walk (Kicked nm) = sized_name nm"
| "sized_walk _ = True"

fun sized_instr :: "instr \<Rightarrow> bool" where
  "sized_instr (I_Name_free nm) = sized_name (Some nm)"
| "sized_instr (I_Login nm) = sized_name (Some nm)"
| "sized_instr (I_Not_found nm) = sized_name nm"
| "sized_instr (I_Lock w) = sized_walk w"
| "sized_instr (I_Target w t) = sized_walk w"
| "sized_instr (I_Next w t) = sized_walk w"
| "sized_instr (I_Queue refused) = (refused = [] \<or> refused = queue_full)"
| "sized_instr (I_Mq_send q refused) = (sized_message (qmsg q) \<and> (refused = [] \<or> refused = queue_full))"
| "sized_instr _ = True"

abbreviation sized_code :: "instr list \<Rightarrow> bool" where
  "sized_code code \<equiv> list_all sized_instr code"

definition sized_system :: "system \<Rightarrow> bool" where
  "sized_system S \<longleftrightarrow> sized (fst S) \<and> (\<forall>th \<in> set (snd S). sized_code (to_do th))"

lemma sized_codes:
  "sized_name (Some nm) \<Longrightarrow> sized_code (login_answer c nm)"
  "sized_code queue_full" "sized_code not_admin" "sized_code (command_code ac)" "sized_code (handler_code v)"
  "sized_code leave_code_of" "sized_walk w \<Longrightarrow> sized_code (walk_body w t)" "sized_walk w \<Longrightarrow> sized_code (walk_end w)"
proof -
  have "sized_code (help_code ds)" for ds by (induction ds) (simp_all add: help_code_def)
  then show "sized_name (Some nm) \<Longrightarrow> sized_code (login_answer c nm)"
    "sized_code queue_full" "sized_code not_admin" "sized_code (command_code ac)" "sized_code (handler_code v)"
    "sized_code leave_code_of" "sized_walk w \<Longrightarrow> sized_code (walk_body w t)" "sized_walk w \<Longrightarrow> sized_code (walk_end w)"
    by (auto simp add: login_answer_def queue_full_def not_admin_def command_code_def handler_code_def leave_code_of_def
        walk_body_def walk_end_def split: admin_command_code.split network_validation_code.split walk.split)
qed

section \<open>The list of users\<close>

lemma sized_users_heap:
  "sized_users s \<longleftrightarrow> (\<forall>a n. heap (users s) a = Some n \<longrightarrow> length (name (item n)) = 32)"
  by (auto simp: sized_users_def ran_def)

lemma sized_assign:
  assumes "assign h p f = ret h'" and "\<forall>a n. h a = Some n \<longrightarrow> length (name (item n)) = 32"
    and "\<And>n. length (name (item n)) = 32 \<Longrightarrow> length (name (item (f n))) = 32"
  shows "\<forall>a n. h' a = Some n \<longrightarrow> length (name (item n)) = 32"
proof -
  obtain b n where "p = Some b" "h b = Some n" "h' = h(b \<mapsto> f n)"
    using assms(1) by (auto simp: assign_def deref_def split: option.splits elim!: bindR_retE)
  then show ?thesis using assms(2,3) by auto
qed

lemma sized_update:
  assumes "update_user p f s = ret s'" and "sized_users s" and "\<And>u. name (f u) = name u"
  shows "sized_users s'"
proof -
  obtain h where h: "set_item (heap (users s)) p f = ret h" "s' = s\<lparr>users := (users s)\<lparr>heap := h\<rparr>\<rparr>"
    using assms(1) by (auto simp: update_user_def elim!: bindR_retE)
  have "\<forall>a n. h a = Some n \<longrightarrow> length (name (item n)) = 32"
    by (rule sized_assign [OF h(1) [unfolded set_item_def]]) (use assms(2,3) in \<open>auto simp: sized_users_heap\<close>)
  then show ?thesis using h(2) by (simp add: sized_users_heap)
qed

lemma sized_login:
  assumes "login_User p nm k s = ret (b, s')" and "sized_users s"
  shows "sized_users s'"
proof -
  obtain n nm' h where n: "deref (heap (users s)) p = ret n" and nm: "c_strncpy (name (item n)) 0 nm (unat k) = ret nm'"
    and h: "set_item (heap (users s)) p (\<lambda>u. u\<lparr>name := nm', logged_in := True, name_length := k\<rparr>) = ret h"
    and s': "s' = unlock_user_mutex (s\<lparr>user_lock := True, users := (users s)\<lparr>heap := h\<rparr>\<rparr>)"
    using assms(1) by (auto simp: login_User_def lock_user_mutex_def elim!: bindR_retE split: if_splits)
  have "length nm' = 32"
    using c_strncpy_length [OF nm] n assms(2) by (auto simp: deref_def sized_users_heap split: option.splits)
  have "\<forall>a n. h a = Some n \<longrightarrow> length (name (item n)) = 32"
    by (rule sized_assign [OF h [unfolded set_item_def]]) (use assms(2) \<open>length nm' = 32\<close> in \<open>auto simp: sized_users_heap\<close>)
  then show ?thesis using s' by (simp add: sized_users_heap)
qed

lemma sized_add:
  assumes "add_User t sk m s = ret (u, s')" and "sized_users s"
  shows "sized_users s'"
proof (cases m)
  case None
  then show ?thesis
    using assms by (auto simp: add_User_def lock_user_mutex_def sized_users_heap elim!: bindR_retE split: if_splits)
next
  case (Some a)
  then obtain l where l: "dll_append a (new_user t sk) (users s) = ret l" and s': "users s' = l"
    using assms(1) by (auto simp: add_User_def lock_user_mutex_def elim!: bindR_retE split: if_splits)
  let ?h = "(heap (users s))(a \<mapsto> \<lparr>prev_ptr = None, next_ptr = None, item = new_user t sk\<rparr>)"
  have h: "\<forall>a n. ?h a = Some n \<longrightarrow> length (name (item n)) = 32"
    using assms(2) by (auto simp: sized_users_heap new_user_def)
  from l have "heap l = ?h \<or> (\<exists>h1 p f q g. assign ?h p (\<lambda>n. n\<lparr>next_ptr := f\<rparr>) = ret h1 \<and> assign h1 q (\<lambda>n. n\<lparr>prev_ptr := g\<rparr>) = ret (heap l))"
    by (auto simp: dll_append_def Let_def split: option.splits elim!: bindR_retE) blast
  then have "\<forall>a n. heap l a = Some n \<longrightarrow> length (name (item n)) = 32"
  proof (elim disjE exE conjE)
    fix h1 p f q g assume "assign ?h p (\<lambda>n. n\<lparr>next_ptr := f\<rparr>) = ret h1" and q: "assign h1 q (\<lambda>n. n\<lparr>prev_ptr := g\<rparr>) = ret (heap l)"
    from sized_assign [OF this(1) h] have "\<forall>a n. h1 a = Some n \<longrightarrow> length (name (item n)) = 32" by simp
    from sized_assign [OF q this] show ?thesis by simp
  qed (use h in simp)
  then show ?thesis using s' by (simp add: sized_users_heap)
qed

lemma sized_links:
  "assign h p (\<lambda>n. n\<lparr>next_ptr := f n\<rparr>) = ret h' \<Longrightarrow> \<forall>a n. h a = Some n \<longrightarrow> length (name (item n)) = 32
    \<Longrightarrow> \<forall>a n. h' a = Some n \<longrightarrow> length (name (item n)) = 32"
  "assign h p (\<lambda>n. n\<lparr>prev_ptr := f n\<rparr>) = ret h' \<Longrightarrow> \<forall>a n. h a = Some n \<longrightarrow> length (name (item n)) = 32
    \<Longrightarrow> \<forall>a n. h' a = Some n \<longrightarrow> length (name (item n)) = 32"
  by (erule sized_assign; simp)+

lemma sized_unlink:
  assumes "unlink_User p s = ret s'" and s: "sized_users s"
  shows "sized_users s'"
proof -
  obtain l where l: "dll_unlink p (users s) = ret l" and s': "users s' = l"
    using assms(1) by (auto simp: unlink_User_def lock_user_mutex_def elim!: bindR_retE split: if_splits)
  note h = s [unfolded sized_users_heap]
  have "\<forall>a n. heap l a = Some n \<longrightarrow> length (name (item n)) = 32"
    using l h
    by (auto simp: dll_unlink_def elim!: bindR_retE split: if_splits dest!: sized_links [OF _ h] dest: sized_links)
  then show ?thesis using s' by (simp add: sized_users_heap)
qed

lemma same_users:
  "f_find_User sk s = ret (b, s') \<Longrightarrow> users s' = users s"
  "is_name_free nm s = ret (fr, s') \<Longrightarrow> users s' = users s"
  "lock_user_mutex s = ret s' \<Longrightarrow> users s' = users s"
  by (auto simp: f_find_User_def is_name_free_def lock_user_mutex_def elim!: bindR_retE split: if_splits)

lemma sized_users_same: "users s' = users s \<Longrightarrow> sized_users s \<Longrightarrow> sized_users s'"
  by (simp add: sized_users_def)

section \<open>Every step keeps the sizes\<close>

lemma kick_sized: "kick_argument tx = ret nk \<Longrightarrow> sized_name nk"
  by (auto simp: sized_name_def kick_argument_length split: option.split)

lemma same_users_sized:
  "update_user p (\<lambda>u. u\<lparr>should_shutdown := b\<rparr>) s = ret s' \<Longrightarrow> sized_users s \<Longrightarrow> sized_users s'"
  "update_user p (\<lambda>u. u\<lparr>logged_in := b\<rparr>) s = ret s' \<Longrightarrow> sized_users s \<Longrightarrow> sized_users s'"
  by (erule sized_update; simp)+

lemmas sized_store = same_users_sized sized_login sized_add sized_unlink same_users [THEN sized_users_same]

text \<open>The calls that change the message, those that change the users, and those that change neither.\<close>

lemma exec_sized_message:
  assumes x: "exec R i st = Some (ret (st', js))" and s: "sized st"
    and i: "i \<in> {I_Top, I_Begin u, I_Check, I_Receive, I_Build_login c, I_Build_added, I_Build_old t, I_Build_text, I_Clear,
      I_Build_help d, I_Build_removed, I_Respond f, I_Invalid, I_Queue []}"
  shows "sized st' \<and> sized_code js"
  using i x s
  by (elim insertE emptyE)
    (auto simp: sized_def sized_message_def sizeof_simps clear_msg_def respond_def sized_codes
      dest!: message_lengths elim!: bindR_retE)

lemma exec_sized_users:
  assumes x: "exec R i st = Some (ret (st', js))" and s: "sized st"
    and i: "i \<in> {I_Find_socket n sk m, I_Add_user n sk m, I_Mark t, I_Shutdown, I_Logout, I_Login nm, I_Find_own,
      I_Unlink q, I_Unlock}"
  shows "sized st' \<and> sized_code js"
proof -
  have u: "sized_users (ustore st)" using s by (simp add: sized_def)
  have l: "sized_users (unlock_user_mutex (ustore st))" by (rule sized_users_same [OF _ u]) simp
  show ?thesis
    using i x s l
    by (elim insertE emptyE)
      (auto simp: sized_def if_free_def user_should_shutdown_def logout_user_def handle_invalid_def
        dest!: sized_store [OF _ u] elim!: bindR_retE split: if_splits option.splits)
qed

lemma exec_sized_codes:
  assumes x: "exec R i st = Some (ret (st', js))" and s: "sized st" and c: "sized_instr i"
    and i: "i \<in> {I_Copy_name, I_Name_free nm, I_Is_admin, I_Command, I_Kick_name, I_Not_found nk, I_Lock w, I_Target w t,
      I_Next w a, I_Queue r, I_Mq_send q r, I_Pause, I_Resume, I_Has_name}"
  shows "sized st' \<and> sized_code js"
proof -
  have u: "sized_users (ustore st)" using s by (simp add: sized_def)
  have l: "sized_users ((ustore st)\<lparr>user_lock := True\<rparr>)" by (rule sized_users_same [OF _ u]) simp
  show ?thesis
    using i x s c l
    by (elim insertE emptyE)
      (auto simp: sized_def if_free_def login_response_for_def Let_def sized_codes sized_name_def
        dest!: c_strncpy_length sized_store [OF _ u] kick_sized elim!: bindR_retE split: if_splits option.splits)
qed

lemma exec_sized_others:
  assumes x: "exec R i st = Some (ret (st', js))" and s: "sized st"
    and i: "i \<in> {I_Length, I_Reason, A_Receive, A_Wait, A_Post, A_Send_to a, I_Send_self, I_Send_to a, I_Close a, I_Close_self,
      I_Register, I_Sem_wait, I_Sem_post, I_Set_paused, I_Unset_paused}"
  shows "sized st' \<and> sized_code js"
  using i x s
  by (elim insertE emptyE)
    (auto simp: sized_def send_self_def send_to_def mq_receive_def
      elim!: bindR_retE split: if_splits option.splits list.splits)

lemma exec_sized:
  assumes "exec R i st = Some (ret (st', js))" and "sized st" and "sized_instr i"
  shows "sized st' \<and> sized_code js"
  using exec_sized_message [OF assms(1,2)] exec_sized_users [OF assms(1,2)] exec_sized_codes [OF assms]
    exec_sized_others [OF assms(1,2)]
  by (cases i) (simp_all del: exec.simps sized_instr.simps)

lemma system_sized:
  assumes "system_step k S = Some (ret S')" and "sized_system S"
  shows "sized_system S'"
proof -
  obtain st' th' where s: "k < length (snd S)" "thread_step (snd S ! k) (fst S) = Some (ret (st', th'))"
    "S' = (st', (snd S)[k := th'])"
    using assms(1) by (auto simp: system_step_def elim!: bindR_retE split: if_splits)
  obtain R i "is" js where code: "to_do (snd S ! k) = i # is" and x: "exec R i (fst S) = Some (ret (st', js))"
    "to_do th' = js @ is"
    by (rule thread_stepE [OF s(2)])
  have "sized_code (i # is)" using assms(2) nth_mem [OF s(1)] code by (metis sized_system_def)
  then have "sized st' \<and> sized_code (to_do th')"
    using exec_sized [OF x(1)] assms(2) x(2) by (simp add: sized_system_def)
  then show ?thesis
    using assms(2) s(3) by (auto simp: sized_system_def dest!: set_update_subset_insert [THEN subsetD])
qed

lemma run_sized: "run_schedule ks S = ret S' \<Longrightarrow> sized_system S \<Longrightarrow> sized_system S'"
proof (induction ks arbitrary: S)
  case (Cons k ks)
  then show ?case
    by (cases "system_step k S") (auto elim!: bindR_retE dest: system_sized)
qed simp

text \<open>The buffers keep their types: whatever the clients send, however many threads run and in
  whatever order, in every state that is reached the message of the clients, each message of the queue
  and the one the agent holds have the 555 bytes of a \<^verbatim>\<open>CombinedMessage\<close>, the name of every user in
  memory has its 32 bytes, and the local names the threads carry have 31.\<close>

theorem sizes_are_kept:
  assumes "sized_system S" and "run_schedule ks S = ret S'"
  shows "sized_system S'"
  using run_sized assms by blast

definition example_connections :: "thread_state list" where
  "example_connections = [client_thread 1 7 (Some 3) [example_round 2 [72, 105]], client_thread 2 8 (Some 4) [example_round 2 [72, 105]]]"

lemma example_server_sized: "sized (example_server a)"
proof -
  have "\<forall>n \<in> ran (heap (users example_room)). length (name (item n)) = 32"
  proof
    fix n assume "n \<in> ran (heap (users example_room))"
    then obtain b where b: "heap (users example_room) b = Some n" by (auto simp: ran_def)
    then have "b \<in> set [0, 1, 2]" using users_inv_at_dom [OF example_room_inv, of b] by simp
    then have "user_ok (user_at example_room b)" using example_room_inv by (auto simp: users_inv_at_def)
    then show "length (name (item n)) = 32" using b by (simp add: user_ok_def user_at_def item_at_def)
  qed
  then show ?thesis by (simp add: sized_def sized_message_def sized_users_def example_server_def sizeof_simps)
qed

lemma example_connections_run: "\<exists>S. run_schedule [0, 1] (example_server 0, example_connections) = ret S"
proof -
  have "f_find_User sk example_room = ret (None, example_room)" if "sk = 7 \<or> sk = 8" for sk
  proof -
    have "users_at example_room [0, 1, 2]" using example_room_inv by (simp add: users_inv_at_def)
    moreover have "\<forall>b \<in> set [0, 1, 2]. sock (user_at example_room b) \<noteq> sk" using that by (elim disjE) (hypsubst, code_simp)+
    ultimately show ?thesis by (simp add: f_find_User_at)
  qed
  moreover have "\<not> user_lock example_room" using example_room_inv by (simp add: users_inv_at_def users_at_def)
  ultimately show ?thesis
    by (simp add: example_connections_def client_thread_def system_step_def step_defs if_free_def example_server_def)
qed

theorem sizes_are_kept_witness:
  "\<exists>S. run_schedule [0, 1] (example_server 0, example_connections) = ret S \<and> sized_system S"
proof -
  have "sized_system (example_server 0, example_connections)"
    using example_server_sized by (simp add: sized_system_def example_connections_def client_thread_def)
  with example_connections_run show ?thesis using sizes_are_kept by blast
qed

end
