(* ===== verification/Threads_Mutex.thy ===== *)
theory Threads_Mutex
  imports Threads_Types
begin

text \<open>
  What holds for any number of threads in any schedule, the races of the shared variables included: the
  iterations over the users exclude each other and every change of the list, and the message queue
  loses, doubles and reorders nothing.
\<close>

section \<open>Threads in an iteration\<close>

text \<open>The instructions that only stand in the code of a thread while it holds the mutex for an iteration.\<close>

fun in_walk :: "instr \<Rightarrow> bool" where
  "in_walk (I_Target w t) = True"
| "in_walk (I_Next w t) = True"
| "in_walk I_Unlock = True"
| "in_walk _ = False"

definition walks :: "instr list \<Rightarrow> nat" where
  "walks code = length (filter in_walk code)"

definition held :: "server_state \<Rightarrow> nat" where
  "held st = (if user_lock (ustore st) then 1 else 0)"

definition walkers :: "thread_state list \<Rightarrow> nat" where
  "walkers ths = sum_list (map (\<lambda>th. walks (to_do th)) ths)"

text \<open>The answers to a full queue that stand in the code are the program's.\<close>

fun answers_ok :: "instr \<Rightarrow> bool" where
  "answers_ok (I_Queue refused) = (refused = [] \<or> refused = queue_full)"
| "answers_ok (I_Mq_send q refused) = (refused = [] \<or> refused = queue_full)"
| "answers_ok _ = True"

definition exclusive :: "system \<Rightarrow> bool" where
  "exclusive S \<longleftrightarrow> walkers (snd S) \<le> held (fst S) \<and> (\<forall>th \<in> set (snd S). list_all answers_ok (to_do th))"

lemma walks_simps [simp]:
  "walks [] = 0" "walks (i # is) = (if in_walk i then Suc (walks is) else walks is)" "walks (is @ js) = walks is + walks js"
  by (simp_all add: walks_def)

lemma walks_codes:
  "walks (login_answer c nm) = 0" "walks queue_full = 0" "walks not_admin = 0" "walks (command_code ac) = 0"
  "walks (handler_code v) = 0" "walks leave_code_of = 0" "walks (walk_body w t) = 1" "walks (walk_end w) = 1"
proof -
  have "walks (help_code ds) = 0" for ds by (induction ds) (simp_all add: help_code_def)
  then show "walks (login_answer c nm) = 0" "walks queue_full = 0" "walks not_admin = 0" "walks (command_code ac) = 0"
    "walks (handler_code v) = 0" "walks leave_code_of = 0" "walks (walk_body w t) = 1" "walks (walk_end w) = 1"
    by (simp_all add: login_answer_def queue_full_def not_admin_def command_code_def handler_code_def leave_code_of_def
        walk_body_def walk_end_def split: admin_command_code.split network_validation_code.split walk.split)
qed

lemma answers_codes:
  "list_all answers_ok (login_answer c nm)" "list_all answers_ok queue_full" "list_all answers_ok not_admin"
  "list_all answers_ok (command_code ac)" "list_all answers_ok (handler_code v)" "list_all answers_ok leave_code_of"
  "list_all answers_ok (walk_body w t)" "list_all answers_ok (walk_end w)"
proof -
  have "list_all answers_ok (help_code ds)" for ds by (induction ds) (simp_all add: help_code_def)
  then show "list_all answers_ok (login_answer c nm)" "list_all answers_ok queue_full" "list_all answers_ok not_admin"
    "list_all answers_ok (command_code ac)" "list_all answers_ok (handler_code v)" "list_all answers_ok leave_code_of"
    "list_all answers_ok (walk_body w t)" "list_all answers_ok (walk_end w)"
    by (simp_all add: login_answer_def queue_full_def not_admin_def command_code_def handler_code_def leave_code_of_def
        walk_body_def walk_end_def split: admin_command_code.split network_validation_code.split walk.split)
qed

section \<open>What a step does to the mutex\<close>

lemma login_lock: "login_User p nm k s = ret (b, s') \<Longrightarrow> user_lock s' = user_lock s"
  by (auto simp: login_User_def lock_user_mutex_def elim!: bindR_retE split: if_splits)

lemma same_lock:
  "f_find_User sk s = ret (u, s') \<Longrightarrow> user_lock s' = user_lock s"
  "is_name_free nm s = ret (fr, s') \<Longrightarrow> user_lock s' = user_lock s"
  "unlink_User p s = ret s' \<Longrightarrow> user_lock s' = user_lock s"
  by (auto simp: f_find_User_def is_name_free_def unlink_User_def lock_user_mutex_def elim!: bindR_retE split: if_splits)

lemmas lock_kept = update_user_same_lock login_lock same_lock

lemma exec_answers:
  assumes "exec R i st = Some (ret (st', js))" and "answers_ok i"
  shows "list_all answers_ok js"
  using assms
  by (cases i)
    (auto simp: if_free_def mq_receive_def answers_codes elim!: bindR_retE split: if_splits option.splits list.splits)

lemma exec_mutex:
  assumes "exec R i st = Some (ret (st', js))" and "answers_ok i"
  shows "walks js = walks [i] \<and> user_lock (ustore st') = user_lock (ustore st)
    \<or> \<not> user_lock (ustore st) \<and> walks js \<le> held st' \<or> i = I_Unlock \<and> js = []"
  using assms
  by (cases i)
    (auto simp: if_free_def clear_msg_def respond_def send_self_def send_to_def mq_receive_def login_response_for_def
      handle_invalid_def user_should_shutdown_def logout_user_def Let_def walks_codes held_def
      dest!: lock_kept elim!: bindR_retE split: if_splits option.splits list.splits)

section \<open>Iterations exclude each other\<close>

lemma system_stepE:
  assumes "system_step k S = Some (ret S')"
  obtains R i "is" js st' th' where "k < length (snd S)" and "to_do (snd S ! k) = i # is"
    and "exec R i (fst S) = Some (ret (st', js))" and "to_do th' = js @ is" and "S' = (st', (snd S)[k := th'])"
proof -
  obtain st' th' where s: "k < length (snd S)" "thread_step (snd S ! k) (fst S) = Some (ret (st', th'))"
    "S' = (st', (snd S)[k := th'])"
    using assms by (auto simp: system_step_def elim!: bindR_retE split: if_splits)
  show thesis by (rule thread_stepE [OF s(2)]) (rule that [OF s(1) _ _ _ s(3)])
qed

lemma walkers_update:
  assumes "k < length ths"
  shows "walkers (ths[k := th]) + walks (to_do (ths ! k)) = walkers ths + walks (to_do th)"
    and "walks (to_do (ths ! k)) \<le> walkers ths"
proof -
  let ?w = "\<lambda>th. walks (to_do th)"
  have le: "?w (ths ! k) \<le> sum_list (map ?w ths)"
    using member_le_sum_list [of "?w (ths ! k)" "map ?w ths"] assms by auto
  then show "walks (to_do (ths ! k)) \<le> walkers ths" by (simp add: walkers_def)
  show "walkers (ths[k := th]) + walks (to_do (ths ! k)) = walkers ths + walks (to_do th)"
    using le assms by (simp add: walkers_def map_update sum_list_update)
qed

lemma exclusive_at:
  assumes "exclusive S" and "k < length (snd S)" and "to_do (snd S ! k) = i # is"
  shows "walks (i # is) \<le> walkers (snd S)" and "walkers (snd S) \<le> held (fst S)" and "answers_ok i"
    and "list_all answers_ok is"
proof -
  show "walks (i # is) \<le> walkers (snd S)" using walkers_update(2) [OF assms(2)] assms(3) by simp
  show "walkers (snd S) \<le> held (fst S)" using assms(1) by (simp add: exclusive_def)
  have "list_all answers_ok (i # is)" using assms nth_mem [OF assms(2)] by (metis exclusive_def)
  then show "answers_ok i" "list_all answers_ok is" by simp_all
qed

lemma system_exclusive:
  assumes "system_step k S = Some (ret S')" and ex: "exclusive S"
  shows "exclusive S'"
proof -
  obtain R i "is" js st' th' where s: "k < length (snd S)" "to_do (snd S ! k) = i # is"
    "exec R i (fst S) = Some (ret (st', js))" "to_do th' = js @ is" "S' = (st', (snd S)[k := th'])"
    by (rule system_stepE [OF assms(1)])
  note at = exclusive_at [OF ex s(1,2)]
  have w: "walkers (snd S') + walks [i] = walkers (snd S) + walks js"
    using walkers_update(1) [OF s(1), of th'] s(2,4,5) by (cases "in_walk i") simp_all
  have h1: "held (fst S) \<le> 1" by (simp add: held_def)
  have "walkers (snd S') \<le> held st'"
    using exec_mutex [OF s(3) at(3)]
  proof (elim disjE conjE)
    assume "walks js = walks [i]" "user_lock (ustore st') = user_lock (ustore (fst S))"
    then show ?thesis using w at(2) by (simp add: held_def del: walks_simps(2))
  next
    assume "\<not> user_lock (ustore (fst S))" "walks js \<le> held st'"
    moreover from this have "walkers (snd S) = 0" using at(2) by (simp add: held_def)
    ultimately show ?thesis using w by simp
  next
    assume "i = I_Unlock" "js = []"
    then show ?thesis using w at(1,2) h1 by simp
  qed
  moreover have "list_all answers_ok (to_do th')" using exec_answers [OF s(3) at(3)] at(4) s(4) by simp
  ultimately show ?thesis
    using ex s(5) by (auto simp: exclusive_def dest!: set_update_subset_insert [THEN subsetD])
qed

lemma run_exclusive: "run_schedule ks S = ret S' \<Longrightarrow> exclusive S \<Longrightarrow> exclusive S'"
proof (induction ks arbitrary: S)
  case (Cons k ks)
  then show ?case
    by (cases "system_step k S") (auto elim!: bindR_retE dest: system_exclusive)
qed simp

text \<open>Threads that have not begun: of clients, or the agent.\<close>

fun first_call :: "instr \<Rightarrow> bool" where
  "first_call (I_Find_socket t sk m) = True"
| "first_call A_Receive = True"
| "first_call _ = False"

definition starting :: "thread_state \<Rightarrow> bool" where
  "starting th \<longleftrightarrow> (case to_do th of [i] \<Rightarrow> first_call i | _ \<Rightarrow> False)"

lemma starting_exclusive:
  assumes "\<forall>th \<in> set ths. starting th"
  shows "exclusive (st, ths)"
proof -
  have "walks (to_do th) = 0 \<and> list_all answers_ok (to_do th)" if "th \<in> set ths" for th
  proof -
    have "starting th" using assms that by blast
    then obtain i where i: "to_do th = [i]" "first_call i"
      by (auto simp: starting_def split: list.splits)
    then show ?thesis by (cases i) simp_all
  qed
  moreover from this have "walkers ths = 0" by (auto simp: walkers_def)
  ultimately show ?thesis by (simp add: exclusive_def)
qed

text \<open>The links of the list: its ends, the nodes in memory and their pointers.\<close>

definition links :: "user_store \<Rightarrow> nat option \<times> nat option \<times> (nat \<rightharpoonup> nat option \<times> nat option)" where
  "links s = (dfront (users s), dback (users s), \<lambda>a. map_option (\<lambda>n. (prev_ptr n, next_ptr n)) (heap (users s) a))"

lemma links_kept:
  "update_user p f s = ret s' \<Longrightarrow> links s' = links s"
  by (cases p) (auto simp: update_user_def set_item_def assign_def deref_def links_def fun_eq_iff
    elim!: bindR_retE split: option.splits)

lemma links_lock [simp]: "links (s\<lparr>user_lock := b\<rparr>) = links s"
  by (simp add: links_def)

lemma exec_links:
  assumes "exec R i st = Some (ret (st', js))" and "user_lock (ustore st)"
  shows "links (ustore st') = links (ustore st)"
  using assms
  by (cases i)
    (auto simp: if_free_def clear_msg_def respond_def send_self_def send_to_def mq_receive_def login_response_for_def
      handle_invalid_def user_should_shutdown_def logout_user_def is_name_free_def Let_def unlock_user_mutex_def
      dest!: links_kept elim!: bindR_retE split: if_splits option.splits list.splits)

text \<open>C14: One iteration at a time: however many threads of clients and of the agent run, and in whatever
  order, whatever the races of the shared variables do to them, at most one thread is inside an
  iteration over the users, and only while the mutex is held.\<close>

theorem iterations_exclude_each_other:
  assumes "\<forall>th \<in> set ths. starting th" and "run_schedule ks (st, ths) = ret (st', ths')"
  shows "walkers ths' \<le> held st'"
  using run_exclusive [OF assms(2) starting_exclusive [OF assms(1)]] by (simp add: exclusive_def)

lemma example_connections_start: "\<forall>th \<in> set example_connections. starting th"
  by (simp add: example_connections_def client_thread_def starting_def)

theorem iterations_exclude_each_other_witness:
  "\<exists>st' ths'. run_schedule [0, 1] (example_server 0, example_connections) = ret (st', ths') \<and> walkers ths' \<le> held st'"
proof -
  obtain st' ths' where "run_schedule [0, 1] (example_server 0, example_connections) = ret (st', ths')"
    using example_connections_run by auto
  from iterations_exclude_each_other [OF example_connections_start this] this show ?thesis by blast
qed

text \<open>C15: An iteration is undisturbed: while a thread is inside an iteration over the users, no step of
  another one adds, frees or relinks a user, however many threads run and in whatever order they came
  there.\<close>

theorem iteration_is_undisturbed:
  assumes "\<forall>th \<in> set ths. starting th" and "run_schedule ks (st, ths) = ret (st', ths')"
    and "k < length ths'" and "0 < walks (to_do (ths' ! k))" and "system_step j (st', ths') = Some (ret (st'', ths''))"
  shows "links (ustore st'') = links (ustore st')"
proof -
  have "walks (to_do (ths' ! k)) \<le> held st'"
    using walkers_update(2) [OF assms(3)] run_exclusive [OF assms(2) starting_exclusive [OF assms(1)]]
    by (simp add: exclusive_def)
  then have "user_lock (ustore st')" using assms(4) by (simp add: held_def split: if_splits)
  moreover obtain R i js where "exec R i st' = Some (ret (st'', js))"
    using system_stepE [OF assms(5)] by (metis fst_conv)
  ultimately show ?thesis using exec_links by blast
qed

theorem iteration_is_undisturbed_witness:
  "\<exists>st' ths' st'' ths''. run_schedule [0, 1, 1, 1] ((example_server 0)\<lparr>broadcast_queue := [\<lparr>sender = None, qmsg = example_notice\<rparr>]\<rparr>,
      [client_thread 9 4 None [], agent_thread (example_round 0 [])]) = ret (st', ths')
    \<and> 0 < walks (to_do (ths' ! 1)) \<and> system_step 0 (st', ths') = Some (ret (st'', ths''))
    \<and> links (ustore st'') = links (ustore st')"
proof -
  let ?S = "((example_server 0)\<lparr>broadcast_queue := [\<lparr>sender = None, qmsg = example_notice\<rparr>]\<rparr>,
      [client_thread 9 4 None [], agent_thread (example_round 0 [])])"
  have at: "users_at example_room [0, 1, 2]" using example_room_inv by (simp add: users_inv_at_def)
  have "List.find (\<lambda>a. sock (user_at example_room a) = 4) [0, 1, 2] = Some 0" by code_simp
  then have "f_find_User 4 example_room = ret (Some 0, example_room)" by (simp only: f_find_User_at [OF at])
  moreover have "\<not> user_lock example_room" using at by (simp add: users_at_def)
  ultimately have "\<exists>st' ths' st'' ths''. run_schedule [0, 1, 1, 1] ?S = ret (st', ths') \<and> length ths' = 2
      \<and> 0 < walks (to_do (ths' ! 1)) \<and> system_step 0 (st', ths') = Some (ret (st'', ths''))"
    by (simp add: client_thread_def agent_thread_def system_step_def step_defs if_free_def mq_receive_def example_server_def)
  then obtain st' ths' st'' ths'' where r: "run_schedule [0, 1, 1, 1] ?S = ret (st', ths')" "length ths' = 2"
    "0 < walks (to_do (ths' ! 1))" "system_step 0 (st', ths') = Some (ret (st'', ths''))" by blast
  have "\<forall>th \<in> set (snd ?S). starting th" by (simp add: starting_def client_thread_def agent_thread_def)
  then have "links (ustore st'') = links (ustore st')"
    using iteration_is_undisturbed [OF _ r(1) _ r(3,4)] r(2) by simp
  with r show ?thesis by blast
qed

section \<open>The message queue\<close>

text \<open>What the step of a thread puts into the queue and takes from it.\<close>

definition puts :: "nat \<Rightarrow> system \<Rightarrow> queue_message list" where
  "puts k S = (if system_step k S = None then []
     else case to_do (snd S ! k) of I_Mq_send q refused # is \<Rightarrow> if mq_send_ok (current (snd S ! k)) then [q] else [] | _ \<Rightarrow> [])"

definition takes :: "nat \<Rightarrow> system \<Rightarrow> queue_message list" where
  "takes k S = (if system_step k S = None then []
     else case to_do (snd S ! k) of A_Receive # is \<Rightarrow> take 1 (broadcast_queue (fst S)) | _ \<Rightarrow> [])"

text \<open>Along a schedule, up to a fault.\<close>

fun along :: "(nat \<Rightarrow> system \<Rightarrow> queue_message list) \<Rightarrow> nat list \<Rightarrow> system \<Rightarrow> queue_message list" where
  "along f [] S = []"
| "along f (k # ks) S = f k S @ (case system_step k S of
      None \<Rightarrow> along f ks S
    | Some r \<Rightarrow> (case r of Some (Inr S') \<Rightarrow> along f ks S' | _ \<Rightarrow> []))"

lemma exec_queue:
  assumes "exec R i st = Some (ret (st', js))"
  shows "mq_maxmsg st' = mq_maxmsg st \<and> (case i of
      I_Mq_send q refused \<Rightarrow> (if mq_send_ok R then broadcast_queue st' = broadcast_queue st @ [q]
          \<and> length (broadcast_queue st) < mq_maxmsg st else broadcast_queue st' = broadcast_queue st)
    | A_Receive \<Rightarrow> broadcast_queue st = take 1 (broadcast_queue st) @ broadcast_queue st'
    | _ \<Rightarrow> broadcast_queue st' = broadcast_queue st)"
  using assms
  by (cases i)
    (auto simp: if_free_def clear_msg_def respond_def send_self_def send_to_def mq_receive_def login_response_for_def
      handle_invalid_def Let_def elim!: bindR_retE split: if_splits option.splits list.splits)

lemma step_queue:
  assumes "system_step k S = Some (ret S')"
  shows "broadcast_queue (fst S) @ puts k S = takes k S @ broadcast_queue (fst S')
    \<and> (length (broadcast_queue (fst S)) \<le> mq_maxmsg (fst S) \<longrightarrow> length (broadcast_queue (fst S')) \<le> mq_maxmsg (fst S'))"
proof -
  obtain R i "is" js st' th' where s: "k < length (snd S)" "to_do (snd S ! k) = i # is"
    "exec R i (fst S) = Some (ret (st', js))" "S' = (st', (snd S)[k := th'])"
    by (rule system_stepE [OF assms])
  note q = exec_queue [OF s(3)]
  show ?thesis
  proof (cases "\<exists>m refused. i = I_Mq_send m refused")
    case True
    then obtain m refused where i: "i = I_Mq_send m refused" by blast
    let ?R = "current (snd S ! k)"
    have "thread_step (snd S ! k) (fst S) = proceed (snd S ! k) is (exec ?R i (fst S))"
      by (rule thread_step_plain [OF s(2)]) (simp add: i)
    moreover have "\<exists>th. thread_step (snd S ! k) (fst S) = Some (ret (st', th))"
      using assms s(1,4) by (auto simp: system_step_def elim!: bindR_retE)
    ultimately obtain js where "exec ?R i (fst S) = Some (ret (st', js))" by (auto dest: proceed_ret simp del: exec.simps)
    from exec_queue [OF this] show ?thesis
      using assms s(2,4) i by (auto simp: puts_def takes_def split: if_splits)
  next
    case False
    then have "puts k S = []" using s(2) by (auto simp: puts_def split: instr.split)
    moreover have "broadcast_queue (fst S) = takes k S @ broadcast_queue st'"
      using q s(2) assms False by (cases i) (simp_all add: takes_def del: exec.simps)
    moreover have "mq_maxmsg st' = mq_maxmsg (fst S)" using q by simp
    ultimately show ?thesis using s(4) by (metis append.right_neutral add_leE fst_conv length_append)
  qed
qed

text \<open>The queue keeps its order for all threads: however many threads run and in whatever order, what
  they have put into the queue, behind what was there before, is what has been taken from it and then
  what is still there, in the same order; nothing is lost, doubled or overtaken, and the queue never
  holds more than its limit, also when two threads have passed the test for the last place.\<close>

theorem queue_is_fifo_for_all_threads:
  assumes "run_schedule ks S = ret S'" and "length (broadcast_queue (fst S)) \<le> mq_maxmsg (fst S)"
  shows "broadcast_queue (fst S) @ along puts ks S = along takes ks S @ broadcast_queue (fst S')
    \<and> length (broadcast_queue (fst S')) \<le> mq_maxmsg (fst S')"
  using assms
proof (induction ks arbitrary: S)
  case (Cons k ks)
  show ?case
  proof (cases "system_step k S")
    case None
    then show ?thesis using Cons by (simp add: puts_def takes_def)
  next
    case (Some r)
    then obtain T where T: "system_step k S = Some (ret T)" "run_schedule ks T = ret S'"
      using Cons.prems(1) by (auto elim!: bindR_retE)
    note st = step_queue [OF T(1)]
    with Cons.IH [OF T(2)] Cons.prems(2)
    have "broadcast_queue (fst T) @ along puts ks T = along takes ks T @ broadcast_queue (fst S')"
      "length (broadcast_queue (fst S')) \<le> mq_maxmsg (fst S')" by simp_all
    then show ?thesis using st T(1) by simp (metis append.assoc)
  qed
qed simp

theorem queue_is_fifo_for_all_threads_witness:
  "\<exists>S. run_schedule [0, 0, 1] (example_server 0, [\<lparr>to_do = [I_Queue queue_full], current = example_round 2 [72, 105], coming = []\<rparr>,
      agent_thread (example_round 0 [])]) = ret S
    \<and> along puts [0, 0, 1] (example_server 0, [\<lparr>to_do = [I_Queue queue_full], current = example_round 2 [72, 105], coming = []\<rparr>,
      agent_thread (example_round 0 [])]) = along takes [0, 0, 1] (example_server 0, [\<lparr>to_do = [I_Queue queue_full],
      current = example_round 2 [72, 105], coming = []\<rparr>, agent_thread (example_round 0 [])]) @ broadcast_queue (fst S)"
proof -
  let ?S = "(example_server 0, [\<lparr>to_do = [I_Queue queue_full], current = example_round 2 [72, 105], coming = []\<rparr>,
      agent_thread (example_round 0 [])])"
  have "\<exists>S. run_schedule [0, 0, 1] ?S = ret S"
    by (simp add: agent_thread_def system_step_def step_defs mq_receive_def example_server_def example_round_def)
  then obtain S where r: "run_schedule [0, 0, 1] ?S = ret S" by blast
  have "broadcast_queue (fst ?S) = []" "length (broadcast_queue (fst ?S)) \<le> mq_maxmsg (fst ?S)"
    by (simp_all add: example_server_def)
  with queue_is_fifo_for_all_threads [OF r] r show ?thesis by simp
qed

end
