(* ===== verification/Threads_Rounds.thy ===== *)
theory Threads_Rounds
  imports Threads
begin

text \<open>
  The instructions of a client's thread against the rounds of \<open>Client\<close>: a predicate for code that
  runs to its end, the code of every handler along the handler's function, and the whole thread run
  on its own.
\<close>

lemma bindR_first: "bindR m f = ret y \<Longrightarrow> \<exists>x. m = ret x"
  by (auto simp: bindR_ret_iff)

section \<open>Code that runs to its end\<close>

text \<open>What \<^const>\<open>network_Send\<close> can send without leaving its buffer, on any host.\<close>

definition sendable :: "byte list \<Rightarrow> bool" where
  "sendable m \<longleftrightarrow> (\<exists>t body. length m = 555 \<and> length body \<le> 552 \<and> take (3 + length body) m = frame t body \<and> loggable m)"

lemma sendable_frame: "sendable m \<longleftrightarrow> (\<exists>t body. carries_frame E m t body)"
  by (simp add: sendable_def carries_frame_def printable_iff)

definition queueing :: "instr \<Rightarrow> bool" where
  "queueing i \<longleftrightarrow> (case i of I_Queue _ \<Rightarrow> True | I_Mq_send _ _ \<Rightarrow> True | _ \<Rightarrow> False)"

definition restructures :: "instr \<Rightarrow> bool" where
  "restructures i \<longleftrightarrow> (case i of I_Add_user _ _ _ \<Rightarrow> True | I_Unlink _ \<Rightarrow> True | _ \<Rightarrow> False)"

definition list_ok :: "server_state \<Rightarrow> bool" where
  "list_ok st \<longleftrightarrow> (\<exists>as. dll_ok (users (ustore st)) as)"

text \<open>The instructions of a client's thread: all but the agent's own.\<close>

definition clients :: "instr \<Rightarrow> bool" where
  "clients i \<longleftrightarrow> (case i of A_Receive \<Rightarrow> False | A_Wait \<Rightarrow> False | A_Send_to _ \<Rightarrow> False | A_Post \<Rightarrow> False
     | I_Lock w \<Rightarrow> w \<noteq> Delivery | I_Target w _ \<Rightarrow> w \<noteq> Delivery | I_Next w _ \<Rightarrow> w \<noteq> Delivery | _ \<Rightarrow> True)"

text \<open>
  What a step keeps to besides not failing: a mutex that is released is held, none is held while the
  thread waits for the semaphore, and, with \<open>any\<close>, the list of users is well formed after a change of
  its structure.
\<close>

definition step_fine :: "bool \<Rightarrow> instr \<Rightarrow> server_state \<Rightarrow> server_state \<Rightarrow> bool" where
  "step_fine any i st st' \<longleftrightarrow> i \<noteq> I_Check \<and> clients i \<and> \<not> (any \<and> queueing i)
     \<and> (i = I_Unlock \<longrightarrow> user_lock (ustore st)) \<and> (i = I_Sem_wait \<longrightarrow> \<not> user_lock (ustore st))
     \<and> (any \<and> restructures i \<longrightarrow> list_ok st')"

text \<open>
  The code, executed with nothing else running, comes to its end in a state with \<open>Q\<close>, and no
  instruction fails or waits. With \<open>any\<close> it does so whatever
  the message queue answers: the queue
  of the state is not looked at, and what is offered to it can be sent.
\<close>

inductive leads ::
    "bool \<Rightarrow> (server_state \<Rightarrow> bool) \<Rightarrow> round_input \<Rightarrow> round_input list \<Rightarrow> instr list \<Rightarrow> server_state \<Rightarrow> bool"
  for any Q where
  ended: "Q st \<Longrightarrow> leads any Q R Rs [] st"
| step: "exec R i st = Some (ret (st', js)) \<Longrightarrow> step_fine any i st st' \<Longrightarrow> leads any Q R Rs (js @ is) st' \<Longrightarrow> leads any Q R Rs (i # is) st"
| check: "exec R' I_Check st = Some (ret (st', js)) \<Longrightarrow> leads any Q R' Rs (js @ is) st' \<Longrightarrow>
    leads any Q R (R' # Rs) (I_Check # is) st"
| offer: "any \<Longrightarrow> sendable (msg st) \<Longrightarrow> leads any Q R Rs is st \<Longrightarrow>
    leads any Q R Rs (refused @ is) st \<Longrightarrow> leads any Q R Rs (I_Queue refused # is) st"

inductive_cases leads_instrE: "leads any Q R Rs (i # is) st"
inductive_simps leads_nil: "leads any Q R Rs [] st"

definition plain :: "instr \<Rightarrow> bool" where
  "plain i \<longleftrightarrow> i \<noteq> I_Check \<and> i \<noteq> I_Unlock \<and> i \<noteq> I_Sem_wait \<and> clients i \<and> \<not> queueing i \<and> \<not> restructures i"

lemma leads_next:
  assumes "i \<noteq> I_Check" and "\<not> (any \<and> queueing i)"
  shows "leads any Q R Rs (i # is) st \<longleftrightarrow>
    (\<exists>st' js. exec R i st = Some (ret (st', js)) \<and> step_fine any i st st' \<and> leads any Q R Rs (js @ is) st')"
  using assms by (auto intro: leads.step elim!: leads_instrE simp: queueing_def)

text \<open>One instruction after another, for simplification.\<close>

lemma leads_simps:
  "plain i \<Longrightarrow> leads any Q R Rs (i # is) st \<longleftrightarrow>
    (\<exists>st' js. exec R i st = Some (ret (st', js)) \<and> leads any Q R Rs (js @ is) st')"
  "leads False Q R Rs (I_Queue refused # is) st \<longleftrightarrow>
    (\<exists>st' js. exec R (I_Queue refused) st = Some (ret (st', js)) \<and> leads False Q R Rs (js @ is) st')"
  "leads False Q R Rs (I_Mq_send q refused # is) st \<longleftrightarrow>
    (\<exists>st' js. exec R (I_Mq_send q refused) st = Some (ret (st', js)) \<and> leads False Q R Rs (js @ is) st')"
  "leads any Q R Rs (I_Unlock # is) st \<longleftrightarrow>
    user_lock (ustore st) \<and> leads any Q R Rs is (st\<lparr>ustore := unlock_user_mutex (ustore st)\<rparr>)"
  "leads any Q R Rs (I_Unlink p # is) st \<longleftrightarrow> \<not> user_lock (ustore st) \<and> (\<exists>us. unlink_User p (ustore st) = ret us
    \<and> (any \<longrightarrow> list_ok (st\<lparr>ustore := us\<rparr>)) \<and> leads any Q R Rs is (st\<lparr>ustore := us\<rparr>))"
  "leads any Q R Rs (I_Add_user t sk m # is) st \<longleftrightarrow> \<not> user_lock (ustore st)
    \<and> (\<exists>u us. add_User t sk m (ustore st) = ret (u, us) \<and> (any \<longrightarrow> list_ok (st\<lparr>ustore := us\<rparr>))
         \<and> leads any Q R Rs (I_Begin u # is) (st\<lparr>ustore := us\<rparr>))"
  "leads any Q R Rs (I_Sem_wait # is) st \<longleftrightarrow> \<not> user_lock (ustore st) \<and> broadcast_sem st \<noteq> 0
    \<and> leads any Q R Rs is (st\<lparr>broadcast_sem := broadcast_sem st - 1\<rparr>)"
  by (subst leads_next; auto simp: plain_def step_fine_def clients_def queueing_def restructures_def if_free_def bindR_ret_iff)+

lemma plain_simps [simp]:
  "plain (I_Find_socket t sk m)" "plain (I_Begin u)" "plain I_Top"
  "plain I_Length" "plain I_Receive" "plain I_Copy_name" "plain (I_Name_free nm)"
  "plain (I_Build_login c)" "plain (I_Login nm)" "plain I_Register" "plain I_Build_added"
  "plain (I_Build_old a)" "plain I_Build_text" "plain (I_Respond f)" "plain I_Send_self"
  "plain I_Clear" "plain I_Is_admin" "plain I_Command" "plain I_Kick_name"
  "plain (I_Not_found nk)" "plain (I_Close a)" "plain (I_Mark a)" "plain I_Pause"
  "plain I_Set_paused" "plain I_Resume" "plain I_Sem_post"
  "plain I_Unset_paused" "plain (I_Build_help d)" "plain I_Invalid" "plain I_Shutdown"
  "plain I_Logout" "plain I_Reason" "plain I_Has_name" "plain I_Build_removed"
  "plain I_Close_self" "plain I_Find_own" "plain (I_Send_to a)"
  by (simp_all add: plain_def clients_def queueing_def restructures_def)

lemma leads_walk:
  assumes "w \<noteq> Delivery"
  shows "leads any Q R Rs (I_Lock w # is) st \<longleftrightarrow> \<not> user_lock (ustore st) \<and> leads any Q R Rs
     (I_Target w (dfront (users (ustore st))) # is) (st\<lparr>ustore := (ustore st)\<lparr>user_lock := True\<rparr>\<rparr>)"
  and "leads any Q R Rs (I_Target w None # is) st \<longleftrightarrow> leads any Q R Rs (walk_end w @ is) st"
  and "walk_test w t st = ret True \<Longrightarrow>
     leads any Q R Rs (I_Target w (Some t) # is) st \<longleftrightarrow> leads any Q R Rs (walk_body w t @ is) st"
  and "walk_test w t st = ret False \<Longrightarrow>
     leads any Q R Rs (I_Target w (Some t) # is) st \<longleftrightarrow> leads any Q R Rs (I_Next w t # is) st"
  and "iterate_User (Some t) (ustore st) = ret p \<Longrightarrow>
     leads any Q R Rs (I_Next w t # is) st \<longleftrightarrow> leads any Q R Rs (I_Target w p # is) st"
  using assms
  by (auto simp: leads_next step_fine_def clients_def queueing_def restructures_def if_free_def get_First_User_def)

section \<open>The loops over the users\<close>

text \<open>
  A loop of \<^const>\<open>iterate_from\<close> and the instructions of a walk, side by side: \<open>pr\<close> is the server's
  state in the state of the loop, \<open>I\<close> holds at every user, and \<open>L\<close> says that the code behind the loop
  leads on from its last state.
\<close>

lemma iterate_leads_raw:
  assumes "iterate_from get body p s = Some y" and w: "w \<noteq> Delivery"
  shows "y = Inr s' \<longrightarrow> I s \<longrightarrow> L s'
    \<longrightarrow> (\<forall>t s s1. I s \<longrightarrow> body t s = ret (False, s1) \<longrightarrow>
          I s1 \<and> (leads any Q R Rs (I_Next w t # is) (pr s1) \<longrightarrow> leads any Q R Rs (I_Target w (Some t) # is) (pr s)))
    \<longrightarrow> (\<forall>t s s1. I s \<longrightarrow> body t s = ret (True, s1) \<longrightarrow> L s1 \<longrightarrow> leads any Q R Rs (I_Target w (Some t) # is) (pr s))
    \<longrightarrow> (\<forall>s. I s \<longrightarrow> L s \<longrightarrow> leads any Q R Rs (I_Target w None # is) (pr s))
    \<longrightarrow> (\<forall>s. ustore (pr s) = get s)
    \<longrightarrow> leads any Q R Rs (I_Target w p # is) (pr s)"
proof (rule iterate_from.raw_induct [where
      P = "\<lambda>get body p s y. y = Inr s' \<longrightarrow> I s \<longrightarrow> L s'
    \<longrightarrow> (\<forall>t s s1. I s \<longrightarrow> body t s = ret (False, s1) \<longrightarrow>
          I s1 \<and> (leads any Q R Rs (I_Next w t # is) (pr s1) \<longrightarrow> leads any Q R Rs (I_Target w (Some t) # is) (pr s)))
    \<longrightarrow> (\<forall>t s s1. I s \<longrightarrow> body t s = ret (True, s1) \<longrightarrow> L s1 \<longrightarrow> leads any Q R Rs (I_Target w (Some t) # is) (pr s))
    \<longrightarrow> (\<forall>s. I s \<longrightarrow> L s \<longrightarrow> leads any Q R Rs (I_Target w None # is) (pr s))
    \<longrightarrow> (\<forall>s. ustore (pr s) = get s)
    \<longrightarrow> leads any Q R Rs (I_Target w p # is) (pr s)", OF _ assms(1)], intro impI)
  fix iter get body p s y
  assume ih: "\<And>get body p s y. iter get body p s = Some y \<Longrightarrow> y = Inr s' \<longrightarrow> I s \<longrightarrow> L s'
    \<longrightarrow> (\<forall>t s s1. I s \<longrightarrow> body t s = ret (False, s1) \<longrightarrow>
          I s1 \<and> (leads any Q R Rs (I_Next w t # is) (pr s1) \<longrightarrow> leads any Q R Rs (I_Target w (Some t) # is) (pr s)))
    \<longrightarrow> (\<forall>t s s1. I s \<longrightarrow> body t s = ret (True, s1) \<longrightarrow> L s1 \<longrightarrow> leads any Q R Rs (I_Target w (Some t) # is) (pr s))
    \<longrightarrow> (\<forall>s. I s \<longrightarrow> L s \<longrightarrow> leads any Q R Rs (I_Target w None # is) (pr s))
    \<longrightarrow> (\<forall>s. ustore (pr s) = get s)
    \<longrightarrow> leads any Q R Rs (I_Target w p # is) (pr s)"
    and run: "(case p of None \<Rightarrow> ret s
      | Some t \<Rightarrow> bindR (body t s) (\<lambda>r. if fst r then ret (snd r)
          else bindR (iterate_User (Some t) (get (snd r))) (\<lambda>t'. iter get body t' (snd r)))) = Some y"
    and y: "y = Inr s'" and I: "I s" and L: "L s'"
    and nx: "\<forall>t s s1. I s \<longrightarrow> body t s = ret (False, s1) \<longrightarrow>
          I s1 \<and> (leads any Q R Rs (I_Next w t # is) (pr s1) \<longrightarrow> leads any Q R Rs (I_Target w (Some t) # is) (pr s))"
    and br: "\<forall>t s s1. I s \<longrightarrow> body t s = ret (True, s1) \<longrightarrow> L s1 \<longrightarrow> leads any Q R Rs (I_Target w (Some t) # is) (pr s)"
    and en: "\<forall>s. I s \<longrightarrow> L s \<longrightarrow> leads any Q R Rs (I_Target w None # is) (pr s)"
    and us: "\<forall>s. ustore (pr s) = get s"
  show "leads any Q R Rs (I_Target w p # is) (pr s)"
  proof (cases p)
    case None
    then show ?thesis using run y I L en by simp
  next
    case (Some t)
    then have "bindR (body t s) (\<lambda>r. if fst r then ret (snd r)
        else bindR (iterate_User (Some t) (get (snd r))) (\<lambda>t'. iter get body t' (snd r))) = ret s'"
      using run y by simp
    then obtain r where "body t s = ret r" "(if fst r then ret (snd r)
        else bindR (iterate_User (Some t) (get (snd r))) (\<lambda>t'. iter get body t' (snd r))) = ret s'"
      unfolding bindR_ret_iff by blast
    then obtain b s1 where r: "body t s = ret (b, s1)"
      "(if b then ret s1 else bindR (iterate_User (Some t) (get s1)) (\<lambda>t'. iter get body t' s1)) = ret s'"
      using that [of "fst r" "snd r"] by simp
    show ?thesis
    proof (cases b)
      case True
      then show ?thesis using r I L br Some by auto
    next
      case False
      then obtain t' where t': "iterate_User (Some t) (get s1) = ret t'" "iter get body t' s1 = ret s'"
        using r(2) by (auto simp: bindR_ret_iff)
      have b: "body t s = ret (False, s1)" using r(1) False by simp
      have I1: "I s1" using nx I b by blast
      have "leads any Q R Rs (I_Target w t' # is) (pr s1)"
        using ih [OF t'(2)] I1 L nx br en us by blast
      then have "leads any Q R Rs (I_Next w t # is) (pr s1)"
        using t'(1) us w by (simp add: leads_walk)
      then show ?thesis using nx I b Some by blast
    qed
  qed
qed

lemma iterate_leads:
  assumes "iterate_from get body p s = ret s'" and "I s" and "L s'"
    and "\<And>t s s1. I s \<Longrightarrow> body t s = ret (False, s1) \<Longrightarrow> I s1"
    and "\<And>t s s1. I s \<Longrightarrow> body t s = ret (False, s1) \<Longrightarrow> leads any Q R Rs (I_Next w t # is) (pr s1) \<Longrightarrow>
      leads any Q R Rs (I_Target w (Some t) # is) (pr s)"
    and "\<And>t s s1. I s \<Longrightarrow> body t s = ret (True, s1) \<Longrightarrow> L s1 \<Longrightarrow> leads any Q R Rs (I_Target w (Some t) # is) (pr s)"
    and "\<And>s. I s \<Longrightarrow> L s \<Longrightarrow> leads any Q R Rs (I_Target w None # is) (pr s)"
    and "\<And>s. ustore (pr s) = get s" and w: "w \<noteq> Delivery"
  shows "leads any Q R Rs (I_Target w p # is) (pr s)"
proof -
  have "\<forall>t s s1. I s \<longrightarrow> body t s = ret (False, s1) \<longrightarrow>
      I s1 \<and> (leads any Q R Rs (I_Next w t # is) (pr s1) \<longrightarrow> leads any Q R Rs (I_Target w (Some t) # is) (pr s))"
    "\<forall>t s s1. I s \<longrightarrow> body t s = ret (True, s1) \<longrightarrow> L s1 \<longrightarrow> leads any Q R Rs (I_Target w (Some t) # is) (pr s)"
    "\<forall>s. I s \<longrightarrow> L s \<longrightarrow> leads any Q R Rs (I_Target w None # is) (pr s)"
    "\<forall>s. ustore (pr s) = get s"
    using assms(4-8) by blast+
  then show ?thesis
    using iterate_leads_raw [OF assms(1) w, of s' I L any Q R Rs "is" pr] assms(2,3) by blast
qed

text \<open>A loop without a \<^verbatim>\<open>break\<close>, from taking the mutex to releasing it.\<close>

lemma over_users_leads:
  assumes run: "over_users body st = ret st'" and after: "leads any Q R Rs is st'"
    and body: "\<And>t s b s1. body t s = ret (b, s1) \<Longrightarrow> \<not> b \<and> ustore s1 = ustore s \<and>
      (leads any Q R Rs (I_Next w t # is) s1 \<longrightarrow> leads any Q R Rs (I_Target w (Some t) # is) s)"
    and w: "walk_end w = [I_Unlock]" "w \<noteq> Delivery"
  shows "leads any Q R Rs (I_Lock w # is) st"
proof -
  obtain us st1 where l: "lock_user_mutex (ustore st) = ret us"
    and it: "iterate_from ustore body (get_First_User us) (st\<lparr>ustore := us\<rparr>) = ret st1"
    and st': "st' = st1\<lparr>ustore := unlock_user_mutex (ustore st1)\<rparr>"
    using run by (auto simp: ITERATE_OVER_USERS_def bindR_ret_iff)
  have us: "\<not> user_lock (ustore st)" "us = (ustore st)\<lparr>user_lock := True\<rparr>"
    using l by (auto simp: lock_user_mutex_def split: if_splits)
  have keep: "ustore (snd r) = ustore s" if "body t s = ret r" for t s r
    using body [of t s "fst r" "snd r"] that by simp
  have "ustore st1 = us"
    by (rule iterate_from_keeps [OF it]) (use keep in auto)
  then have "leads any Q R Rs (I_Unlock # is) st1" using after us(2) by (simp add: leads_simps st')
  then have "leads any Q R Rs (I_Target w (get_First_User us) # is) (st\<lparr>ustore := us\<rparr>)"
  proof (intro iterate_leads [OF it, where I = "\<lambda>_. True" and pr = "\<lambda>s. s"
        and L = "\<lambda>s. leads any Q R Rs (I_Unlock # is) s"])
    fix t s s1 assume b: "body t s = ret (False, s1)" and n: "leads any Q R Rs (I_Next w t # is) s1"
    then show "leads any Q R Rs (I_Target w (Some t) # is) s" using body [OF b] by simp
  next
    fix t s s1 assume "body t s = ret (True, s1)"
    then show "leads any Q R Rs (I_Target w (Some t) # is) s" using body by blast
  next
    fix s assume "leads any Q R Rs (I_Unlock # is) s"
    then show "leads any Q R Rs (I_Target w None # is) s" by (simp add: leads_walk w)
  qed (use w in simp_all)
  then show ?thesis using us w by (simp add: leads_walk get_First_User_def)
qed

lemma send_if_leads:
  assumes "send_if (net_env R) (walk_test w) t s = ret (b, s1)" and "w \<noteq> Delivery" and "walk_body w t = [I_Send_to t, I_Next w t]"
  shows "\<not> b \<and> ustore s1 = ustore s
    \<and> (leads any Q R Rs (I_Next w t # is) s1 \<longrightarrow> leads any Q R Rs (I_Target w (Some t) # is) s)"
proof -
  obtain c where "walk_test w t s = ret c" using assms(1) by (auto simp: send_if_def bindR_ret_iff)
  then show ?thesis
    using assms by (cases c) (auto simp: send_if_def send_to_def bindR_ret_iff leads_simps leads_walk)
qed

lemma walk_tests: "walk_test Logged_In = logged_in_test" "walk_test Others = others_test"
  by (simp_all add: walk_test_def fun_eq_iff)

lemma logged_in_leads:
  assumes "over_users (send_if (net_env R) logged_in_test) st = ret st'" and "leads any Q R Rs is st'"
  shows "leads any Q R Rs (I_Lock Logged_In # is) st"
  by (rule over_users_leads [OF assms], rule send_if_leads) (simp_all add: walk_tests walk_body_def walk_end_def)

lemma others_leads:
  assumes "over_users (send_if (net_env R) others_test) st = ret st'" and "leads any Q R Rs is st'"
  shows "leads any Q R Rs (I_Lock Others # is) st"
  by (rule over_users_leads [OF assms], rule send_if_leads) (simp_all add: walk_tests walk_body_def walk_end_def)

lemma old_users_leads:
  assumes "over_users (old_user_body (net_env R)) st = ret st'" and "leads any Q R Rs is st'"
  shows "leads any Q R Rs (I_Lock Old_Users # is) st"
proof (rule over_users_leads [OF assms])
  fix t s b s1 assume b: "old_user_body (net_env R) t s = ret (b, s1)"
  then obtain c where "walk_test Old_Users t s = ret c"
    by (auto simp: old_user_body_def walk_test_def bindR_ret_iff)
  then show "\<not> b \<and> ustore s1 = ustore s \<and> (leads any Q R Rs (I_Next Old_Users t # is) s1 \<longrightarrow>
      leads any Q R Rs (I_Target Old_Users (Some t) # is) s)"
    using b by (cases c) (auto simp: old_user_body_def walk_test_def bindR_ret_iff leads_simps leads_walk
        walk_body_def send_self_def send_to_def clear_msg_def)
qed (simp_all add: walk_end_def)

lemma kick_body_walk:
  assumes "kick_body nk t p = ret (b, p1)"
  shows "walk_test (Kicked nk) t (snd p) = ret b"
    and "if b then fst p1 \<and> (\<exists>sk us. user_sock (Some t) (ustore (snd p)) = ret sk
           \<and> user_should_shutdown (Some t) (ustore (snd p)) = ret us
           \<and> snd p1 = (snd p)\<lparr>closed_socks := closed_socks (snd p) @ [sk], ustore := us\<rparr>)
         else p1 = p"
proof -
  obtain f s where p: "p = (f, s)" by (cases p)
  obtain nm where nm: "get_User_name (Some t) (ustore s) = ret nm"
    using assms unfolding kick_body_def p Let_def prod.case bindR_ret_iff by blast
  obtain k where k: "nk = Some k" using assms nm by (cases nk) (simp_all add: kick_body_def p)
  obtain eq c where c: "c_streq nm k = ret eq"
    "(if eq then is_User_LoggedIn (Some t) (ustore s) else ret False) = ret c"
    using assms nm unfolding kick_body_def p k Let_def prod.case bindR_ret_iff option.case by force
  have run: "(if c then bindR (user_sock (Some t) (ustore s)) (\<lambda>sk.
      bindR (user_should_shutdown (Some t) (ustore s)) (\<lambda>us.
        ret (True, True, s\<lparr>closed_socks := closed_socks s @ [sk], ustore := us\<rparr>))) else ret (False, f, s)) = ret (b, p1)"
    using assms nm c by (cases c) (simp_all add: kick_body_def p k Let_def)
  have "walk_test (Kicked nk) t s = ret c" using nm c by (simp add: walk_test_def k)
  moreover have "b = c" using run by (cases c) (auto simp: bindR_ret_iff)
  ultimately show "walk_test (Kicked nk) t (snd p) = ret b" by (simp add: p)
  show "if b then fst p1 \<and> (\<exists>sk us. user_sock (Some t) (ustore (snd p)) = ret sk
           \<and> user_should_shutdown (Some t) (ustore (snd p)) = ret us
           \<and> snd p1 = (snd p)\<lparr>closed_socks := closed_socks (snd p) @ [sk], ustore := us\<rparr>)
         else p1 = p"
    using run \<open>b = c\<close> by (cases c) (auto simp: bindR_ret_iff p)
qed

lemma kick_leads:
  assumes "ITERATE_OVER_USERS (\<lambda>p. ustore (snd p)) (\<lambda>s p. (fst p, (snd p)\<lparr>ustore := s\<rparr>))
      (kick_body nk) (False, st) = ret (found, st')"
    and "leads any Q R Rs ((if found then [] else [I_Not_found nk]) @ is) st'"
  shows "leads any Q R Rs (I_Lock (Kicked nk) # is) st"
proof -
  obtain us p1 where l: "lock_user_mutex (ustore st) = ret us"
    and it: "iterate_from (\<lambda>p. ustore (snd p)) (kick_body nk) (get_First_User us) (False, st\<lparr>ustore := us\<rparr>) = ret p1"
    and p1: "found = fst p1" "st' = (snd p1)\<lparr>ustore := unlock_user_mutex (ustore (snd p1))\<rparr>"
    using assms(1) by (auto simp: ITERATE_OVER_USERS_def bindR_ret_iff)
  have us: "\<not> user_lock (ustore st)" "us = (ustore st)\<lparr>user_lock := True\<rparr>"
    using l by (auto simp: lock_user_mutex_def split: if_splits)
  have lock: "user_lock (ustore (snd s1)) = user_lock (ustore (snd s))" if "kick_body nk t s = ret (b, s1)" for t s b s1
    using kick_body_walk(2) [OF that] by (cases b) (auto simp: user_should_shutdown_def dest: update_user_same_lock)
  have "user_lock (ustore (snd p1))"
    by (rule iterate_from_keeps [OF it]) (use lock us(2) in \<open>auto split: prod.splits\<close>)
  let ?L = "\<lambda>p. leads any Q R Rs (I_Unlock # (if fst p then [] else [I_Not_found nk]) @ is) (snd p)"
  have "leads any Q R Rs (I_Target (Kicked nk) (get_First_User us) # is) (snd (False, st\<lparr>ustore := us\<rparr>))"
  proof (rule iterate_leads [OF it, where I = "\<lambda>p. \<not> fst p" and pr = snd and L = ?L])
    show "?L p1" using assms(2) \<open>user_lock (ustore (snd p1))\<close> by (auto simp: leads_simps p1)
    fix t and s s1 :: "bool \<times> server_state" assume I: "\<not> fst s" and b: "kick_body nk t s = ret (False, s1)"
    show "\<not> fst s1" using I kick_body_walk(2) [OF b] by simp
    assume "leads any Q R Rs (I_Next (Kicked nk) t # is) (snd s1)"
    then show "leads any Q R Rs (I_Target (Kicked nk) (Some t) # is) (snd s)"
      using kick_body_walk [OF b] by (simp add: leads_walk)
  next
    fix t and s s1 :: "bool \<times> server_state" assume b: "kick_body nk t s = ret (True, s1)" and L: "?L s1"
    then show "leads any Q R Rs (I_Target (Kicked nk) (Some t) # is) (snd s)"
      using kick_body_walk [OF b] by (auto simp: leads_walk leads_simps walk_body_def)
  next
    fix s assume "\<not> fst s" "?L s"
    then show "leads any Q R Rs (I_Target (Kicked nk) None # is) (snd s)"
      by (simp add: leads_walk walk_end_def)
  qed simp_all
  then show ?thesis using us by (simp add: leads_walk get_First_User_def)
qed

section \<open>Logins and texts\<close>

abbreviation announce_code :: "instr list" where
  "announce_code \<equiv> [I_Build_added, I_Queue [], I_Clear, I_Lock Old_Users]"

lemma login_leads:
  assumes run: "handle_login R st = ret st'"
    and refused: "\<And>s. (\<And>b. handle_login (R\<lparr>mq_send_ok := b\<rparr>) st = ret s) \<Longrightarrow> leads any Q R Rs is s"
    and announce: "\<And>s. (\<And>b. handle_login (R\<lparr>mq_send_ok := b\<rparr>) st = announce_login (R\<lparr>mq_send_ok := b\<rparr>) s) \<Longrightarrow>
      broadcast_queue s = broadcast_queue st \<Longrightarrow> mq_maxmsg s = mq_maxmsg st \<Longrightarrow>
      leads any Q R Rs (announce_code @ is) s"
  shows "leads any Q R Rs (I_Copy_name # is) st"
proof -
  let ?E = "net_env R"
  obtain nm where nm: "c_strncpy (replicate NET_NAME_LEN 0) 0 (drop off_auth_name (msg st)) (name_size (msg_length st)) = ret nm"
    using run unfolding handle_login_def Let_def bindR_ret_iff by blast
  obtain rc s1 where s1: "login_response_for nm st = ret (rc, s1)"
    using run nm unfolding handle_login_def Let_def bindR_ret_iff by auto
  then have q1: "broadcast_queue s1 = broadcast_queue st" "mq_maxmsg s1 = mq_maxmsg st"
    and lock: "\<not> (user_lock (ustore st) \<and> dfront (users (ustore st)) \<noteq> None)"
    by (auto simp: login_response_for_def bindR_ret_iff is_name_free_def lock_user_mutex_def Let_def split: if_splits)
  obtain m where m: "build_login_response ?E (get_server_name (conf s1)) (msg s1) rc = ret m"
    using run nm s1 by (auto simp: handle_login_def Let_def dest: bindR_first)
  obtain s2 where s2: "send_self ?E (s1\<lparr>msg := m\<rparr>) = ret s2"
    using run nm s1 m by (auto simp: handle_login_def Let_def dest: bindR_first)
  have q2: "broadcast_queue s2 = broadcast_queue st" "mq_maxmsg s2 = mq_maxmsg st"
    using s2 q1 by (auto simp: send_self_def send_to_def bindR_ret_iff)
  have first: "leads any Q R Rs (I_Copy_name # is) st"
    if "login_answer rc nm = [I_Build_login rc, I_Send_self, I_Clear] @ t" and "leads any Q R Rs (t @ is) (clear_msg s2)" for t
    using that nm s1 lock m s2 by (simp add: leads_simps del: de_Morgan_conj)
  show ?thesis
  proof (cases "rc = LR_success")
    case False
    then have "handle_login (R\<lparr>mq_send_ok := b\<rparr>) st = ret (clear_msg s2)" for b
      using nm s1 m s2 by (simp add: handle_login_def Let_def)
    from refused [OF this] show ?thesis using first [of "[]"] False by (simp add: login_answer_def)
  next
    case True
    let ?s = "clear_msg s2"
    have "bindR (login_User (self ?s) nm (of_nat (name_size (msg_length ?s))) (ustore ?s)) (\<lambda>(_, us).
         (let st = ?s\<lparr>ustore := us\<rparr> in
         bindR (get_User_name (self st) (ustore st)) (\<lambda>nm.
         bindR (register_thread_log_under_Name (file_env R) (entry_memory R) (own_thread R) nm (logs st))
           (\<lambda>(_, lg). announce_login R (clear_msg (st\<lparr>logs := lg\<rparr>)))))) = ret st'"
      using run nm s1 m s2 True by (simp add: handle_login_def Let_def)
    then obtain b us own k lg where
      us: "login_User (self ?s) nm (of_nat (name_size (msg_length ?s))) (ustore ?s) = ret (b, us)"
      and own: "get_User_name (self ?s) us = ret own"
      and lg: "register_thread_log_under_Name (file_env R) (entry_memory R) (own_thread R) own (logs ?s) = ret (k, lg)"
      by (auto simp: bindR_ret_iff Let_def)
    let ?s3 = "clear_msg (?s\<lparr>ustore := us, logs := lg\<rparr>)"
    have "handle_login (R\<lparr>mq_send_ok := b\<rparr>) st = announce_login (R\<lparr>mq_send_ok := b\<rparr>) ?s3" for b
      using nm s1 m s2 True us own lg by (simp add: handle_login_def Let_def)
    then have "leads any Q R Rs (announce_code @ is) ?s3"
      by (rule announce) (use q2 in \<open>simp_all add: clear_msg_def\<close>)
    moreover have "\<not> user_lock (ustore ?s)"
      using us by (auto simp: login_User_def lock_user_mutex_def split: if_splits)
    ultimately have "leads any Q R Rs ([I_Login nm, I_Register, I_Clear] @ announce_code @ is) ?s"
      using us own lg by (simp add: leads_simps if_free_def clear_msg_def)
    then show ?thesis using first [of "[I_Login nm, I_Register, I_Clear] @ announce_code"] True
      by (simp add: login_answer_def)
  qed
qed

lemma announce_steps:
  assumes "announce_login R s = ret st'"
  obtains nm len m where "get_User_name (self s) (ustore s) = ret nm"
    and "get_User_name_length (self s) (ustore s) = ret len"
    and "build_User_Added (net_env R) (msg s) nm len True = ret m"
    and "over_users (old_user_body (net_env R)) (clear_msg (snd (broadcast_message (mq_send_ok R) m None (s\<lparr>msg := m\<rparr>)))) = ret st'"
  using assms unfolding announce_login_def Let_def bindR_ret_iff by auto

lemma announce_alone:
  assumes "announce_login R s = ret st'" and "leads False Q R Rs is st'"
  shows "leads False Q R Rs (announce_code @ is) s"
proof -
  obtain nm len m where m: "get_User_name (self s) (ustore s) = ret nm"
    "get_User_name_length (self s) (ustore s) = ret len" "build_User_Added (net_env R) (msg s) nm len True = ret m"
    and o: "over_users (old_user_body (net_env R)) (clear_msg (snd (broadcast_message (mq_send_ok R) m None (s\<lparr>msg := m\<rparr>)))) = ret st'"
    using announce_steps [OF assms(1)] by metis
  show ?thesis
    using m old_users_leads [OF o assms(2)]
    by (auto simp: leads_simps broadcast_message_def Let_def split: if_splits)
qed

lemma broadcast_refused: "broadcast_message False m ignored st = (False, st)"
  by (simp add: broadcast_message_def)

lemma broadcast_taken:
  "length (broadcast_queue st) < mq_maxmsg st \<Longrightarrow> broadcast_message True m ignored st =
     (True, st\<lparr>broadcast_queue := broadcast_queue st @ [\<lparr>sender = ignored, qmsg = m\<rparr>]\<rparr>)"
  by (simp add: broadcast_message_def Let_def)

lemma announce_whatever:
  assumes F: "announce_login (R\<lparr>mq_send_ok := False\<rparr>) s = ret st'" and after: "leads True Q R Rs is st'"
    and ok: "\<And>nm len m. get_User_name (self s) (ustore s) = ret nm \<Longrightarrow> get_User_name_length (self s) (ustore s) = ret len \<Longrightarrow>
      build_User_Added (net_env R) (msg s) nm len True = ret m \<Longrightarrow> sendable m"
  shows "leads True Q R Rs (announce_code @ is) s"
proof -
  obtain nm len m where m: "get_User_name (self s) (ustore s) = ret nm"
    "get_User_name_length (self s) (ustore s) = ret len" "build_User_Added (net_env R) (msg s) nm len True = ret m"
    and o: "over_users (old_user_body (net_env R)) (clear_msg (s\<lparr>msg := m\<rparr>)) = ret st'"
    using announce_steps [OF F] by (auto simp: broadcast_refused)
  have "leads True Q R Rs (I_Clear # I_Lock Old_Users # is) (s\<lparr>msg := m\<rparr>)"
    using old_users_leads [OF o after] by (simp add: leads_simps)
  moreover have "sendable (msg (s\<lparr>msg := m\<rparr>))" using ok m by simp
  ultimately have "leads True Q R Rs (I_Queue [] # I_Clear # I_Lock Old_Users # is) (s\<lparr>msg := m\<rparr>)"
    by (intro leads.offer) simp_all
  then show ?thesis using m by (simp add: leads_simps)
qed

lemma message_steps:
  assumes "handle_message R st = ret st'"
  obtains nm len m where "get_User_name (self st) (ustore st) = ret nm"
    and "get_User_name_length (self st) (ustore st) = ret len"
    and "build_Server_to_client (net_env R) (msg st) (msg_length st) nm len = ret m"
    and "(let (sent, s) = broadcast_message (mq_send_ok R) m None (st\<lparr>msg := m\<rparr>)
          in if sent then ret s else respond_self (net_env R) queue_full_text s) = ret st'"
  using assms unfolding handle_message_def Let_def bindR_ret_iff queue_full_text_def by auto

lemma respond_self_leads:
  assumes "respond_self (net_env R) f st = ret st'" and "leads any Q R Rs is st'"
  shows "leads any Q R Rs (I_Respond f # I_Send_self # is) st"
  using assms by (auto simp: respond_self_def bindR_ret_iff leads_simps)

lemma message_alone:
  assumes "handle_message R st = ret st'" and "leads False Q R Rs is st'"
  shows "leads False Q R Rs ([I_Build_text, I_Queue queue_full] @ is) st"
proof -
  obtain nm len m where m: "get_User_name (self st) (ustore st) = ret nm"
    "get_User_name_length (self st) (ustore st) = ret len"
    "build_Server_to_client (net_env R) (msg st) (msg_length st) nm len = ret m"
    and r: "(let (sent, s) = broadcast_message (mq_send_ok R) m None (st\<lparr>msg := m\<rparr>)
          in if sent then ret s else respond_self (net_env R) queue_full_text s) = ret st'"
    by (rule message_steps [OF assms(1)]) (rule that)
  let ?s = "st\<lparr>msg := m\<rparr>"
  have refused: "leads False Q R Rs (queue_full @ is) ?s"
    if "respond_self (net_env R) queue_full_text ?s = ret st'"
    using respond_self_leads [OF that assms(2)] by (simp add: queue_full_def queue_full_text_def)
  have "leads False Q R Rs (I_Queue queue_full # is) ?s"
  proof (cases "mq_send_ok R \<and> length (broadcast_queue st) < mq_maxmsg st")
    case True
    then have "?s\<lparr>broadcast_queue := broadcast_queue st @ [\<lparr>sender = None, qmsg = m\<rparr>]\<rparr> = st'"
      using r by (simp add: broadcast_taken Let_def)
    then show ?thesis using True assms(2) by (simp add: leads_simps)
  next
    case False
    then have "broadcast_message (mq_send_ok R) m None ?s = (False, ?s)" by (simp add: broadcast_message_def)
    then have "leads False Q R Rs (queue_full @ is) ?s" using r refused by simp
    then show ?thesis
      using False by (cases "length (broadcast_queue st) < mq_maxmsg st") (simp_all add: leads_next step_fine_def clients_def queueing_def restructures_def)
  qed
  then show ?thesis using m by (simp add: leads_simps)
qed

lemma message_whatever:
  assumes T: "handle_message (R\<lparr>mq_send_ok := True\<rparr>) st = ret stT" and F: "handle_message (R\<lparr>mq_send_ok := False\<rparr>) st = ret stF"
    and room: "length (broadcast_queue st) < mq_maxmsg st"
    and ok: "\<And>q. q \<in> set (broadcast_queue stT) \<Longrightarrow> sendable (qmsg q)"
    and after: "leads True Q R Rs is (stT\<lparr>broadcast_queue := broadcast_queue st\<rparr>)" "leads True Q R Rs is stF"
  shows "leads True Q R Rs ([I_Build_text, I_Queue queue_full] @ is) st"
proof -
  obtain nm len m where m: "get_User_name (self st) (ustore st) = ret nm"
    "get_User_name_length (self st) (ustore st) = ret len"
    "build_Server_to_client (net_env R) (msg st) (msg_length st) nm len = ret m"
    and r: "respond_self (net_env R) queue_full_text (st\<lparr>msg := m\<rparr>) = ret stF"
    using message_steps [OF F] by (auto simp: broadcast_refused)
  have "handle_message (R\<lparr>mq_send_ok := True\<rparr>) st =
      ret (st\<lparr>msg := m, broadcast_queue := broadcast_queue st @ [\<lparr>sender = None, qmsg = m\<rparr>]\<rparr>)"
    using m room by (simp add: handle_message_def broadcast_taken Let_def)
  then have sT: "stT = st\<lparr>msg := m, broadcast_queue := broadcast_queue st @ [\<lparr>sender = None, qmsg = m\<rparr>]\<rparr>"
    unfolding T by blast
  let ?s = "st\<lparr>msg := m\<rparr>"
  have "stT\<lparr>broadcast_queue := broadcast_queue st\<rparr> = ?s" by (simp add: sT)
  then have "leads True Q R Rs is ?s" using after(1) by simp
  moreover have "leads True Q R Rs (queue_full @ is) ?s"
    using respond_self_leads [OF r after(2)] by (simp add: queue_full_def queue_full_text_def)
  moreover have "sendable (msg ?s)" using ok [of "\<lparr>sender = None, qmsg = m\<rparr>"] by (simp add: sT)
  ultimately have "leads True Q R Rs (I_Queue queue_full # is) ?s" by (intro leads.offer) simp_all
  then show ?thesis using m by (simp add: leads_simps)
qed

section \<open>Commands\<close>

lemma command_kick_leads:
  assumes run: "command_kick (net_env R) st = ret st'" and after: "leads any Q R Rs is st'"
  shows "leads any Q R Rs (I_Kick_name # is) st"
proof -
  obtain nk where nk: "kick_argument (drop off_text (msg st)) = ret nk"
    using run by (auto simp: command_kick_def dest: bindR_first)
  obtain p where p: "ITERATE_OVER_USERS (\<lambda>p. ustore (snd p)) (\<lambda>s p. (fst p, (snd p)\<lparr>ustore := s\<rparr>))
      (kick_body nk) (False, st) = ret p"
    using run nk by (auto simp: command_kick_def dest: bindR_first)
  obtain found s where fs: "p = (found, s)" by (cases p)
  have "leads any Q R Rs ((if found then [] else [I_Not_found nk]) @ is) s"
  proof (cases found)
    case True
    then show ?thesis using run nk p fs after by (simp add: command_kick_def)
  next
    case False
    then obtain k where k: "nk = Some k" using run nk p fs by (cases nk) (simp_all add: command_kick_def)
    then obtain nm where nm: "c_string k = ret nm" using run nk p fs False by (auto simp: command_kick_def dest: bindR_first)
    then have "respond_self (net_env R) (bytes_of ''[name: '' @ nm @ bytes_of ''] is not in user list'') s = ret st'"
      using run nk p fs False k by (simp add: command_kick_def)
    from respond_self_leads [OF this after] show ?thesis using False k nm by (simp add: leads_simps)
  qed
  then have "leads any Q R Rs (I_Lock (Kicked nk) # is) st" using kick_leads p fs by blast
  then show ?thesis using nk by (simp add: leads_simps)
qed

lemma command_pause_leads:
  assumes run: "command_pause (net_env R) st = ret st'" and after: "leads any Q R Rs is st'"
  shows "leads any Q R Rs (I_Pause # is) st"
proof (cases "Is_broadcast_paused st")
  case True
  then show ?thesis using run respond_self_leads [OF _ after] by (simp add: command_pause_def leads_simps)
next
  case False
  then obtain s1 s2 where s: "pause_broadcast st = ret s1" "respond (net_env R) (bytes_of ''admin has paused the server'') s1 = ret s2"
    "over_users (send_if (net_env R) logged_in_test) s2 = ret st'"
    using run by (auto simp: command_pause_def bindR_ret_iff)
  have "\<not> user_lock (ustore s2)"
    using s(3) by (auto simp: ITERATE_OVER_USERS_def lock_user_mutex_def bindR_ret_iff split: if_splits)
  then have "\<not> user_lock (ustore st)" using s(1,2) by (auto simp: pause_broadcast_eq respond_def bindR_ret_iff split: if_splits)
  then show ?thesis
    using logged_in_leads [OF s(3) after] s(1,2) False by (auto simp: leads_simps pause_broadcast_eq split: if_splits)
qed

lemma command_resume_leads:
  assumes run: "command_resume (net_env R) st = ret st'" and after: "leads any Q R Rs is st'"
  shows "leads any Q R Rs (I_Resume # is) st"
proof (cases "Is_broadcast_paused st")
  case False
  then show ?thesis using run respond_self_leads [OF _ after] by (simp add: command_resume_def leads_simps)
next
  case True
  then obtain s1 s2 where s: "respond (net_env R) (bytes_of ''admin has resumed the server'') st = ret s1"
    "over_users (send_if (net_env R) logged_in_test) s1 = ret s2" "st' = resume_broadcast s2"
    using run by (auto simp: command_resume_def bindR_ret_iff)
  have "leads any Q R Rs ([I_Sem_post, I_Unset_paused] @ is) s2"
    using after by (simp add: leads_simps s(3) resume_broadcast_eq)
  from logged_in_leads [OF s(2) this] show ?thesis using s(1) True by (simp add: leads_simps)
qed

lemma help_leads:
  assumes "run_all (help_body (net_env R)) ds st = ret st'" and "leads any Q R Rs is st'"
  shows "leads any Q R Rs (help_code ds @ is) st"
  using assms(1)
proof (induction ds arbitrary: st)
  case Nil
  then show ?case using assms(2) by (simp add: help_code_def)
next
  case (Cons d ds)
  then obtain s where s: "help_body (net_env R) d st = ret s" "run_all (help_body (net_env R)) ds s = ret st'"
    by (auto simp: bindR_ret_iff)
  have "leads any Q R Rs (I_Build_help d # I_Send_self # I_Clear # help_code ds @ is) st"
    using s(1) Cons.IH [OF s(2)] by (auto simp: help_body_def bindR_ret_iff leads_simps)
  then show ?case by (simp add: help_code_def)
qed

lemma command_help_leads:
  assumes "command_help (net_env R) st = ret st'" and "leads any Q R Rs is st'"
  shows "leads any Q R Rs (help_code All_Admin_Commands_Data @ is) st"
  using help_leads [OF _ assms(2)] assms(1)
  by (simp add: command_help_def ITERATE_OVER_ADMIN_COMMANDS_def admin_commands_all)

lemma command_invalid_leads:
  assumes "command_invalid (net_env R) st = ret st'" and "leads any Q R Rs is st'"
  shows "leads any Q R Rs (I_Invalid # I_Send_self # is) st"
  using assms by (auto simp: command_invalid_def respond_self_def bindR_ret_iff leads_simps)

lemma command_leads:
  assumes run: "handle_command R st = ret st'" and after: "leads any Q R Rs is st'"
  shows "leads any Q R Rs (I_Is_admin # is) st"
proof -
  obtain nm where nm: "get_User_name (self st) (ustore st) = ret nm"
    using run by (auto simp: handle_command_def Let_def dest: bindR_first)
  then obtain adm where adm: "c_streq nm (get_admin_name (conf st)) = ret adm"
    using run by (auto simp: handle_command_def Let_def dest: bindR_first)
  show ?thesis
  proof (cases adm)
    case False
    then have "respond_self (net_env R) (bytes_of ''Caution! You dont have required permissions for [server_commands]'') st = ret st'"
      using run nm adm by (simp add: handle_command_def Let_def)
    from respond_self_leads [OF this after] show ?thesis using nm adm False by (simp add: leads_simps not_admin_def)
  next
    case True
    then obtain c where c: "get_server_command (drop off_text (msg st)) = ret c"
      using run nm adm by (auto simp: handle_command_def Let_def dest: bindR_first)
    have "leads any Q R Rs (command_code c @ is) st"
      using run nm adm True c command_kick_leads [OF _ after] command_pause_leads [OF _ after]
        command_resume_leads [OF _ after] command_help_leads [OF _ after] command_invalid_leads [OF _ after]
      by (cases c) (simp_all add: handle_command_def Let_def command_code_def)
    then show ?thesis using nm adm True c by (simp add: leads_simps)
  qed
qed

section \<open>Whole rounds\<close>

lemma shutdown_leads:
  assumes "handle_invalid st = ret st'" and "leads any Q R Rs is st'"
  shows "leads any Q R Rs (I_Shutdown # is) st"
  using assms by (simp add: leads_simps)

lemma dispatch_alone:
  assumes run: "dispatch R v st = ret st'" and after: "leads False Q R Rs is st'"
  shows "leads False Q R Rs (handler_code v @ is) st"
proof -
  have "leads False Q R Rs (I_Copy_name # is) st" if "handle_login R st = ret st'"
  proof (rule login_leads [OF that])
    fix s assume "\<And>b. handle_login (R\<lparr>mq_send_ok := b\<rparr>) st = ret s"
    from this [of "mq_send_ok R"] that show "leads False Q R Rs is s" using after by simp
  next
    fix s assume "\<And>b. handle_login (R\<lparr>mq_send_ok := b\<rparr>) st = announce_login (R\<lparr>mq_send_ok := b\<rparr>) s"
    from this [of "mq_send_ok R"] that have "announce_login R s = ret st'" by simp
    then show "leads False Q R Rs (announce_code @ is) s" by (rule announce_alone [OF _ after])
  qed
  then show ?thesis
    using run after message_alone [OF _ after] command_leads [OF _ after] shutdown_leads [OF _ after]
    by (cases v) (simp_all add: dispatch_def handler_code_def)
qed

text \<open>From the top of the loop to the handler.\<close>

lemma round_steps:
  assumes "client_round R st = ret (go_on, st')"
  obtains got m where "Check_for_Message (header_io R) (msg (clear_msg st)) = ret (got, m)"
    and "self_sock (clear_msg st) = self_sock st" and "\<exists>sk. self_sock st = ret sk"
    and "if got \<le> 0 then \<not> go_on \<and> st' = (clear_msg st)\<lparr>connection_status := got, msg := m\<rparr>
      else go_on \<and> (\<exists>v m'. network_Receive (net_env R) (body_io R) m = ret (v, m')
        \<and> dispatch R v (st\<lparr>connection_status := got,
            msg_length := ntohs (host (net_env R)) (hdr_length (host (net_env R)) m), msg := m'\<rparr>) = ret st')"
proof -
  have s: "self_sock (clear_msg st) = self_sock st" by (simp add: self_sock_def clear_msg_def)
  obtain sk where sk: "self_sock st = ret sk"
    using assms by (auto simp: client_round_def Let_def s dest: bindR_first)
  obtain got m where c: "Check_for_Message (header_io R) (msg (clear_msg st)) = ret (got, m)"
    using assms sk by (auto simp: client_round_def Let_def s dest!: bindR_first)
  have "if got \<le> 0 then \<not> go_on \<and> st' = (clear_msg st)\<lparr>connection_status := got, msg := m\<rparr>
      else go_on \<and> (\<exists>v m'. network_Receive (net_env R) (body_io R) m = ret (v, m')
        \<and> dispatch R v (st\<lparr>connection_status := got,
            msg_length := ntohs (host (net_env R)) (hdr_length (host (net_env R)) m), msg := m'\<rparr>) = ret st')"
  proof (cases "got \<le> 0")
    case True
    then show ?thesis using assms sk c by (auto simp: client_round_def Let_def s)
  next
    case False
    then obtain v m' where v: "network_Receive (net_env R) (body_io R) m = ret (v, m')"
      using assms sk c by (auto simp: client_round_def Let_def s dest!: bindR_first)
    then show ?thesis
      using assms sk c False by (auto simp: client_round_def Let_def s bindR_ret_iff clear_msg_def)
  qed
  then show thesis using that c s sk by blast
qed

lemma top_leads:
  assumes "Check_for_Message (header_io R) (msg (clear_msg st)) = ret (got, m)" and "self_sock st = ret sk"
    and "if got \<le> 0 then leads any Q R Rs leave_code_of ((clear_msg st)\<lparr>connection_status := got, msg := m\<rparr>)
      else network_Receive (net_env R) (body_io R) m = ret (v, m')
        \<and> leads any Q R Rs (handler_code v @ [I_Top]) (st\<lparr>connection_status := got,
            msg_length := ntohs (host (net_env R)) (hdr_length (host (net_env R)) m), msg := m'\<rparr>)"
  shows "leads any Q R0 (R # Rs) [I_Top] st"
proof -
  have s: "self_sock (clear_msg st) = ret sk" using assms(2) by (simp add: self_sock_def clear_msg_def)
  let ?s = "(clear_msg st)\<lparr>connection_status := got, msg := m\<rparr>"
  have "leads any Q R Rs (if got \<le> 0 then leave_code_of else [I_Length, I_Receive, I_Top]) ?s"
  proof (cases "got \<le> 0")
    case False
    have "self_sock (?s\<lparr>msg_length := l\<rparr>) = ret sk" for l using s by (simp add: self_sock_def)
    then show ?thesis using False assms(3) by (simp add: leads_simps clear_msg_def)
  qed (use assms(3) in simp)
  then have "leads any Q R0 (R # Rs) [I_Check] (clear_msg st)"
    using assms(1) by (intro leads.check) simp_all
  then show ?thesis using s by (simp add: leads_simps)
qed

lemma round_alone:
  assumes run: "client_round R st = ret (go_on, st')"
    and after: "leads False Q R Rs (if go_on then [I_Top] else leave_code_of) st'"
  shows "leads False Q R0 (R # Rs) [I_Top] st"
proof -
  obtain got m sk where c: "Check_for_Message (header_io R) (msg (clear_msg st)) = ret (got, m)" "self_sock st = ret sk"
    and d: "if got \<le> 0 then \<not> go_on \<and> st' = (clear_msg st)\<lparr>connection_status := got, msg := m\<rparr>
      else go_on \<and> (\<exists>v m'. network_Receive (net_env R) (body_io R) m = ret (v, m')
        \<and> dispatch R v (st\<lparr>connection_status := got,
            msg_length := ntohs (host (net_env R)) (hdr_length (host (net_env R)) m), msg := m'\<rparr>) = ret st')"
    using round_steps [OF run] by blast
  show ?thesis
  proof (cases "got \<le> 0")
    case True
    then show ?thesis using d after top_leads [OF c] by auto
  next
    case False
    then obtain v m' where v: "network_Receive (net_env R) (body_io R) m = ret (v, m')"
      "dispatch R v (st\<lparr>connection_status := got,
            msg_length := ntohs (host (net_env R)) (hdr_length (host (net_env R)) m), msg := m'\<rparr>) = ret st'"
      and go: "go_on" using d by auto
    have "leads False Q R Rs [I_Top] st'" using after go by simp
    from dispatch_alone [OF v(2) this] show ?thesis using top_leads [OF c] False v(1) by simp
  qed
qed

section \<open>The end and the beginning\<close>

lemma remove_User_halves:
  "remove_User sk s = bindR (f_find_User sk s) (\<lambda>(locPointer, s).
     (case locPointer of None \<Rightarrow> ret (False, s) | Some p \<Rightarrow> bindR (unlink_User p s) (\<lambda>s. ret (True, s))))"
  unfolding remove_User_def unlink_User_def by (auto simp: bindR_assoc intro!: bindR_cong split: option.split)

lemma create_User_halves:
  "create_User threadID sk malloc s = bindR (f_find_User sk s) (\<lambda>(found, s).
     if found \<noteq> None then ret (None, s) else add_User threadID sk malloc s)"
  unfolding create_User_def add_User_def ..

lemma free_if_found: "f_find_User sk s = ret r \<Longrightarrow> \<not> user_lock s \<and> \<not> user_lock (snd r)"
  by (auto simp: f_find_User_def lock_user_mutex_def unlock_user_mutex_def bindR_ret_iff split: if_splits)

lemma leave_leads:
  assumes run: "client_end (net_env R) st = ret st'" and after: "leads any Q R Rs is st'"
    and lok: "any \<Longrightarrow> list_ok st'"
  shows "leads any Q R Rs (leave_code_of @ is) st"
proof -
  let ?E = "net_env R"
  obtain us where us: "logout_user (self st) (ustore st) = ret us"
    using run by (auto simp: client_end_def dest: bindR_first)
  let ?s = "st\<lparr>ustore := us\<rparr>"
  obtain s2 where s2: "(if connection_status ?s = cs_code CS_Closed_Connection
      then ret (?s\<lparr>disconnect_reason := CD_connection_closed_by_client\<rparr>)
      else bindR (should_User_shutdown (self ?s) (ustore ?s)) (\<lambda>sd.
        ret (if sd then ?s\<lparr>disconnect_reason := CD_kicked_from_the_server\<rparr> else ?s))) = ret s2"
    using run us by (auto simp: client_end_def Let_def dest!: bindR_first)
  obtain len where len: "get_User_name_length (self s2) (ustore s2) = ret len"
    using run us s2 by (auto simp: client_end_def Let_def dest!: bindR_first)
  let ?notice = "if len \<noteq> 0
            then bindR (get_User_name (self s2) (ustore s2)) (\<lambda>nm.
                 bindR (build_User_Removed ?E (msg s2) (disconnect_reason s2) nm len) (\<lambda>m.
                   over_users (send_if ?E others_test) (s2\<lparr>msg := m\<rparr>)))
            else ret s2"
  obtain s3 where s3: "?notice = ret s3"
    using run us s2 len by (auto simp: client_end_def Let_def dest!: bindR_first)
  obtain sk where sk: "self_sock s3 = ret sk"
    using run us s2 len s3 by (auto simp: client_end_def Let_def dest!: bindR_first)
  let ?s4 = "s3\<lparr>closed_socks := closed_socks s3 @ [sk]\<rparr>"
  have sk4: "self_sock ?s4 = ret sk" using sk by (simp add: self_sock_def)
  obtain b us' where rm: "remove_User sk (ustore s3) = ret (b, us')" and st': "?s4\<lparr>ustore := us'\<rparr> = st'"
    using run us s2 len s3 sk sk4 by (auto simp: client_end_def Let_def bindR_ret_iff)
  then obtain p us1 where p: "f_find_User sk (ustore s3) = ret (p, us1)"
    "case p of None \<Rightarrow> us' = us1 | Some p \<Rightarrow> unlink_User p us1 = ret us'"
    unfolding remove_User_halves by (auto simp: bindR_ret_iff split: option.splits)
  have last: "leads any Q R Rs ((case p of None \<Rightarrow> [] | Some p \<Rightarrow> [I_Unlink p]) @ is) (?s4\<lparr>ustore := us1\<rparr>)"
    using p(2) st' after lok free_if_found [OF p(1)]
    by (cases p) (auto simp: leads_simps list_ok_def)
  have "leads any Q R Rs (I_Close_self # I_Find_own # is) s3"
    using last sk sk4 p(1) free_if_found [OF p(1)] by (simp add: leads_simps if_free_def)
  then have "leads any Q R Rs ((if len \<noteq> 0 then [I_Build_removed, I_Lock Others] else []) @ I_Close_self # I_Find_own # is) s2"
    using s3 len others_leads [of R _ s3]
    by (auto simp: bindR_ret_iff leads_simps)
  then show ?thesis
    using us s2 len by (auto simp: leave_code_of_def leads_simps)
qed

lemma begin_leads:
  assumes run: "client_begin threadID arg user_memory st = ret st'" and after: "leads any Q R Rs [I_Top] st'"
    and lok: "any \<Longrightarrow> list_ok st'"
  shows "leads any Q R Rs [I_Find_socket threadID arg user_memory] st"
proof -
  obtain u us where u: "create_User threadID arg user_memory (ustore st) = ret (u, us)"
    and st': "st' = st\<lparr>ustore := us, self := u, msg := msg_zero, msg_length := 0,
               disconnect_reason := CD_communication_error\<rparr>"
    using run by (auto simp: client_begin_def bindR_ret_iff)
  then obtain found us1 where f: "f_find_User arg (ustore st) = ret (found, us1)"
    "(if found \<noteq> None then ret (None, us1) else add_User threadID arg user_memory us1) = ret (u, us)"
    unfolding create_User_halves by (auto simp: bindR_ret_iff)
  have "leads any Q R Rs [I_Begin u] (st\<lparr>ustore := us\<rparr>)" using after by (simp add: leads_simps st')
  then have "leads any Q R Rs [if found \<noteq> None then I_Begin None else I_Add_user threadID arg user_memory] (st\<lparr>ustore := us1\<rparr>)"
    using f free_if_found [OF f(1)] lok by (auto simp: leads_simps list_ok_def st')
  then show ?thesis using f(1) free_if_found [OF f(1)] by (simp add: leads_simps if_free_def)
qed

section \<open>A thread on its own\<close>

lemma loop_alone:
  assumes "client_loop Rs st = ret (False, st1)" and "\<forall>R \<in> set Rs. net_env R = E"
    and "client_end E st1 = ret st'" and "Q st'"
  shows "leads False Q R0 Rs [I_Top] st"
  using assms(1,2)
proof (induction Rs arbitrary: st R0)
  case (Cons R Rs)
  then obtain go_on s where r: "client_round R st = ret (go_on, s)"
    and l: "if go_on then client_loop Rs s = ret (False, st1) else s = st1"
    by (auto simp: bindR_ret_iff split: if_splits)
  have "leads False Q R Rs [I_Top] s" if go_on
    using Cons.IH [of s R] Cons.prems(2) l that by simp
  moreover have "leads False Q R Rs leave_code_of s" if "\<not> go_on"
    using leave_leads [of R s st' False Q Rs "[]"] assms(3,4) Cons.prems(2) l that by (simp add: leads.ended)
  ultimately show ?case using round_alone [OF r] by simp
qed simp

lemma leads_scheduled:
  assumes "leads False Q R Rs code st"
  shows "\<exists>n st' R' Rs'. run_schedule (replicate n 0) (st, \<lparr>to_do = code, current = R, coming = Rs\<rparr> # ths)
    = ret (st', \<lparr>to_do = [], current = R', coming = Rs'\<rparr> # ths) \<and> Q st'"
  using assms
proof (induction rule: leads.induct)
  case (ended st R Rs)
  then show ?case by (intro exI [of _ 0]) simp
next
  case (step R i st st' js Rs "is")
  then obtain n st'' R' Rs' where n: "run_schedule (replicate n 0) (st', \<lparr>to_do = js @ is, current = R, coming = Rs\<rparr> # ths)
      = ret (st'', \<lparr>to_do = [], current = R', coming = Rs'\<rparr> # ths)" "Q st''" by blast
  have "thread_step \<lparr>to_do = i # is, current = R, coming = Rs\<rparr> st =
      Some (ret (st', \<lparr>to_do = js @ is, current = R, coming = Rs\<rparr>))"
    using step(1,2) by (cases i) (simp_all add: thread_step_def proceed_def step_fine_def del: exec.simps)
  then show ?case using n by (intro exI [of _ "Suc n"]) (simp add: system_step_def)
next
  case (check R' st st' js Rs "is" R)
  then obtain n st'' R'' Rs' where n: "run_schedule (replicate n 0) (st', \<lparr>to_do = js @ is, current = R', coming = Rs\<rparr> # ths)
      = ret (st'', \<lparr>to_do = [], current = R'', coming = Rs'\<rparr> # ths)" "Q st''" by blast
  have "thread_step \<lparr>to_do = I_Check # is, current = R, coming = R' # Rs\<rparr> st =
      Some (ret (st', \<lparr>to_do = js @ is, current = R', coming = Rs\<rparr>))"
    using check(1) by (simp add: thread_step_def proceed_def)
  then show ?case using n by (intro exI [of _ "Suc n"]) (simp add: system_step_def)
qed simp_all

lemma thread_scheduled:
  assumes "client_Thread threadID arg user_memory E Rs st = ret (False, st')" and "\<forall>R \<in> set Rs. net_env R = E"
  shows "\<exists>n th. run_schedule (replicate n 0) (st, client_thread threadID arg user_memory Rs # ths) = ret (st', th # ths)
    \<and> to_do th = []"
proof -
  obtain s1 s2 where s: "client_begin threadID arg user_memory st = ret s1" "client_loop Rs s1 = ret (False, s2)"
    "client_end E s2 = ret st'"
    using assms(1) by (auto simp: client_Thread_def bindR_ret_iff split: if_splits)
  have "leads False (\<lambda>s. s = st') (hd Rs) Rs [I_Find_socket threadID arg user_memory] st"
    by (rule begin_leads [OF s(1)], rule loop_alone [OF s(2) assms(2) s(3) refl]) simp
  from leads_scheduled [OF this] obtain n R' Rs' where
    "run_schedule (replicate n 0) (st, client_thread threadID arg user_memory Rs # ths) =
      ret (st', \<lparr>to_do = [], current = R', coming = Rs'\<rparr> # ths)"
    unfolding client_thread_def by blast
  then show ?thesis by (intro exI conjI) (assumption, simp)
qed

text \<open>The instructions of a client's thread are its body: whatever whole inputs the thread gets, when
  the function of the thread, with its rounds, returns, the thread executed instruction by instruction
  with nothing else running comes to its end too, without waiting or failing, in the same state.\<close>

theorem thread_is_its_instructions:
  assumes "client_Thread threadID arg user_memory E Rs st = ret (False, st')" and "\<forall>R \<in> set Rs. net_env R = E"
  shows "\<exists>n th. run_schedule (replicate n 0) (st, [client_thread threadID arg user_memory Rs]) = ret (st', [th])
    \<and> to_do th = []"
  by (rule thread_scheduled [OF assms])

theorem thread_is_its_instructions_witness:
  "\<exists>n th st'. run_schedule (replicate n 0) (example_server 0,
      [client_thread 9 7 (Some 3) (example_talk @ [(example_round 0 [])\<lparr>header_io := IO_Error\<rparr>])]) = ret (st', [th])
    \<and> to_do th = [] \<and> server_ok st' [0, 1, 2]"
proof -
  let ?Rs = "example_talk @ [(example_round 0 [])\<lparr>header_io := IO_Error\<rparr>]"
  have "client_ok (example_server 0) [0, 1, 2] 0" using example_server_ok [of 0] by simp
  then have ok: "server_ok (example_server 0) [0, 1, 2]" by (simp add: server_ok_def client_ok_def)
  have f: "7 \<notin> sock ` user_at example_room ` set [0, 1, 2]" "heap (users example_room) 3 = None"
    by code_simp+
  have "gone ((example_round 0 [])\<lparr>header_io := IO_Error\<rparr>)" by (simp add: gone_def)
  from client_thread_ends [OF ok _ _ example_talk_honest(1) this fresh_without_memory [OF example_talk_honest(2)],
      of 7 3 9 example_env] f
  obtain st' where t: "client_Thread 9 7 (Some 3) example_env ?Rs (example_server 0) = ret (False, st')"
    "server_ok st' [0, 1, 2]" by auto
  have "\<forall>R \<in> set ?Rs. net_env R = example_env" by (auto simp: example_talk_def)
  from thread_is_its_instructions [OF t(1) this] t(2) show ?thesis by blast
qed

end
