(* ===== verification/Threads_Safety.thy ===== *)
theory Threads_Safety
  imports Threads_Rounds
begin

text \<open>
  What the rounds of a client are when the message queue answers as it likes: beside the broadcast
  agent, whether a text finds room is not the client's doing. \<open>atomic_rounds\<close> runs the rounds of a
  thread whole, with an answer of the queue for each, and an honest client's code leads along them.
\<close>

section \<open>What the rounds put into the queue\<close>

abbreviation queue_sendable :: "server_state \<Rightarrow> bool" where
  "queue_sendable st \<equiv> \<forall>q \<in> set (broadcast_queue st). sendable (qmsg q)"

lemma carries_sendable: "carries E m w \<Longrightarrow> sendable m"
  by (auto simp: carries_def sendable_frame [of _ E])

lemma send_to_queue: "send_to E sk m st = ret st' \<Longrightarrow> broadcast_queue st' = broadcast_queue st"
  by (auto simp: send_to_def bindR_ret_iff)

lemma respond_self_queue: "respond_self E f st = ret st' \<Longrightarrow> broadcast_queue st' = broadcast_queue st"
  by (auto simp: respond_self_def respond_def send_self_def bindR_ret_iff dest!: send_to_queue)

lemma over_users_queue:
  assumes "over_users body st = ret st'"
    and "\<And>a s r. body a s = ret r \<Longrightarrow> broadcast_queue (snd r) = broadcast_queue s"
  shows "broadcast_queue st' = broadcast_queue (st :: server_state)"
  by (rule ITERATE_OVER_USERS_keeps [OF assms(1), where J = "\<lambda>s. broadcast_queue s = broadcast_queue st"])
     (use assms(2) in auto)

lemma send_if_queue: "send_if E f a s = ret r \<Longrightarrow> broadcast_queue (snd r) = broadcast_queue s"
  by (auto simp: send_if_def bindR_ret_iff split: if_splits dest!: send_to_queue)

lemma old_user_queue: "old_user_body E a s = ret r \<Longrightarrow> broadcast_queue (snd r) = broadcast_queue s"
  by (auto simp: old_user_body_def send_self_def clear_msg_def bindR_ret_iff split: if_splits dest!: send_to_queue)

lemma kick_queue:
  assumes "ITERATE_OVER_USERS (\<lambda>p. ustore (snd p)) (\<lambda>s p. (fst p, (snd p)\<lparr>ustore := s\<rparr>)) (kick_body nk) (b, st) = ret r"
  shows "broadcast_queue (snd r) = broadcast_queue st"
proof (rule ITERATE_OVER_USERS_keeps [OF assms, where J = "\<lambda>p. broadcast_queue (snd p) = broadcast_queue st"])
  fix a p r assume p: "broadcast_queue (snd p) = broadcast_queue st" "kick_body nk a p = ret r"
  then have "kick_body nk a p = ret (fst r, snd r)" by simp
  from kick_body_walk(2) [OF this] p(1) show "broadcast_queue (snd (snd r)) = broadcast_queue st"
    by (cases "fst r") auto
qed simp_all

lemma help_queue: "run_all (help_body E) ds st = ret st' \<Longrightarrow> broadcast_queue st' = broadcast_queue st"
  by (induction ds arbitrary: st)
     (auto simp: bindR_ret_iff help_body_def send_self_def clear_msg_def dest!: send_to_queue)

lemma command_queue:
  assumes run: "handle_command R st = ret st'"
  shows "broadcast_queue st' = broadcast_queue st"
proof -
  let ?E = "net_env R"
  obtain nm where nm: "get_User_name (self st) (ustore st) = ret nm"
    using run by (auto simp: handle_command_def Let_def dest: bindR_first)
  then obtain adm where adm: "c_streq nm (get_admin_name (conf st)) = ret adm"
    using run by (auto simp: handle_command_def Let_def dest: bindR_first)
  show ?thesis
  proof (cases adm)
    case False
    then show ?thesis using run nm adm by (auto simp: handle_command_def Let_def intro: respond_self_queue)
  next
    case True
    then obtain c where c: "get_server_command (drop off_text (msg st)) = ret c"
      using run nm adm by (auto simp: handle_command_def Let_def dest: bindR_first)
    have kick: "broadcast_queue st' = broadcast_queue st" if "command_kick ?E st = ret st'"
      using that by (auto simp: command_kick_def bindR_ret_iff split: if_splits option.splits
          dest!: kick_queue respond_self_queue)
    have pause: "broadcast_queue st' = broadcast_queue st" if run: "command_pause ?E st = ret st'"
    proof (cases "Is_broadcast_paused st")
      case False
      then obtain s1 s2 where s: "pause_broadcast st = ret s1"
        "respond ?E (bytes_of ''admin has paused the server'') s1 = ret s2"
        "over_users (send_if ?E logged_in_test) s2 = ret st'"
        using run by (auto simp: command_pause_def bindR_ret_iff)
      then have "broadcast_queue s1 = broadcast_queue st" "broadcast_queue s2 = broadcast_queue s1"
        by (auto simp: respond_def bindR_ret_iff pause_broadcast_eq split: if_splits)
      then show ?thesis using over_users_queue [OF s(3) send_if_queue] by simp
    next
      case True
      then show ?thesis using run by (auto simp: command_pause_def dest: respond_self_queue)
    qed
    have resume: "broadcast_queue st' = broadcast_queue st" if run: "command_resume ?E st = ret st'"
    proof (cases "Is_broadcast_paused st")
      case True
      then obtain s1 s2 where s: "respond ?E (bytes_of ''admin has resumed the server'') st = ret s1"
        "over_users (send_if ?E logged_in_test) s1 = ret s2" "st' = resume_broadcast s2"
        using run by (auto simp: command_resume_def bindR_ret_iff)
      then have "broadcast_queue s1 = broadcast_queue st" "broadcast_queue s2 = broadcast_queue s1"
        using over_users_queue [OF s(2) send_if_queue] by (auto simp: respond_def bindR_ret_iff)
      then show ?thesis by (simp add: s(3) resume_broadcast_eq)
    next
      case False
      then show ?thesis using run by (auto simp: command_resume_def dest: respond_self_queue)
    qed
    have table: "broadcast_queue st' = broadcast_queue st" if "command_help ?E st = ret st'"
      using that help_queue by (simp add: command_help_def ITERATE_OVER_ADMIN_COMMANDS_def admin_commands_all)
    have invalid: "broadcast_queue st' = broadcast_queue st" if "command_invalid ?E st = ret st'"
      using that by (auto simp: command_invalid_def bindR_ret_iff dest: respond_self_queue)
    show ?thesis
      using run nm adm True c kick pause resume table invalid
      by (cases c) (simp_all add: handle_command_def Let_def)
  qed
qed

lemma honest_round_queue:
  assumes ok: "client_ok st as a" and h: "honest R" and mem: "memory_ok R st"
    and run: "client_round R st = ret (go_on, st')" and q: "broadcast_queue st = []"
  shows "queue_sendable st'"
proof -
  obtain t body where R: "brings R t (of_nat (length body)) body" and hb: "honest_body t body"
    using h by (auto simp: honest_def)
  have l: "length body \<le> 511" using hb by (simp add: honest_body_def)
  let ?len = "of_nat (length body) :: u16" and ?d = "receive_decision t (length body) body"
  obtain m where round: "client_round R st = bindR (dispatch R ?d
      (st\<lparr>connection_status := 3, msg_length := ?len, msg := m\<rparr>)) (\<lambda>st. ret (True, st))"
    and m: "body \<noteq> [] \<and> (t = 0 \<or> t = 2) \<longrightarrow> m = received t ?len body"
    using client_round_decides [OF ok R l] by blast
  let ?s = "st\<lparr>connection_status := 3, msg_length := ?len, msg := m\<rparr>"
  have d: "dispatch R ?d ?s = ret st'" using run unfolding round by (auto simp: bindR_ret_iff)
  from decision_cases [of t "length body" body] show ?thesis
  proof (elim disjE conjE)
    assume "?d \<in> {NV_invalid_length, NV_Name_length_invalid, NV_Version_invalid, NV_Magic_num_invalid, NV_unset}"
    then show ?thesis using d q by (auto simp: dispatch_def handle_invalid_def bindR_ret_iff)
  next
    assume t: "t = 0" and dl: "?d = NV_Received_login"
    let ?nm = "drop 5 body"
    have dl': "receive_decision 0 (length body) body = NV_Received_login" using dl t by simp
    have b: "body = login_body ?nm" "0 < length ?nm" using login_body_of [OF dl'] by simp_all
    have "length body \<le> 35 \<and> 0 \<notin> set ?nm" using hb dl' t by (simp add: honest_body_def)
    then have n: "length ?nm \<le> 30" "0 \<notin> set ?nm" by (auto simp: le_diff_conv)
    have "length body = 5 + length ?nm" using b(2) by simp
    then have R': "brings R 0 (login_len ?nm) (login_body ?nm)" using R t b(1) by (simp add: login_len_def)
    show ?thesis
    proof (cases "name_taken (ustore st) as ?nm \<or> (\<exists>c \<in> set ?nm. \<not> name_byte_ok c)")
      case True
      from login_refused_effect [OF ok R' b(2) n True] show ?thesis using run q by auto
    next
      case False
      then have f: "\<forall>c \<in> set ?nm. name_byte_ok c" "\<not> name_taken (ustore st) as ?nm" by auto
      from login_succeeds_effect [OF ok R' b(2) n(1) f mem] obtain s q1 where
        "client_round R st = ret (True, s)"
        "broadcast_queue s = (if queue_room R st then broadcast_queue st @ [q1] else broadcast_queue st)"
        "queued (net_env R) q1 (User_Added (stamp_value (net_env R) True) ?nm)" by blast
      then show ?thesis using run q by (auto simp: queued_def carries_sendable split: if_splits)
    qed
  next
    assume "t = 2" "length body \<noteq> 0" "?d = NV_Received_Server_command"
    then have "handle_command R ?s = ret st'" using d by (simp add: dispatch_def)
    from command_queue [OF this] show ?thesis using q by simp
  next
    assume t: "t = 2" "length body \<noteq> 0" and dm: "?d = NV_Received_Message"
    then have s: "?s = received_state ?len body st" using m by (simp add: received_state_def)
    have ok': "client_ok ?s as a" using ok by simp
    have x: "msg ?s = received 2 ?len body" "msg_length ?s = ?len" using s t by (simp_all add: received_state_def)
    have y: "unat ?len = length body" "0 \<notin> set body" using l hb t by (simp_all add: unat_of_nat honest_body_def)
    have hm: "handle_message R ?s = ret st'" using d dm by (simp add: dispatch_def)
    let ?q = "\<lambda>m. \<lparr>sender = None, qmsg = m\<rparr>"
    from handle_message_effect [OF ok' x l y, of R] obtain m1 where m1: "carries (net_env R) m1
        (Server_To_Client (stamp_value (net_env R) True)
          (take (unat (name_length (own_user ?s))) (own_name ?s)) body)"
      and e: "if queue_room R ?s then handle_message R ?s = ret (?s\<lparr>msg := m1, broadcast_queue := broadcast_queue ?s @ [?q m1]\<rparr>)
       else \<exists>m'. handle_message R ?s = ret (?s\<lparr>msg := m', outbox := outbox ?s
         @ sent_on (net_env R) (frame MT_ServerToClient
           (response_body (net_env R) (server_string ?s) m1 queue_full_text)) (sock (own_user ?s))\<rparr>)"
      by blast
    have "broadcast_queue st' = (if queue_room R ?s then [?q m1] else [])"
      using e hm q by (cases "queue_room R ?s") auto
    then show ?thesis using carries_sendable [OF m1] by simp
  qed
qed

section \<open>Rounds whatever the queue answers\<close>

abbreviation answered :: "bool \<Rightarrow> round_input \<Rightarrow> round_input" where
  "answered b R \<equiv> R\<lparr>mq_send_ok := b\<rparr>"

lemma answered_fields:
  "header_io (answered b R) = header_io R" "body_io (answered b R) = body_io R" "net_env (answered b R) = net_env R"
  by simp_all

lemma login_whatever:
  assumes T: "handle_login (answered True R) st = ret sT" and F: "handle_login (answered False R) st = ret sF"
    and room: "length (broadcast_queue st) < mq_maxmsg st" and ok: "queue_sendable sT"
    and after: "leads True Q R Rs is sF"
  shows "leads True Q R Rs (I_Copy_name # is) st"
proof -
  obtain s' where "handle_login R st = ret s'"
  proof (cases "mq_send_ok R")
    case True
    then have "answered True R = R" by (cases R) simp
    then show ?thesis using T that by simp
  next
    case False
    then have "answered False R = R" by (cases R) simp
    then show ?thesis using F that by simp
  qed
  then show ?thesis
  proof (rule login_leads)
    fix s assume "\<And>b. handle_login (R\<lparr>mq_send_ok := b\<rparr>) st = ret s"
    from this [of False] show "leads True Q R Rs is s" using F after by simp
  next
    fix s assume a: "\<And>b. handle_login (R\<lparr>mq_send_ok := b\<rparr>) st = announce_login (R\<lparr>mq_send_ok := b\<rparr>) s"
      and q: "broadcast_queue s = broadcast_queue st" "mq_maxmsg s = mq_maxmsg st"
    have F': "announce_login (answered False R) s = ret sF" and T': "announce_login (answered True R) s = ret sT"
      using a [of False] a [of True] F T by simp_all
    show "leads True Q R Rs (announce_code @ is) s"
    proof (rule announce_whatever [OF F' after])
      fix nm len m
      assume m: "get_User_name (self s) (ustore s) = ret nm" "get_User_name_length (self s) (ustore s) = ret len"
        "build_User_Added (net_env R) (msg s) nm len True = ret m"
      let ?s = "clear_msg (s\<lparr>msg := m, broadcast_queue := broadcast_queue s @ [\<lparr>sender = None, qmsg = m\<rparr>]\<rparr>)"
      have "over_users (old_user_body (net_env R)) ?s = ret sT"
        using T' m room q by (simp add: announce_login_def Let_def broadcast_taken)
      from over_users_queue [OF this old_user_queue]
      have "\<lparr>sender = None, qmsg = m\<rparr> \<in> set (broadcast_queue sT)" by (simp add: clear_msg_def)
      then show "sendable m" using ok by fastforce
    qed
  qed
qed

lemma dispatch_whatever:
  assumes T: "dispatch (answered True R) v st = ret sT" and F: "dispatch (answered False R) v st = ret sF"
    and room: "length (broadcast_queue st) < mq_maxmsg st" and ok: "queue_sendable sT"
    and after: "leads True Q R Rs is (sT\<lparr>broadcast_queue := broadcast_queue st\<rparr>)" "leads True Q R Rs is sF"
  shows "leads True Q R Rs (handler_code v @ is) st"
proof -
  have "handle_command R st = handle_command (answered False R) st" by (simp add: handle_command_def)
  then show ?thesis
    using T F after ok login_whatever [OF _ _ room ok after(2)] message_whatever [OF _ _ room _ after]
      command_leads [OF _ after(2)] shutdown_leads [OF _ after(2)]
    by (cases v) (simp_all add: dispatch_def handler_code_def)
qed

lemma round_whatever:
  assumes T: "client_round (answered True R) st = ret (go_on, sT)" and F: "client_round (answered False R) st = ret (go_on', sF)"
    and room: "length (broadcast_queue st) < mq_maxmsg st" and ok: "queue_sendable sT"
    and after: "leads True Q R Rs (if go_on then [I_Top] else leave_code_of) (sT\<lparr>broadcast_queue := broadcast_queue st\<rparr>)"
      "leads True Q R Rs (if go_on' then [I_Top] else leave_code_of) sF"
  shows "leads True Q R0 (R # Rs) [I_Top] st"
proof -
  obtain got m sk where c: "Check_for_Message (header_io R) (msg (clear_msg st)) = ret (got, m)" "self_sock st = ret sk"
    and dT: "if got \<le> 0 then \<not> go_on \<and> sT = (clear_msg st)\<lparr>connection_status := got, msg := m\<rparr>
      else go_on \<and> (\<exists>v m'. network_Receive (net_env R) (body_io R) m = ret (v, m')
        \<and> dispatch (answered True R) v (st\<lparr>connection_status := got,
            msg_length := ntohs (host (net_env R)) (hdr_length (host (net_env R)) m), msg := m'\<rparr>) = ret sT)"
    by (rule round_steps [OF T, unfolded answered_fields]) (use that in blast)
  have dF: "if got \<le> 0 then \<not> go_on' \<and> sF = (clear_msg st)\<lparr>connection_status := got, msg := m\<rparr>
      else go_on' \<and> (\<exists>v m'. network_Receive (net_env R) (body_io R) m = ret (v, m')
        \<and> dispatch (answered False R) v (st\<lparr>connection_status := got,
            msg_length := ntohs (host (net_env R)) (hdr_length (host (net_env R)) m), msg := m'\<rparr>) = ret sF)"
    by (rule round_steps [OF F, unfolded answered_fields]) (use c(1) in simp)
  show ?thesis
  proof (cases "got \<le> 0")
    case True
    then have "leads True Q R Rs leave_code_of ((clear_msg st)\<lparr>connection_status := got, msg := m\<rparr>)"
      using dF after(2) by simp
    then show ?thesis using top_leads [OF c] True by simp
  next
    case False
    obtain v m' where v: "network_Receive (net_env R) (body_io R) m = ret (v, m')"
      and vT: "dispatch (answered True R) v (st\<lparr>connection_status := got,
            msg_length := ntohs (host (net_env R)) (hdr_length (host (net_env R)) m), msg := m'\<rparr>) = ret sT"
      and vF: "dispatch (answered False R) v (st\<lparr>connection_status := got,
            msg_length := ntohs (host (net_env R)) (hdr_length (host (net_env R)) m), msg := m'\<rparr>) = ret sF"
      using dT dF False by auto
    have "leads True Q R Rs [I_Top] (sT\<lparr>broadcast_queue := broadcast_queue st\<rparr>)" "leads True Q R Rs [I_Top] sF"
      using after dT dF False by auto
    with dispatch_whatever [OF vT vF] room ok show ?thesis using top_leads [OF c] False v by simp
  qed
qed

text \<open>A queue that takes nothing is left as it is.\<close>

lemma login_response_queue: "login_response_for nm st = ret (c, s) \<Longrightarrow> broadcast_queue s = broadcast_queue st"
  by (auto simp: login_response_for_def Let_def bindR_ret_iff)

lemma announce_refused_queue:
  assumes "announce_login (answered False R) s = ret s'"
  shows "broadcast_queue s' = broadcast_queue s"
proof -
  obtain m where "over_users (old_user_body (net_env R)) (clear_msg (s\<lparr>msg := m\<rparr>)) = ret s'"
    using announce_steps [OF assms] by (auto simp: broadcast_refused)
  from over_users_queue [OF this old_user_queue] show ?thesis by (simp add: clear_msg_def)
qed

lemma login_refused_queue:
  assumes run: "handle_login (answered False R) st = ret s'"
  shows "broadcast_queue s' = broadcast_queue st"
proof -
  obtain nm where nm: "c_strncpy (replicate NET_NAME_LEN 0) 0 (drop off_auth_name (msg st)) (name_size (msg_length st)) = ret nm"
    using run unfolding handle_login_def Let_def bindR_ret_iff by blast
  obtain rc s1 where s1: "login_response_for nm st = ret (rc, s1)"
    using run nm unfolding handle_login_def Let_def bindR_ret_iff by auto
  obtain m where m: "build_login_response (net_env R) (get_server_name (conf s1)) (msg s1) rc = ret m"
    using run nm s1 by (auto simp: handle_login_def Let_def dest: bindR_first)
  obtain s2 where s2: "send_self (net_env R) (s1\<lparr>msg := m\<rparr>) = ret s2"
    using run nm s1 m by (auto simp: handle_login_def Let_def dest: bindR_first)
  have q: "broadcast_queue (clear_msg s2) = broadcast_queue st"
    using s2 login_response_queue [OF s1] by (auto simp: send_self_def clear_msg_def bindR_ret_iff dest!: send_to_queue)
  show ?thesis
    using run nm s1 m s2 q
    by (cases "rc = LR_success") (auto simp: handle_login_def Let_def bindR_ret_iff clear_msg_def dest!: announce_refused_queue)
qed

lemma dispatch_refused_queue:
  assumes "dispatch (answered False R) v st = ret s'"
  shows "broadcast_queue s' = broadcast_queue st"
proof -
  have "broadcast_queue s' = broadcast_queue st" if m: "handle_message (answered False R) st = ret s'"
  proof -
    obtain m where "respond_self (net_env R) queue_full_text (st\<lparr>msg := m\<rparr>) = ret s'"
      using message_steps [OF m] by (auto simp: broadcast_refused)
    from respond_self_queue [OF this] show ?thesis by simp
  qed
  then show ?thesis
    using assms login_refused_queue command_queue
    by (cases v) (auto simp: dispatch_def handle_invalid_def bindR_ret_iff)
qed

lemma round_refused_queue:
  assumes "client_round (answered False R) st = ret (go_on, s')"
  shows "broadcast_queue s' = broadcast_queue st"
  by (rule round_steps [OF assms]) (auto simp: clear_msg_def dest!: dispatch_refused_queue split: if_splits)

section \<open>The client's thread\<close>

text \<open>
  The rounds of a thread each in one piece and its end, with what the queue answers to a round as an
  argument; the queue is emptied behind every round.
\<close>

fun atomic_rounds :: "bool list \<Rightarrow> round_input list \<Rightarrow> server_state \<Rightarrow> server_state res" where
  "atomic_rounds (b # bs) (R # Rs) st =
     bindR (client_round (R\<lparr>mq_send_ok := b\<rparr>) st) (\<lambda>(go_on, s).
       let s = s\<lparr>broadcast_queue := broadcast_queue st\<rparr>
       in if go_on then atomic_rounds bs Rs s else client_end (net_env R) s)"
| "atomic_rounds _ _ st = ret st"

text \<open>The memory for the names of log files is not in use when a round gets it.\<close>

fun always_fresh :: "round_input list \<Rightarrow> server_state \<Rightarrow> bool" where
  "always_fresh [] st = True"
| "always_fresh (R # Rs) st \<longleftrightarrow> memory_ok R st \<and>
     (\<forall>b. always_fresh Rs ((snd (the_ret (client_round (R\<lparr>mq_send_ok := b\<rparr>) st)))\<lparr>broadcast_queue := broadcast_queue st\<rparr>))"

lemma always_fresh_without: "\<forall>R \<in> set Rs. entry_memory R = None \<Longrightarrow> always_fresh Rs st"
  by (induction Rs arbitrary: st) (simp_all add: memory_ok_def)

lemma client_ok_list: "users_inv_at (ustore st) as \<Longrightarrow> list_ok st"
  by (auto simp: list_ok_def users_inv_at_def users_at_def)

lemma honest_thread_leads:
  assumes "client_ok st as a" and "\<forall>R \<in> set Rs. honest R" and "always_fresh Rs st" and "gone G"
    and "broadcast_queue st = []" and "0 < mq_maxmsg st"
    and "\<And>bs s. length bs = length (Rs @ [G]) \<Longrightarrow> atomic_rounds bs (Rs @ [G]) st = ret s \<Longrightarrow> Q s"
  shows "leads True Q R0 (Rs @ [G]) [I_Top] st"
  using assms
proof (induction Rs arbitrary: st R0 Q)
  case Nil
  let ?s = "st\<lparr>msg := msg_zero, connection_status := left_status G\<rparr>"
  have r: "client_round (answered b G) st = ret (False, ?s)" for b
    using client_round_gone [OF Nil.prems(1), of "answered b G"] Nil.prems(4) by (simp add: gone_def left_status_def)
  obtain xs ys where as: "as = xs @ a # ys" using Nil.prems(1) by (auto simp: client_ok_def dest: split_list)
  have ok: "client_ok ?s as a" using Nil.prems(1) by simp
  have "connection_status ?s \<le> 0" by (simp add: left_status_def)
  from client_end_effect [OF ok as _ this, of "net_env G"] obtain s' where
    e: "client_end (net_env G) ?s = ret s'" "users_inv_at (ustore s') (xs @ ys)" by auto
  have same: "?s\<lparr>broadcast_queue := broadcast_queue st\<rparr> = ?s" by simp
  then have "atomic_rounds [True] [G] st = ret s'" using r [of True] e(1) by simp
  then have "Q s'" using Nil.prems(7) [of "[True]" s'] by simp
  from leave_leads [OF e(1) leads.ended, of Q True "[]", OF this client_ok_list [OF e(2)]]
  have "leads True Q G [] leave_code_of ?s" by simp
  then show ?case
    using round_whatever [OF r r, of Q "[]" R0, unfolded same] Nil.prems(5,6) by simp
next
  case (Cons R Rs)
  note ok = Cons.prems(1)
  have h: "honest (answered b R)" "memory_ok (answered b R) st" for b
    using Cons.prems(2,3) by (simp_all add: honest_def brings_def memory_ok_def)
  have stp: "\<exists>s. client_round (answered b R) st = ret (True, s) \<and> round_ok st s as a" for b
    using honest_step [OF ok h] .
  have after: "leads True Q R (Rs @ [G]) [I_Top] (s\<lparr>broadcast_queue := broadcast_queue st\<rparr>)"
    if s: "client_round (answered b R) st = ret (True, s)" for b s
  proof (rule Cons.IH)
    have ro: "round_ok st s as a" using stp [of b] s by simp
    then show "client_ok (s\<lparr>broadcast_queue := broadcast_queue st\<rparr>) as a" by (simp add: round_ok_def)
    show "0 < mq_maxmsg (s\<lparr>broadcast_queue := broadcast_queue st\<rparr>)"
      using ro Cons.prems(6) by (simp add: round_ok_def unmoved_def)
    have "snd (the_ret (client_round (answered b R) st)) = s" using s by (simp add: the_ret_def)
    then show "always_fresh Rs (s\<lparr>broadcast_queue := broadcast_queue st\<rparr>)" using Cons.prems(3) by auto
    show "Q x" if "length bs = length (Rs @ [G])" "atomic_rounds bs (Rs @ [G]) (s\<lparr>broadcast_queue := broadcast_queue st\<rparr>) = ret x" for bs x
      using Cons.prems(7) [of "b # bs" x] that s by simp
  qed (use Cons.prems in simp_all)
  obtain sT where T: "client_round (answered True R) st = ret (True, sT)" using stp by blast
  obtain sF where F: "client_round (answered False R) st = ret (True, sF)" using stp by blast
  have "sF\<lparr>broadcast_queue := broadcast_queue st\<rparr> = sF" using round_refused_queue [OF F] by simp
  then have "leads True Q R (Rs @ [G]) [I_Top] sF" using after [OF F] by simp
  moreover have "queue_sendable sT" by (rule honest_round_queue [OF ok h T Cons.prems(5)])
  ultimately show ?case
    using round_whatever [OF T F, of Q "Rs @ [G]" R0] after [OF T] Cons.prems(5,6) by simp
qed

end
