(* ===== verification/Threads_Interleaving.thy ===== *)
theory Threads_Interleaving
  imports Threads_Safety
begin

text \<open>
  A client's thread beside the broadcast agent, in any interleaving of their instructions: nothing
  fails, the client's thread returns in every fair schedule, and the client's rounds have the effect they
  have when each runs in one piece. The client's code is followed along a run of its own, a
  shadow in which nothing else happens; what the agent changes between two instructions is not part of
  what the shadow sees.
\<close>

section \<open>What a client's code sees\<close>

definition same_view :: "server_state \<Rightarrow> server_state \<Rightarrow> bool" where
  "same_view st sh \<longleftrightarrow> users (ustore st) = users (ustore sh) \<and> self st = self sh
     \<and> connection_status st = connection_status sh \<and> msg st = msg sh \<and> msg_length st = msg_length sh
     \<and> disconnect_reason st = disconnect_reason sh \<and> closed_socks st = closed_socks sh
     \<and> conf st = conf sh \<and> logs st = logs sh \<and> broadcast_Paused st = broadcast_Paused sh"

definition locks_agree :: "server_state \<Rightarrow> server_state \<Rightarrow> bool \<Rightarrow> bool" where
  "locks_agree st sh other \<longleftrightarrow> (user_lock (ustore st) \<longleftrightarrow> user_lock (ustore sh) \<or> other)
     \<and> \<not> (user_lock (ustore sh) \<and> other)"

text \<open>
  A step of the client in the interleaved state, beside the same step of the shadow: both see the
  same, send the same, change the semaphore and the mutex alike, and leave the queue and the agent's
  buffer alone.
\<close>

definition framed :: "server_state \<Rightarrow> server_state \<Rightarrow> server_state \<Rightarrow> server_state \<Rightarrow> bool" where
  "framed st sh st' sh' \<longleftrightarrow> same_view st' sh'
     \<and> broadcast_queue st' = broadcast_queue st \<and> agent_buffer st' = agent_buffer st
     \<and> broadcast_sem st' + broadcast_sem sh = broadcast_sem st + broadcast_sem sh'
     \<and> (\<exists>out. outbox st' = outbox st @ out \<and> outbox sh' = outbox sh @ out)
     \<and> (\<forall>other. locks_agree st sh other \<longrightarrow> locks_agree st' sh' other)"

text \<open>The same instruction of the shadow and of the interleaved thread.\<close>

definition steps_along :: "round_input \<Rightarrow> instr \<Rightarrow> server_state \<Rightarrow> server_state \<Rightarrow> server_state \<Rightarrow> instr list \<Rightarrow> bool" where
  "steps_along R i st sh sh' js \<longleftrightarrow>
     (exec R i st = None \<and> (user_lock (ustore st) \<and> \<not> user_lock (ustore sh)
         \<or> i = I_Sem_wait \<and> broadcast_sem st < broadcast_sem sh))
     \<or> (\<exists>st'. exec R i st = Some (ret (st', js)) \<and> framed st sh st' sh')"

lemma framed_refl: "same_view st sh \<Longrightarrow> framed st sh st sh"
  by (simp add: framed_def)

lemma view_reads:
  assumes "same_view st sh"
  shows "read_user f p (ustore st) = read_user f p (ustore sh)"
    and "self_sock st = self_sock sh"
    and "iterate_User p (ustore st) = iterate_User p (ustore sh)"
    and "w \<noteq> Delivery \<Longrightarrow> walk_test w t st = walk_test w t sh"
  using assms
  by (auto simp: same_view_def read_user_def self_sock_def user_sock_def iterate_User_def walk_test_def
      logged_in_test_def others_test_def is_User_LoggedIn_def get_User_name_def split: walk.split option.split
      intro!: bindR_cong)

lemmas view_defs = get_User_name_def get_User_name_length_def is_User_LoggedIn_def should_User_shutdown_def
  user_sock_def

lemma view_eqs:
  assumes "same_view st sh"
  shows "users (ustore st) = users (ustore sh)" "self st = self sh" "connection_status st = connection_status sh"
    "msg st = msg sh" "msg_length st = msg_length sh" "disconnect_reason st = disconnect_reason sh"
    "closed_socks st = closed_socks sh" "conf st = conf sh" "logs st = logs sh" "broadcast_Paused st = broadcast_Paused sh"
    "self_sock (clear_msg st) = self_sock (clear_msg sh)"
  using assms by (simp_all add: same_view_def self_sock_def clear_msg_def user_sock_def read_user_def)

lemma framed_updates:
  assumes "same_view st sh"
  shows "framed st sh (st\<lparr>msg := m\<rparr>) (sh\<lparr>msg := m\<rparr>)"
    and "framed st sh (clear_msg st) (clear_msg sh)"
    and "framed st sh (st\<lparr>msg_length := l\<rparr>) (sh\<lparr>msg_length := l\<rparr>)"
    and "framed st sh (st\<lparr>connection_status := c, msg := m\<rparr>) (sh\<lparr>connection_status := c, msg := m\<rparr>)"
    and "framed st sh (st\<lparr>self := u, msg := m, msg_length := l, disconnect_reason := d\<rparr>)
      (sh\<lparr>self := u, msg := m, msg_length := l, disconnect_reason := d\<rparr>)"
    and "framed st sh (st\<lparr>disconnect_reason := d\<rparr>) (sh\<lparr>disconnect_reason := d\<rparr>)"
    and "framed st sh (st\<lparr>closed_socks := cs\<rparr>) (sh\<lparr>closed_socks := cs\<rparr>)"
    and "framed st sh (st\<lparr>logs := lg\<rparr>) (sh\<lparr>logs := lg\<rparr>)"
    and "framed st sh (st\<lparr>broadcast_Paused := b\<rparr>) (sh\<lparr>broadcast_Paused := b\<rparr>)"
    and "framed st sh (st\<lparr>outbox := outbox st @ out\<rparr>) (sh\<lparr>outbox := outbox sh @ out\<rparr>)"
    and "framed st sh (st\<lparr>broadcast_sem := Suc (broadcast_sem st)\<rparr>) (sh\<lparr>broadcast_sem := Suc (broadcast_sem sh)\<rparr>)"
    and "0 < broadcast_sem st \<Longrightarrow> 0 < broadcast_sem sh \<Longrightarrow> framed st sh
      (st\<lparr>broadcast_sem := broadcast_sem st - Suc 0\<rparr>) (sh\<lparr>broadcast_sem := broadcast_sem sh - Suc 0\<rparr>)"
    and "framed st sh (st\<lparr>ustore := (ustore st)\<lparr>users := us\<rparr>\<rparr>) (sh\<lparr>ustore := (ustore sh)\<lparr>users := us\<rparr>\<rparr>)"
    and "\<not> user_lock (ustore st) \<Longrightarrow> \<not> user_lock (ustore sh) \<Longrightarrow> framed st sh (st\<lparr>ustore := s\<rparr>) (sh\<lparr>ustore := s\<rparr>)"
    and "user_lock (ustore sh) \<Longrightarrow> framed st sh (st\<lparr>ustore := unlock_user_mutex (ustore st)\<rparr>)
      (sh\<lparr>ustore := unlock_user_mutex (ustore sh)\<rparr>)"
  using assms by (simp_all add: framed_def same_view_def locks_agree_def clear_msg_def)

text \<open>The instructions in groups: building messages, answering, and what concerns the users.\<close>

lemma frame_messages:
  assumes x: "exec R i sh = Some (ret (sh', js))" and v: "same_view st sh"
    and i: "i \<in> {I_Top, I_Check, I_Length, I_Receive, I_Copy_name, I_Build_login c, I_Build_added, I_Build_old t,
      I_Build_text, I_Clear, I_Build_help d, I_Build_removed}"
  shows "steps_along R i st sh sh' js"
  using i x v
  by (elim insertE emptyE)
     (auto simp: steps_along_def view_defs view_reads [OF v] view_eqs [OF v] framed_updates [OF v] framed_refl
        elim!: bindR_retE)

lemma frame_answers:
  assumes x: "exec R i sh = Some (ret (sh', js))" and v: "same_view st sh"
    and i: "i \<in> {I_Respond f, I_Is_admin, I_Command, I_Kick_name, I_Not_found nk, I_Pause, I_Resume, I_Invalid,
      I_Set_paused, I_Unset_paused, I_Has_name, I_Reason, I_Begin u, I_Sem_post, I_Sem_wait}"
  shows "steps_along R i st sh sh' js"
  using i x v
  by (elim insertE emptyE)
     (auto simp: steps_along_def view_defs view_reads [OF v] view_eqs [OF v] framed_updates [OF v] framed_refl
        respond_def Is_broadcast_paused_def elim!: bindR_retE split: option.splits if_splits)

lemma frame_sends:
  assumes x: "exec R i sh = Some (ret (sh', js))" and v: "same_view st sh"
    and i: "i \<in> {I_Send_self, I_Send_to t, I_Close t, I_Close_self, I_Register, I_Target w p, I_Next w t}" and c: "clients i"
  shows "steps_along R i st sh sh' js"
  using i x c v
  by (elim insertE emptyE)
     (auto simp: steps_along_def view_defs view_reads [OF v] view_eqs [OF v] framed_updates [OF v] framed_refl
        send_self_def send_to_def clients_def elim!: bindR_retE split: option.splits)

lemma frame_updates:
  assumes x: "exec R i sh = Some (ret (sh', js))" and v: "same_view st sh"
    and i: "i \<in> {I_Mark t, I_Shutdown, I_Logout}"
  shows "steps_along R i st sh sh' js"
  using i x
  by (elim insertE emptyE)
     (auto simp: steps_along_def view_eqs [OF v] framed_updates [OF v] update_user_def user_should_shutdown_def
        logout_user_def handle_invalid_def elim!: bindR_retE)

text \<open>The calls that hold the mutex while they run.\<close>

lemma frame_locked:
  assumes x: "exec R i sh = Some (ret (sh', js))" and v: "same_view st sh" and c: "clients i"
    and i: "i \<in> {I_Find_socket n sk m, I_Add_user n sk m, I_Login nm, I_Find_own, I_Unlink q, I_Lock w}"
  shows "steps_along R i st sh sh' js"
proof (cases "user_lock (ustore st)")
  case True
  have "\<not> user_lock (ustore sh)" using i x by (elim insertE emptyE) (auto simp: if_free_def split: if_splits)
  then show ?thesis using i True by (elim insertE emptyE) (simp_all add: steps_along_def if_free_def)
next
  case False
  have f: "\<not> user_lock (ustore sh)" using i x by (elim insertE emptyE) (auto simp: if_free_def split: if_splits)
  have e: "ustore st = ustore sh" using False f view_eqs(1) [OF v] by simp
  show ?thesis
    using i x c
    by (elim insertE emptyE)
       (auto simp: steps_along_def if_free_def f e view_reads [OF v] view_eqs(2-10) [OF v] framed_updates(14) [OF v False f]
          elim!: bindR_retE)
qed

lemma name_free_view:
  assumes "users s = users s'" and "dfront (users s') = None \<or> \<not> user_lock s \<and> \<not> user_lock s'"
    and "is_name_free nm s' = ret (f, us)"
  shows "us = s' \<and> is_name_free nm s = ret (f, s)"
  using assms by (auto simp: is_name_free_def bindR_ret_iff split: if_splits)

lemma frame_name_free:
  assumes x: "exec R (I_Name_free nm) sh = Some (ret (sh', js))" and v: "same_view st sh"
  shows "steps_along R (I_Name_free nm) st sh sh' js"
proof (cases "user_lock (ustore st) \<and> \<not> user_lock (ustore sh) \<and> dfront (users (ustore sh)) \<noteq> None")
  case True
  then show ?thesis using view_eqs(1) [OF v] by (simp add: steps_along_def)
next
  case False
  have w: "users (ustore st) = users (ustore sh)" by (rule view_eqs(1) [OF v])
  have n: "\<not> (user_lock (ustore sh) \<and> dfront (users (ustore sh)) \<noteq> None)"
    and l: "bindR (login_response_for nm sh) (\<lambda>(response_Code, st). ret (st, login_answer response_Code nm)) = ret (sh', js)"
    using x by (auto split: if_splits)
  obtain rc where rc: "login_response_for nm sh = ret (rc, sh')" "js = login_answer rc nm"
    using l by (auto elim!: bindR_retE)
  then obtain f us where f: "is_name_free nm (ustore sh) = ret (f, us)"
    by (auto simp: login_response_for_def elim!: bindR_retE)
  have d: "dfront (users (ustore sh)) = None \<or> \<not> user_lock (ustore st) \<and> \<not> user_lock (ustore sh)" using False n by blast
  note g = name_free_view [OF w d f]
  then have "login_response_for nm st = ret (rc, st)" "sh' = sh"
    using rc(1) f by (auto simp: login_response_for_def Let_def elim!: bindR_retE)
  then show ?thesis using False n w rc(2) framed_refl [OF v] by (auto simp: steps_along_def)
qed

lemma client_frame:
  assumes "exec R i sh = Some (ret (sh', js))" and v: "same_view st sh" and "clients i" and "\<not> queueing i"
    and "i = I_Unlock \<Longrightarrow> user_lock (ustore sh)"
  shows "steps_along R i st sh sh' js"
proof (cases "i = I_Unlock")
  case True
  then show ?thesis using assms(1,5) framed_updates(15) [OF v] by (auto simp: steps_along_def)
next
  case False
  then show ?thesis
    using assms frame_messages [OF assms(1,2)] frame_answers [OF assms(1,2)] frame_sends [OF assms(1,2)]
      frame_updates [OF assms(1,2)] frame_locked [OF assms(1-3)] frame_name_free [OF _ assms(2)]
    by (cases i) (auto simp: queueing_def clients_def simp del: exec.simps)
qed

section \<open>The list of users\<close>

lemma set_item_list:
  assumes "set_item (heap l) p f = ret h" and "dll_ok l as"
  shows "dll_ok (l\<lparr>heap := h\<rparr>) as"
proof -
  obtain a where p: "p = Some a" using assms(1) by (cases p) (auto simp: set_item_def)
  then obtain n where "heap l a = Some n"
    using assms(1) by (cases "heap l a") (auto simp: set_item_def)
  then have "a \<in> set as" using assms(2) by (auto simp: dll_ok_def)
  from set_item_ok [OF assms(2) this, of f] assms(1) p show ?thesis by auto
qed

lemma exec_list:
  assumes x: "exec R i st = Some (ret (st', js))" and c: "clients i" and n: "\<not> restructures i" and l: "dll_ok (users (ustore st)) as"
  shows "dll_ok (users (ustore st')) as"
proof -
  have up: "dll_ok (users s') as" if "update_user p f (ustore st) = ret s'" for p f s'
    using that set_item_list [OF _ l] by (auto simp: update_user_def elim!: bindR_retE)
  have li: "dll_ok (users s') as" if "login_User p nm k (ustore st) = ret (b, s')" for p nm k b s'
    using that set_item_list [OF _ l]
    by (auto simp: login_User_def lock_user_mutex_def elim!: bindR_retE split: if_splits)
  have fu: "users s' = users (ustore st)" if "f_find_User sk (ustore st) = ret (b, s')" for sk b s'
    using that by (auto simp: f_find_User_def lock_user_mutex_def elim!: bindR_retE split: if_splits)
  have nf: "users s' = users (ustore st)" if "is_name_free nm (ustore st) = ret (b, s')" for nm b s'
    using that by (auto simp: is_name_free_def lock_user_mutex_def elim!: bindR_retE split: if_splits)
  show ?thesis
    using x c n l
    by (cases i)
      (auto simp: clients_def restructures_def if_free_def clear_msg_def respond_def send_self_def send_to_def
        login_response_for_def handle_invalid_def user_should_shutdown_def logout_user_def lock_user_mutex_def
        dest!: up li fu nf elim!: bindR_retE split: if_splits option.splits)
qed

section \<open>The agent\<close>

text \<open>
  Where the agent is: with nothing in hand, or with a message it can send, before its turn of the
  semaphore or in its delivery, at a user of the list while it holds the mutex.
\<close>

definition agent_walk :: "nat list \<Rightarrow> instr list \<Rightarrow> bool" where
  "agent_walk as code \<longleftrightarrow> (\<exists>t. (t = None \<or> (\<exists>a \<in> set as. t = Some a)) \<and> code = [I_Target Delivery t, A_Post])
     \<or> (\<exists>a \<in> set as. code = [A_Send_to a, I_Next Delivery a, A_Post] \<or> code = [I_Next Delivery a, A_Post])
     \<or> code = [I_Unlock, A_Post]"

definition agent_ok :: "nat list \<Rightarrow> server_state \<Rightarrow> instr list \<Rightarrow> bool" where
  "agent_ok as st code \<longleftrightarrow> code = [A_Receive]
     \<or> (\<exists>q. agent_buffer st = Some q \<and> sendable (qmsg q)
          \<and> (code = [A_Wait] \<or> code = [I_Lock Delivery, A_Post] \<or> agent_walk as code \<or> code = [A_Post]))"

definition delivering :: "instr list \<Rightarrow> bool" where
  "delivering code \<longleftrightarrow> code \<noteq> [] \<and> (case hd code of I_Target _ _ \<Rightarrow> True | A_Send_to _ \<Rightarrow> True | I_Next _ _ \<Rightarrow> True
     | I_Unlock \<Rightarrow> True | _ \<Rightarrow> False)"

definition in_turn :: "instr list \<Rightarrow> nat" where
  "in_turn code = (if A_Post \<in> set code then 1 else 0)"

text \<open>How many steps the agent's round still takes at most, with a list of users at the addresses \<open>as\<close>.\<close>

definition users_left :: "nat list \<Rightarrow> nat \<Rightarrow> nat" where
  "users_left as a = length (dropWhile (\<lambda>b. b \<noteq> a) as)"

fun turn_left :: "nat list \<Rightarrow> instr list \<Rightarrow> nat" where
  "turn_left as (A_Wait # is) = 3 * length as + 5"
| "turn_left as (I_Lock w # is) = 3 * length as + 4"
| "turn_left as (I_Target w t # is) = (case t of None \<Rightarrow> 3 | Some a \<Rightarrow> 3 * users_left as a + 3)"
| "turn_left as (A_Send_to a # is) = 3 * users_left as a + 2"
| "turn_left as (I_Next w a # is) = 3 * users_left as a + 1"
| "turn_left as (I_Unlock # is) = 2"
| "turn_left as (A_Post # is) = 1"
| "turn_left as is = 0"

text \<open>A step of the agent takes a message from the queue, or leaves the queue and comes nearer to the next.\<close>

definition agent_nearer :: "nat list \<Rightarrow> server_state \<Rightarrow> instr list \<Rightarrow> server_state \<Rightarrow> instr list \<Rightarrow> bool" where
  "agent_nearer as st code st' code' \<longleftrightarrow> length (broadcast_queue st') < length (broadcast_queue st)
     \<or> broadcast_queue st' = broadcast_queue st \<and> turn_left as code' < turn_left as code"

lemma users_left_le: "users_left as a \<le> length as"
  by (simp add: users_left_def length_dropWhile_le)

lemma agent_codes [simp]:
  "delivering [I_Target Delivery t, A_Post]" "delivering [A_Send_to a, I_Next Delivery a, A_Post]"
  "delivering [I_Next Delivery a, A_Post]" "delivering [I_Unlock, A_Post]"
  "\<not> delivering [A_Receive]" "\<not> delivering [A_Wait]" "\<not> delivering [I_Lock Delivery, A_Post]" "\<not> delivering [A_Post]"
  "in_turn [I_Target Delivery t, A_Post] = 1" "in_turn [A_Send_to a, I_Next Delivery a, A_Post] = 1"
  "in_turn [I_Next Delivery a, A_Post] = 1" "in_turn [I_Unlock, A_Post] = 1"
  "in_turn [A_Receive] = 0" "in_turn [A_Wait] = 0" "in_turn [I_Lock Delivery, A_Post] = 1" "in_turn [A_Post] = 1"
  by (simp_all add: delivering_def in_turn_def)

lemma agent_walk_delivering: "agent_walk as code \<Longrightarrow> delivering code \<and> in_turn code = 1"
  by (auto simp: agent_walk_def)

text \<open>What the agent changes: its buffer, the outbox, the semaphore, the mutex, and it takes from the queue.\<close>

definition agent_moves :: "server_state \<Rightarrow> instr list \<Rightarrow> server_state \<Rightarrow> instr list \<Rightarrow> bool" where
  "agent_moves st code st' code' \<longleftrightarrow> same_view st' st \<and> mq_maxmsg st' = mq_maxmsg st
     \<and> (\<exists>qs. broadcast_queue st = qs @ broadcast_queue st') \<and> (\<exists>out. outbox st' = outbox st @ out)
     \<and> broadcast_sem st' + in_turn code' = broadcast_sem st + in_turn code
     \<and> (if delivering code' = delivering code then user_lock (ustore st') = user_lock (ustore st)
        else user_lock (ustore st) = delivering code \<and> user_lock (ustore st') = delivering code')"

lemma users_in_list:
  assumes "dll_ok (users (ustore st)) as" and "a \<in> set as"
  shows "\<exists>v. read_user f (Some a) (ustore st) = ret v"
    and "\<exists>t. iterate_User (Some a) (ustore st) = ret t
      \<and> (t = None \<or> (\<exists>b \<in> set as. t = Some b \<and> users_left as b < users_left as a))"
    and "0 < users_left as a"
proof -
  obtain n where n: "heap (users (ustore st)) a = Some n" using dll_ok_Some [OF assms] by blast
  then show "\<exists>v. read_user f (Some a) (ustore st) = ret v" by (simp add: read_user_def)
  obtain xs ys where as: "as = xs @ a # ys" using assms(2) by (auto dest: split_list)
  then have "\<exists>r y. dseg (heap (users (ustore st))) r y (a # ys) None (dback (users (ustore st)))"
    using assms(1) by (auto simp: dll_ok_def dseg_append)
  then obtain y where "dseg (heap (users (ustore st))) (next_ptr n) y ys None (dback (users (ustore st)))"
    using n by auto
  from dseg_first_eq [OF this] have np: "next_ptr n = (if ys = [] then None else Some (hd ys))" .
  have d: "distinct (xs @ a # ys)" using assms(1) as by (simp add: dll_ok_def)
  have la: "users_left as a = Suc (length ys)"
    unfolding as users_left_def using d by (subst dropWhile_append2) auto
  then show "0 < users_left as a" by simp
  have "users_left as (hd ys) < users_left as a" if "ys \<noteq> []"
  proof -
    obtain b zs where ys: "ys = b # zs" using \<open>ys \<noteq> []\<close> by (cases ys) auto
    have "users_left as b = Suc (length zs)"
      unfolding as ys users_left_def using d ys by (subst dropWhile_append2) auto
    then show ?thesis using la ys by simp
  qed
  then show "\<exists>t. iterate_User (Some a) (ustore st) = ret t
      \<and> (t = None \<or> (\<exists>b \<in> set as. t = Some b \<and> users_left as b < users_left as a))"
    using n np as by (simp add: iterate_User_def)
qed

lemma sendable_send:
  assumes "sendable m"
  shows "\<exists>out. send_to E sk m st = ret (st\<lparr>outbox := outbox st @ out\<rparr>)"
proof -
  obtain t body where "carries_frame E m t body" using assms by (auto simp: sendable_frame [of m E])
  from send_to_frame [OF this] show ?thesis by blast
qed

definition agent_waits :: "instr \<Rightarrow> server_state \<Rightarrow> bool" where
  "agent_waits i st \<longleftrightarrow> i = A_Receive \<and> broadcast_queue st = [] \<or> i = A_Wait \<and> broadcast_sem st = 0
     \<or> i = I_Lock Delivery \<and> user_lock (ustore st)"

lemma agent_walks:
  assumes w: "agent_walk as code" and b: "agent_buffer st = Some q" and s: "sendable (qmsg q)"
    and l: "dll_ok (users (ustore st)) as" and lock: "user_lock (ustore st)"
  shows "\<exists>i is st' js. code = i # is \<and> exec R i st = Some (ret (st', js)) \<and> agent_buffer st' = Some q
    \<and> (agent_walk as (js @ is) \<or> js @ is = [A_Post]) \<and> agent_moves st code st' (js @ is)
    \<and> agent_nearer as st code st' (js @ is)"
proof -
  note rd = users_in_list [OF l]
  have same: "same_view st st" by (simp add: same_view_def)
  consider t where "code = [I_Target Delivery t, A_Post]" "t = None \<or> (\<exists>a \<in> set as. t = Some a)"
    | a where "a \<in> set as" "code = [A_Send_to a, I_Next Delivery a, A_Post]"
    | a where "a \<in> set as" "code = [I_Next Delivery a, A_Post]" | "code = [I_Unlock, A_Post]"
    using w by (auto simp: agent_walk_def)
  then show ?thesis
  proof cases
    case 1
    show ?thesis
    proof (cases t)
      case None
      then show ?thesis using 1 b same by (simp add: walk_end_def agent_walk_def agent_moves_def agent_nearer_def)
    next
      case (Some a)
      then have a: "a \<in> set as" using 1(2) by simp
      obtain c where "walk_test Delivery a st = ret c"
        using rd(1) [OF a, of logged_in] b
        by (cases "Some a = sender q") (auto simp: walk_test_def is_User_LoggedIn_def)
      then have "exec R (I_Target Delivery t) st = Some (ret (st, if c then [A_Send_to a, I_Next Delivery a] else [I_Next Delivery a]))"
        using Some by (simp add: walk_body_def)
      moreover have "code = [I_Target Delivery t, A_Post]" "turn_left as code = 3 * users_left as a + 3"
        using 1(1) Some by simp_all
      ultimately show ?thesis
        using a b same by (cases c) (auto simp: agent_walk_def agent_moves_def agent_nearer_def simp del: exec.simps)
    qed
  next
    case 2
    obtain sk where sk: "user_sock (Some a) (ustore st) = ret sk"
      using rd(1) [OF 2(1), of sock] by (auto simp: user_sock_def)
    obtain out where "send_to (net_env R) sk (qmsg q) st = ret (st\<lparr>outbox := outbox st @ out\<rparr>)"
      using sendable_send [OF s] by blast
    then have "exec R (A_Send_to a) st = Some (ret (st\<lparr>outbox := outbox st @ out\<rparr>, []))" using sk b by simp
    then show ?thesis using 2 b same by (auto simp: agent_walk_def agent_moves_def agent_nearer_def same_view_def)
  next
    case 3
    obtain t where t: "iterate_User (Some a) (ustore st) = ret t"
      "t = None \<or> (\<exists>b \<in> set as. t = Some b \<and> users_left as b < users_left as a)"
      using rd(2) [OF 3(1)] by blast
    then have "exec R (I_Next Delivery a) st = Some (ret (st, [I_Target Delivery t]))"
      "agent_walk as [I_Target Delivery t, A_Post]" by (auto simp: agent_walk_def)
    moreover have "turn_left as [I_Target Delivery t, A_Post] < turn_left as code"
      using t(2) 3(2) rd(3) [OF 3(1)] by auto
    ultimately show ?thesis using 3(2) b same by (simp add: agent_moves_def agent_nearer_def)
  next
    case 4
    then show ?thesis using b lock by (simp add: agent_moves_def agent_nearer_def same_view_def)
  qed
qed

lemma agent_step:
  assumes ok: "agent_ok as st code" and l: "dll_ok (users (ustore st)) as" and q: "queue_sendable st"
    and lock: "delivering code \<Longrightarrow> user_lock (ustore st)"
  shows "\<exists>i is. code = i # is \<and> (exec R i st = None \<and> agent_waits i st
    \<or> (\<exists>st' js. exec R i st = Some (ret (st', js)) \<and> agent_ok as st' (js @ is) \<and> agent_moves st code st' (js @ is)
         \<and> agent_nearer as st code st' (js @ is)))"
proof -
  have first: "get_First_User us = None \<or> (\<exists>a \<in> set as. get_First_User us = Some a)"
    if "users us = users (ustore st)" for us
    using l that by (cases as) (auto simp: get_First_User_def dll_ok_def split: option.splits)
  consider "code = [A_Receive]"
    | m where "agent_buffer st = Some m" "sendable (qmsg m)" "code = [A_Wait] \<or> code = [A_Post]"
    | m where "agent_buffer st = Some m" "sendable (qmsg m)" "code = [I_Lock Delivery, A_Post]"
    | m where "agent_buffer st = Some m" "sendable (qmsg m)" "agent_walk as code"
    using ok by (auto simp: agent_ok_def)
  then show ?thesis
  proof cases
    case 1
    then show ?thesis
      using q by (cases "broadcast_queue st") (simp_all add: mq_receive_def agent_waits_def agent_ok_def agent_moves_def agent_nearer_def same_view_def)
  next
    case 2
    then show ?thesis
      by (elim disjE) (simp_all add: agent_waits_def agent_ok_def agent_moves_def agent_nearer_def same_view_def)
  next
    case 3
    show ?thesis
    proof (cases "user_lock (ustore st)")
      case True
      then show ?thesis using 3 by (simp add: if_free_def agent_waits_def)
    next
      case False
      then show ?thesis
        using 3 first [of "(ustore st)\<lparr>user_lock := True\<rparr>"] users_left_le [of as]
        by (simp add: if_free_def agent_ok_def agent_walk_def agent_moves_def agent_nearer_def same_view_def less_Suc_eq_le split: option.split)
    qed
  next
    case 4
    then have "user_lock (ustore st)" using lock agent_walk_delivering by blast
    from agent_walks [OF 4(3,1,2) l this, of R] obtain i "is" st' js where
      "code = i # is" "exec R i st = Some (ret (st', js))" "agent_buffer st' = Some m"
      "agent_walk as (js @ is) \<or> js @ is = [A_Post]" "agent_moves st code st' (js @ is)"
      "agent_nearer as st code st' (js @ is)" by blast
    then show ?thesis using 4(2) by (auto simp: agent_ok_def simp del: exec.simps)
  qed
qed

section \<open>Both together\<close>

text \<open>
  \<open>leads\<close> whatever the queue answers, with a bound on the steps. A client that is about to put a message
  into the queue has offered it before: it leads on with either answer.
\<close>

inductive leads_in ::
    "(server_state \<Rightarrow> bool) \<Rightarrow> nat \<Rightarrow> round_input \<Rightarrow> round_input list \<Rightarrow> instr list \<Rightarrow> server_state \<Rightarrow> bool"
  for Q where
  ended: "Q st \<Longrightarrow> leads_in Q n R Rs [] st"
| step: "exec R i st = Some (ret (st', js)) \<Longrightarrow> step_fine True i st st' \<Longrightarrow> leads_in Q n R Rs (js @ is) st'
    \<Longrightarrow> leads_in Q (Suc n) R Rs (i # is) st"
| check: "exec R' I_Check st = Some (ret (st', js)) \<Longrightarrow> leads_in Q n R' Rs (js @ is) st'
    \<Longrightarrow> leads_in Q (Suc n) R (R' # Rs) (I_Check # is) st"
| offer: "sendable (msg st) \<Longrightarrow> leads_in Q n R Rs is st \<Longrightarrow> leads_in Q n R Rs (refused @ is) st
    \<Longrightarrow> leads_in Q (Suc n) R Rs (I_Queue refused # is) st"

inductive_cases leads_in_instrE: "leads_in Q n R Rs (i # is) st"
inductive_simps leads_in_nil: "leads_in Q n R Rs [] st"

lemma leads_in_more: "leads_in Q n R Rs code st \<Longrightarrow> n \<le> m \<Longrightarrow> leads_in Q m R Rs code st"
proof (induction arbitrary: m rule: leads_in.induct)
  case (step R i st st' js n Rs "is")
  then show ?case by (cases m) (auto intro: leads_in.step simp del: exec.simps)
next
  case (check R' st st' js n Rs "is" R)
  then show ?case by (cases m) (auto intro: leads_in.check simp del: exec.simps)
next
  case (offer st n R Rs "is" refused)
  then show ?case by (cases m) (auto intro: leads_in.offer)
qed (rule leads_in.ended)

lemma leads_leads_in: "leads True Q R Rs code st \<Longrightarrow> \<exists>n. leads_in Q n R Rs code st"
proof (induction rule: leads.induct)
  case (offer st R Rs "is" refused)
  then obtain n m where "leads_in Q n R Rs is st" "leads_in Q m R Rs (refused @ is) st" by blast
  then have "leads_in Q (max n m) R Rs is st" "leads_in Q (max n m) R Rs (refused @ is) st"
    by (auto elim: leads_in_more)
  then show ?case using offer(2) leads_in.offer by blast
qed (blast intro: leads_in.intros)+

definition client_leads :: "(server_state \<Rightarrow> bool) \<Rightarrow> nat \<Rightarrow> thread_state \<Rightarrow> server_state \<Rightarrow> server_state \<Rightarrow> bool" where
  "client_leads Q n cl st sh \<longleftrightarrow> (\<exists>k. n = 2 * k \<and> leads_in Q k (current cl) (coming cl) (to_do cl) sh)
     \<or> (\<exists>k q refused is. n = Suc (2 * k) \<and> to_do cl = I_Mq_send q refused # is \<and> sendable (qmsg q)
          \<and> length (broadcast_queue st) < mq_maxmsg st
          \<and> leads_in Q k (current cl) (coming cl) is sh \<and> leads_in Q k (current cl) (coming cl) (refused @ is) sh)"

text \<open>What one part of the program sends is appended to its own part of an interleaving.\<close>

lemma shuffles_right: "zs \<in> shuffles xs ys \<Longrightarrow> zs @ us \<in> shuffles xs (ys @ us)"
proof (induction zs arbitrary: xs ys)
  case (Cons z zs)
  then show ?case by (auto simp: Cons_in_shuffles_iff)
qed simp

lemma shuffles_left: "zs \<in> shuffles xs ys \<Longrightarrow> zs @ us \<in> shuffles (xs @ us) ys"
  using shuffles_right [of zs ys xs us] by (metis shuffles_commutes)

definition both_at ::
    "(server_state \<Rightarrow> bool) \<Rightarrow> nat \<Rightarrow> nat list \<Rightarrow> (u16 \<times> byte list) list \<Rightarrow> server_state
      \<Rightarrow> thread_state \<Rightarrow> thread_state \<Rightarrow> bool" where
  "both_at Q n as ds st cl ag \<longleftrightarrow> (\<exists>sh. client_leads Q n cl st sh \<and> same_view st sh
     \<and> dll_ok (users (ustore st)) as \<and> locks_agree st sh (delivering (to_do ag))
     \<and> broadcast_sem st + in_turn (to_do ag) = broadcast_sem sh
     \<and> queue_sendable st \<and> outbox st \<in> shuffles (outbox sh) ds \<and> agent_ok as st (to_do ag))"

text \<open>
  A step of the agent keeps that, and shortens its turn or ends it; a step of the client shortens what
  is left of its code.
\<close>

lemma agent_thread_step:
  assumes "both_at Q n as ds st cl ag"
  shows "thread_step ag st = None \<and> agent_waits (hd (to_do ag)) st
    \<or> (\<exists>st' ag'. thread_step ag st = Some (ret (st', ag')) \<and> both_at Q n as (ds @ drop (length (outbox st)) (outbox st')) st' cl ag'
         \<and> agent_nearer as st (to_do ag) st' (to_do ag'))"
proof -
  obtain sh where b: "client_leads Q n cl st sh" "same_view st sh"
    "dll_ok (users (ustore st)) as" "locks_agree st sh (delivering (to_do ag))"
    "broadcast_sem st + in_turn (to_do ag) = broadcast_sem sh" "queue_sendable st"
    "outbox st \<in> shuffles (outbox sh) ds" "agent_ok as st (to_do ag)"
    using assms unfolding both_at_def by blast
  have "delivering (to_do ag) \<Longrightarrow> user_lock (ustore st)" using b(4) by (simp add: locks_agree_def)
  from agent_step [OF b(8,3,6) this, of "current ag"] obtain i "is" where c: "to_do ag = i # is"
    and s: "(exec (current ag) i st = None \<and> agent_waits i st)
    \<or> (\<exists>st' js. exec (current ag) i st = Some (ret (st', js)) \<and> agent_ok as st' (js @ is) \<and> agent_moves st (to_do ag) st' (js @ is)
      \<and> agent_nearer as st (to_do ag) st' (js @ is))"
    by blast
  have "i \<noteq> I_Check" using b(8) c by (auto simp: agent_ok_def agent_walk_def)
  note step = thread_step_plain [OF c this, of st]
  from s show ?thesis
  proof (elim disjE exE conjE)
    assume "exec (current ag) i st = None" "agent_waits i st"
    then show ?thesis using c step by (simp add: proceed_def del: exec.simps)
  next
    fix st' js assume x: "exec (current ag) i st = Some (ret (st', js))" and ok: "agent_ok as st' (js @ is)"
      and m: "agent_moves st (to_do ag) st' (js @ is)"
      and less: "agent_nearer as st (to_do ag) st' (js @ is)"
    let ?ag = "ag\<lparr>to_do := js @ is\<rparr>"
    have v: "same_view st' st" using m by (simp add: agent_moves_def)
    obtain qs out where qs: "broadcast_queue st = qs @ broadcast_queue st'" and out: "outbox st' = outbox st @ out"
      and mm: "mq_maxmsg st' = mq_maxmsg st" using m by (auto simp: agent_moves_def)
    have "both_at Q n as (ds @ drop (length (outbox st)) (outbox st')) st' cl ?ag" unfolding both_at_def
    proof (intro exI conjI)
      show "client_leads Q n cl st' sh" using b(1) qs mm by (auto simp: client_leads_def)
      show "same_view st' sh" using v b(2) by (simp add: same_view_def)
      show "dll_ok (users (ustore st')) as" using v b(3) by (simp add: same_view_def)
      show "locks_agree st' sh (delivering (to_do ?ag))"
        using m b(4) by (auto simp: agent_moves_def locks_agree_def split: if_splits)
      show "broadcast_sem st' + in_turn (to_do ?ag) = broadcast_sem sh" using m b(5) by (simp add: agent_moves_def)
      show "queue_sendable st'" using b(6) qs by simp
      show "outbox st' \<in> shuffles (outbox sh) (ds @ drop (length (outbox st)) (outbox st'))"
        using shuffles_right [OF b(7)] out by simp
      show "agent_ok as st' (to_do ?ag)" using ok by simp
    qed
    then show ?thesis using step x less by (simp add: proceed_def del: exec.simps)
  qed
qed

lemma agent_ok_idle:
  "agent_ok as st code \<Longrightarrow> \<not> delivering code \<Longrightarrow> agent_buffer st' = agent_buffer st \<Longrightarrow> agent_ok bs st' code"
  using agent_walk_delivering by (auto simp: agent_ok_def)

lemma agent_ok_same: "agent_ok as st code \<Longrightarrow> agent_buffer st' = agent_buffer st \<Longrightarrow> agent_ok as st' code"
  by (simp add: agent_ok_def)

text \<open>A step of the client after which its code leads on from the shadow's next state.\<close>

lemma client_moves:
  assumes n: "client_leads Q m th st' sh'" and f: "framed st sh st' sh'" and sh: "same_view st sh" "locks_agree st sh (delivering (to_do ag))"
      "broadcast_sem st + in_turn (to_do ag) = broadcast_sem sh" "queue_sendable st" "outbox st \<in> shuffles (outbox sh) ds"
    and l: "dll_ok (users (ustore st')) bs" and ag: "agent_ok bs st' (to_do ag)"
  shows "both_at Q m bs ds st' th ag"
  unfolding both_at_def
proof (intro exI conjI)
  show "client_leads Q m th st' sh'" by (rule n)
  show "same_view st' sh'" "locks_agree st' sh' (delivering (to_do ag))" using f sh(2) by (simp_all add: framed_def)
  show "broadcast_sem st' + in_turn (to_do ag) = broadcast_sem sh'" using f sh(3) by (simp add: framed_def)
  show "queue_sendable st'" using f sh(4) by (simp add: framed_def)
  obtain out where "outbox st' = outbox st @ out" "outbox sh' = outbox sh @ out" using f by (auto simp: framed_def)
  then show "outbox st' \<in> shuffles (outbox sh') ds" using shuffles_left [OF sh(5)] by simp
  show "dll_ok (users (ustore st')) bs" "agent_ok bs st' (to_do ag)" by (rule l, rule ag)
qed

lemma agent_can_go:
  assumes ok: "both_at Q n as ds st cl ag" and a: "agent_ok as st (to_do ag)"
    and w: "delivering (to_do ag) \<or> in_turn (to_do ag) = 1 \<and> \<not> user_lock (ustore st)"
  shows "in_turn (to_do ag) = 1 \<and> (\<exists>st' ag'. thread_step ag st = Some (ret (st', ag')))"
proof -
  have "in_turn (to_do ag) = 1"
    using a w agent_walk_delivering by (auto simp: agent_ok_def)
  moreover have "\<not> agent_waits (hd (to_do ag)) st"
    using a w by (auto simp: agent_ok_def agent_waits_def agent_walk_def)
  ultimately show ?thesis using agent_thread_step [OF ok] by blast
qed

lemma client_thread_step:
  assumes ok: "both_at Q n as ds st cl ag" and code: "to_do cl = i # is"
  shows "thread_step cl st = None \<and> in_turn (to_do ag) = 1 \<and> (\<exists>st' ag'. thread_step ag st = Some (ret (st', ag')))
    \<or> (\<exists>st' cl' m bs. thread_step cl st = Some (ret (st', cl')) \<and> both_at Q m bs ds st' cl' ag \<and> m < n)"
proof -
  obtain sh where b: "client_leads Q n cl st sh" "same_view st sh"
    "dll_ok (users (ustore st)) as" "locks_agree st sh (delivering (to_do ag))"
    "broadcast_sem st + in_turn (to_do ag) = broadcast_sem sh" "queue_sendable st"
    "outbox st \<in> shuffles (outbox sh) ds" "agent_ok as st (to_do ag)"
    using ok unfolding both_at_def by blast
  let ?th = "\<lambda>code. cl\<lparr>to_do := code\<rparr>"
  note moves = client_moves [OF _ _ b(2,4-7)]
  have goes: "?thesis" if "thread_step cl st = Some (ret (st', cl'))" "both_at Q m bs ds st' cl' ag" "m < n" for st' cl' m bs
    using that by blast
  consider (send) k q refused where "n = Suc (2 * k)" "i = I_Mq_send q refused" "sendable (qmsg q)"
      "length (broadcast_queue st) < mq_maxmsg st" "leads_in Q k (current cl) (coming cl) is sh"
      "leads_in Q k (current cl) (coming cl) (refused @ is) sh"
    | (leads) k where "n = 2 * k" "leads_in Q k (current cl) (coming cl) (i # is) sh"
    using b(1) code by (auto simp: client_leads_def)
  then show ?thesis
  proof cases
    case send
    let ?s = "st\<lparr>broadcast_queue := broadcast_queue st @ [q]\<rparr>"
    note step = thread_step_plain [OF code, of st]
    have refused: "both_at Q (2 * k) as ds st (?th (refused @ is)) ag"
      by (rule moves [OF _ framed_refl [OF b(2)] b(3,8)]) (use send(6) in \<open>simp add: client_leads_def\<close>)
    have "both_at Q (2 * k) as ds ?s (?th is) ag" unfolding both_at_def
    proof (intro exI conjI)
      show "client_leads Q (2 * k) (?th is) ?s sh" using send(5) by (simp add: client_leads_def)
      show "same_view ?s sh" using b(2) by (simp add: same_view_def)
      show "agent_ok as ?s (to_do ag)" by (rule agent_ok_same [OF b(8)]) simp
      show "queue_sendable ?s" using b(6) send(3) by simp
    qed (use b in \<open>simp_all add: locks_agree_def\<close>)
    then show ?thesis using step send(1,2,4) refused
      by (cases "mq_send_ok (current cl)") (auto simp: proceed_def intro!: goes)
  next
    case leads
    from leads(2) consider (step) m sh' js where "k = Suc m" "exec (current cl) i sh = Some (ret (sh', js))" "step_fine True i sh sh'"
        "leads_in Q m (current cl) (coming cl) (js @ is) sh'"
      | (check) m R' sh' js Rs where "k = Suc m" "coming cl = R' # Rs" "i = I_Check" "exec R' I_Check sh = Some (ret (sh', js))"
        "leads_in Q m R' Rs (js @ is) sh'"
      | (offer) m refused where "k = Suc m" "i = I_Queue refused" "sendable (msg sh)" "leads_in Q m (current cl) (coming cl) is sh"
        "leads_in Q m (current cl) (coming cl) (refused @ is) sh"
      by (rule leads_in_instrE) (use that in auto)
    then show ?thesis
    proof cases
      case step
      note fine = step(3) [unfolded step_fine_def]
      have ni: "i \<noteq> I_Check" "clients i" "\<not> queueing i" using fine by simp_all
      note st = thread_step_plain [OF code ni(1), of st]
      have "steps_along (current cl) i st sh sh' js" by (rule client_frame [OF step(2) b(2) ni(2,3)]) (use fine in simp)
      then consider (waits) "exec (current cl) i st = None" "user_lock (ustore st) \<and> \<not> user_lock (ustore sh)
          \<or> i = I_Sem_wait \<and> broadcast_sem st < broadcast_sem sh"
        | (goes) st' where "exec (current cl) i st = Some (ret (st', js))" "framed st sh st' sh'"
        unfolding steps_along_def by meson
      then show ?thesis
      proof cases
        case waits
        have "delivering (to_do ag) \<or> in_turn (to_do ag) = 1 \<and> \<not> user_lock (ustore st)"
          using waits(2) fine b(4,5) by (auto simp: locks_agree_def in_turn_def split: if_splits)
        from agent_can_go [OF ok b(8) this] show ?thesis using waits(1) st by (simp add: proceed_def del: exec.simps)
      next
        case goes
        have buf: "agent_buffer st' = agent_buffer st" and us: "users (ustore st') = users (ustore sh')"
          using goes(2) by (simp_all add: framed_def same_view_def)
        have "\<exists>bs. dll_ok (users (ustore st')) bs \<and> agent_ok bs st' (to_do ag)"
        proof (cases "restructures i")
          case True
          then obtain bs where bs: "dll_ok (users (ustore st')) bs"
            using fine us by (auto simp: list_ok_def)
          have "\<not> user_lock (ustore st)"
            using goes(1) True by (cases i) (auto simp: restructures_def if_free_def split: if_splits)
          then have "\<not> delivering (to_do ag)" using b(4) by (simp add: locks_agree_def)
          from agent_ok_idle [OF b(8) this buf] bs show ?thesis by blast
        next
          case False
          from exec_list [OF goes(1) ni(2) False b(3)] agent_ok_same [OF b(8) buf] show ?thesis by blast
        qed
        then obtain bs where bs: "dll_ok (users (ustore st')) bs" "agent_ok bs st' (to_do ag)" by blast
        have "both_at Q (2 * m) bs ds st' (?th (js @ is)) ag"
          by (rule moves [OF _ goes(2) bs]) (use step(4) in \<open>simp add: client_leads_def\<close>)
        moreover have "thread_step cl st = Some (ret (st', ?th (js @ is)))"
          using st goes(1) by (simp add: proceed_def del: exec.simps)
        ultimately show ?thesis using leads(1) step(1) by fastforce
      qed
    next
      case check
      have "steps_along R' I_Check st sh sh' js" by (rule frame_messages [OF check(4) b(2)]) simp
      then obtain st' where x: "exec R' I_Check st = Some (ret (st', js))" "framed st sh st' sh'"
        by (auto simp: steps_along_def)
      let ?cl = "cl\<lparr>current := R', coming := Rs, to_do := js @ is\<rparr>"
      have buf: "agent_buffer st' = agent_buffer st" using x(2) by (simp add: framed_def)
      have l: "dll_ok (users (ustore st')) as"
        by (rule exec_list [OF x(1) _ _ b(3)]) (simp_all add: clients_def restructures_def)
      have "both_at Q (2 * m) as ds st' ?cl ag"
        by (rule moves [OF _ x(2) l agent_ok_same [OF b(8) buf]]) (use check(5) in \<open>simp add: client_leads_def\<close>)
      moreover have "thread_step cl st = Some (ret (st', ?cl))"
        using x(1) code check(2,3) by (simp add: thread_step_def proceed_def del: exec.simps)
      ultimately show ?thesis using leads(1) check(1) by fastforce
    next
      case offer
      note step = thread_step_plain [OF code, of st]
      have m: "msg st = msg sh" by (rule view_eqs(4) [OF b(2)])
      have r: "both_at Q (2 * m) as ds st (?th (refused @ is)) ag"
        by (rule moves [OF _ framed_refl [OF b(2)] b(3,8)]) (use offer(5) in \<open>simp add: client_leads_def\<close>)
      have t: "both_at Q (Suc (2 * m)) as ds st (?th (I_Mq_send \<lparr>sender = None, qmsg = msg st\<rparr> refused # is)) ag"
        if "length (broadcast_queue st) < mq_maxmsg st"
        by (rule moves [OF _ framed_refl [OF b(2)] b(3,8)]) (use offer(3-5) that m in \<open>simp add: client_leads_def\<close>)
      show ?thesis using step offer(1,2) leads(1) r t
        by (cases "length (broadcast_queue st) < mq_maxmsg st") (auto simp: proceed_def intro!: goes)
    qed
  qed
qed

definition both_ok :: "(server_state \<Rightarrow> bool) \<Rightarrow> (u16 \<times> byte list) list \<Rightarrow> server_state \<Rightarrow> thread_state \<Rightarrow> thread_state \<Rightarrow> bool" where
  "both_ok Q ds st cl ag \<longleftrightarrow> (\<exists>n as. both_at Q n as ds st cl ag)"

text \<open>What the steps of one thread in a run send.\<close>

fun sent_by :: "nat \<Rightarrow> nat list \<Rightarrow> system \<Rightarrow> (u16 \<times> byte list) list" where
  "sent_by j [] S = []"
| "sent_by j (k # ks) S =
     (case system_step k S of
        Some (Some (Inr S')) \<Rightarrow>
          (if k = j then drop (length (outbox (fst S))) (outbox (fst S')) else []) @ sent_by j ks S'
      | _ \<Rightarrow> sent_by j ks S)"

lemma both_ok_steps:
  assumes "both_ok Q ds st cl ag"
  shows "thread_step ag st = None \<or> (\<exists>st' ag'. thread_step ag st = Some (ret (st', ag'))
      \<and> both_ok Q (ds @ drop (length (outbox st)) (outbox st')) st' cl ag')"
    and "thread_step cl st = None \<or> (\<exists>st' cl'. thread_step cl st = Some (ret (st', cl')) \<and> both_ok Q ds st' cl' ag)"
proof -
  obtain n as where b: "both_at Q n as ds st cl ag" using assms by (auto simp: both_ok_def)
  show "thread_step ag st = None \<or> (\<exists>st' ag'. thread_step ag st = Some (ret (st', ag'))
      \<and> both_ok Q (ds @ drop (length (outbox st)) (outbox st')) st' cl ag')"
    using agent_thread_step [OF b] unfolding both_ok_def by blast
  show "thread_step cl st = None \<or> (\<exists>st' cl'. thread_step cl st = Some (ret (st', cl')) \<and> both_ok Q ds st' cl' ag)"
  proof (cases "to_do cl")
    case Nil
    then show ?thesis by (simp add: thread_step_def)
  next
    case (Cons i "is")
    from client_thread_step [OF b this] show ?thesis unfolding both_ok_def by blast
  qed
qed

lemma both_ok_run:
  "both_ok Q ds st cl ag \<Longrightarrow> \<exists>st' cl' ag'. run_schedule ks (st, [cl, ag]) = ret (st', [cl', ag'])
     \<and> both_ok Q (ds @ sent_by 1 ks (st, [cl, ag])) st' cl' ag'"
proof (induction ks arbitrary: ds st cl ag)
  case (Cons k ks)
  note steps = both_ok_steps [OF Cons.prems]
  consider "k = 0" | "k = 1" | "k \<ge> 2" by linarith
  then show ?case
  proof cases
    case 1
    show ?thesis
    proof (cases "thread_step cl st = None")
      case True
      then show ?thesis using 1 Cons.IH [OF Cons.prems] by (simp add: system_step_def)
    next
      case False
      then obtain st' cl' where s: "thread_step cl st = Some (ret (st', cl'))" "both_ok Q ds st' cl' ag" using steps(2) by auto
      from Cons.IH [OF s(2)] show ?thesis using 1 s(1) by (simp add: system_step_def)
    qed
  next
    case 2
    show ?thesis
    proof (cases "thread_step ag st = None")
      case True
      then show ?thesis using 2 Cons.IH [OF Cons.prems] by (simp add: system_step_def)
    next
      case False
      then obtain st' ag' where s: "thread_step ag st = Some (ret (st', ag'))"
        "both_ok Q (ds @ drop (length (outbox st)) (outbox st')) st' cl ag'" using steps(1) by auto
      from Cons.IH [OF s(2)] show ?thesis using 2 s(1) by (simp add: system_step_def)
    qed
  next
    case 3
    then show ?thesis using Cons.IH [OF Cons.prems] by (simp add: system_step_def)
  qed
qed auto

lemma run_append: "run_schedule (ks @ js) S = bindR (run_schedule ks S) (run_schedule js)"
proof (induction ks arbitrary: S)
  case (Cons k ks)
  have "run_schedule (ks @ js) = (\<lambda>S. bindR (run_schedule ks S) (run_schedule js))" by (rule ext) (rule Cons.IH)
  then show ?case by (simp add: bindR_assoc split: option.split)
qed simp

lemma both_ok_goes:
  assumes "both_ok Q ds st cl ag" and "to_do cl \<noteq> []"
  shows "system_step 0 (st, [cl, ag]) \<noteq> None \<or> system_step 1 (st, [cl, ag]) \<noteq> None"
proof -
  obtain n as where b: "both_at Q n as ds st cl ag" using assms(1) by (auto simp: both_ok_def)
  show ?thesis using client_thread_step [OF b] assms(2) by (cases "to_do cl") (auto simp: system_step_def)
qed

section \<open>Fair schedules\<close>

text \<open>
  A schedule without end that offers steps to both threads again and again. Every step that is taken
  shortens the client's code, or takes a message from the queue, or brings the agent nearer to its next
  one; and one of the two can always step. What has to wait is passed over.
\<close>

definition fair :: "(nat \<Rightarrow> nat) \<Rightarrow> bool" where
  "fair f \<longleftrightarrow> (\<forall>k < 2. \<forall>i. \<exists>j \<ge> i. f j = k)"

lemma fair_later: "fair f \<Longrightarrow> fair (\<lambda>i. f (i + m))"
  unfolding fair_def
proof (intro allI impI)
  fix k i assume "\<forall>k < 2. \<forall>i. \<exists>j \<ge> i. f j = k" "k < (2::nat)"
  then obtain j where "j \<ge> i + m" "f j = k" by blast
  then show "\<exists>j \<ge> i. f (j + m) = k" by (intro exI [of _ "j - m"]) auto
qed

lemma run_idle: "\<forall>k \<in> set ks. system_step k S = None \<Longrightarrow> run_schedule ks S = ret S"
  by (induction ks) simp_all

definition left_to_do :: "nat \<Rightarrow> nat list \<Rightarrow> server_state \<Rightarrow> thread_state \<Rightarrow> nat \<times> nat \<times> nat" where
  "left_to_do n as st ag = (n, length (broadcast_queue st), turn_left as (to_do ag))"

abbreviation nearer :: "((nat \<times> nat \<times> nat) \<times> nat \<times> nat \<times> nat) set" where
  "nearer \<equiv> less_than <*lex*> less_than <*lex*> less_than"

lemma wf_nearer: "wf nearer"
  by (intro wf_lex_prod wf_less_than)

lemma both_step:
  assumes b: "both_at Q n as ds st cl ag" and s: "system_step k (st, [cl, ag]) = Some r"
  shows "\<exists>n' as' ds' st' cl' ag'. r = ret (st', [cl', ag']) \<and> both_at Q n' as' ds' st' cl' ag'
    \<and> (left_to_do n' as' st' ag', left_to_do n as st ag) \<in> nearer"
proof -
  consider "k = 0" | "k = 1" using s by (fastforce simp: system_step_def split: if_splits)
  then show ?thesis
  proof cases
    case 1
    then have "thread_step cl st \<noteq> None" using s by (auto simp: system_step_def)
    then obtain i "is" where "to_do cl = i # is" by (cases "to_do cl") (auto simp: thread_step_def)
    from client_thread_step [OF b this] \<open>thread_step cl st \<noteq> None\<close> obtain st' cl' m bs where
      "thread_step cl st = Some (ret (st', cl'))" "both_at Q m bs ds st' cl' ag" "m < n" by auto
    moreover from this have "r = ret (st', [cl', ag])" "(left_to_do m bs st' ag, left_to_do n as st ag) \<in> nearer"
      using s 1 by (simp_all add: system_step_def left_to_do_def)
    ultimately show ?thesis by blast
  next
    case 2
    then have "thread_step ag st \<noteq> None" using s by (auto simp: system_step_def)
    with agent_thread_step [OF b] obtain st' ag' where
      "thread_step ag st = Some (ret (st', ag'))" "both_at Q n as (ds @ drop (length (outbox st)) (outbox st')) st' cl ag'" "agent_nearer as st (to_do ag) st' (to_do ag')" by auto
    moreover from this have "r = ret (st', [cl, ag'])" "(left_to_do n as st' ag', left_to_do n as st ag) \<in> nearer"
      using s 2 by (auto simp: system_step_def left_to_do_def agent_nearer_def)
    ultimately show ?thesis by blast
  qed
qed

lemma fair_step:
  assumes b: "both_at Q n as ds st cl ag" and f: "fair f" and c: "to_do cl \<noteq> []"
  shows "\<exists>m n' as' ds' st' cl' ag'. run_schedule (map f [0..<m]) (st, [cl, ag]) = ret (st', [cl', ag'])
    \<and> both_at Q n' as' ds' st' cl' ag' \<and> (left_to_do n' as' st' ag', left_to_do n as st ag) \<in> nearer"
proof -
  let ?S = "(st, [cl, ag])" and ?goes = "\<lambda>i. system_step (f i) (st, [cl, ag]) \<noteq> None"
  have "both_ok Q ds st cl ag" using b unfolding both_ok_def by blast
  from both_ok_goes [OF this c] have "\<exists>k < 2. system_step k ?S \<noteq> None"
  proof (elim disjE)
    assume "system_step 0 ?S \<noteq> None"
    then show ?thesis by (intro exI [of _ 0] conjI) simp_all
  next
    assume "system_step 1 ?S \<noteq> None"
    then show ?thesis by (intro exI [of _ 1] conjI) simp_all
  qed
  then obtain k where k: "k < 2" "system_step k ?S \<noteq> None" by blast
  then obtain j where "f j = k" using f unfolding fair_def by blast
  then have "?goes j" using k(2) by simp
  define i where "i = (LEAST i. ?goes i)"
  have i: "?goes i" unfolding i_def by (rule LeastI) (rule \<open>?goes j\<close>)
  have "system_step (f j) ?S = None" if "j < i" for j
    using not_less_Least [of j ?goes] that unfolding i_def by blast
  then have "\<forall>k \<in> set (map f [0..<i]). system_step k ?S = None" by simp
  then have idle: "run_schedule (map f [0..<i]) ?S = ret ?S" by (rule run_idle)
  obtain r where r: "system_step (f i) ?S = Some r" using i by auto
  from both_step [OF b this] obtain n' as' ds' st' cl' ag' where n: "r = ret (st', [cl', ag'])" "both_at Q n' as' ds' st' cl' ag'"
    "(left_to_do n' as' st' ag', left_to_do n as st ag) \<in> nearer" by blast
  have "run_schedule (map f [0..<Suc i]) ?S = ret (st', [cl', ag'])"
    using idle r n(1) by (simp add: run_append)
  with n(2,3) show ?thesis by blast
qed

lemma fair_run:
  "both_at Q n as ds st cl ag \<Longrightarrow> fair f \<Longrightarrow>
    \<exists>m st' cl' ag'. run_schedule (map f [0..<m]) (st, [cl, ag]) = ret (st', [cl', ag']) \<and> to_do cl' = []"
proof (induction "left_to_do n as st ag" arbitrary: n as ds st cl ag f rule: wf_induct_rule [OF wf_nearer])
  case 1
  show ?case
  proof (cases "to_do cl")
    case Nil
    then show ?thesis by (intro exI [of _ 0]) simp
  next
    case (Cons i "is")
    then have "to_do cl \<noteq> []" by simp
    from fair_step [OF 1(2,3) this] obtain m n' as' ds' st' cl' ag' where s: "run_schedule (map f [0..<m]) (st, [cl, ag]) = ret (st', [cl', ag'])"
      and n: "both_at Q n' as' ds' st' cl' ag'" "(left_to_do n' as' st' ag', left_to_do n as st ag) \<in> nearer" by blast
    from 1(1) [OF n(2,1) fair_later [OF 1(3)], of m] obtain k s' c' g' where
      k: "run_schedule (map (\<lambda>i. f (i + m)) [0..<k]) (st', [cl', ag']) = ret (s', [c', g'])" "to_do c' = []" by blast
    have "map f [0..<m + k] = map f [0..<m] @ map (\<lambda>i. f (i + m)) [0..<k]"
      by (rule nth_equalityI) (auto simp: nth_append add.commute)
    then have "run_schedule (map f [0..<m + k]) (st, [cl, ag]) = ret (s', [c', g'])" using s k(1) by (simp add: run_append)
    then show ?thesis using k(2) by blast
  qed
qed

lemma taking_turns: "fair (\<lambda>i. i mod 2)"
  unfolding fair_def
proof (intro allI impI)
  fix k i :: nat assume "k < 2"
  then show "\<exists>j \<ge> i. j mod 2 = k" by (intro exI [of _ "2 * i + k"]) auto
qed

lemma client_finishes:
  "both_ok Q ds st cl ag \<Longrightarrow> \<exists>ks st' cl' ag'. run_schedule ks (st, [cl, ag]) = ret (st', [cl', ag']) \<and> to_do cl' = []"
  using fair_run [OF _ taking_turns] unfolding both_ok_def by blast

section \<open>A started client and the agent\<close>

text \<open>
  The state in which the two start: a well-formed server whose queue holds messages that can be sent,
  a socket no user has, memory for the user, and protocol messages up to the end of the connection.
\<close>

definition can_start :: "server_state \<Rightarrow> nat list \<Rightarrow> nat \<Rightarrow> u16 \<Rightarrow> nat \<Rightarrow> round_input list \<Rightarrow> round_input \<Rightarrow> bool" where
  "can_start st as t sk a Rs G \<longleftrightarrow> server_ok st as \<and> queue_sendable st \<and> 0 < mq_maxmsg st
     \<and> sk \<notin> sock ` user_at (ustore st) ` set as \<and> heap (users (ustore st)) a = None
     \<and> (\<forall>R \<in> set Rs. honest R) \<and> gone G
     \<and> always_fresh Rs (the_ret (client_begin t sk (Some a) (st\<lparr>broadcast_queue := []\<rparr>)))"

lemma started_both_ok:
  assumes st: "can_start st as t sk a Rs G"
  shows "both_ok (\<lambda>s. \<exists>bs. length bs = length (Rs @ [G]) \<and>
      bindR (client_begin t sk (Some a) (st\<lparr>broadcast_queue := []\<rparr>)) (atomic_rounds bs (Rs @ [G])) = ret s)
    [] st (client_thread t sk (Some a) (Rs @ [G])) (agent_thread RA)"
proof -
  let ?sh = "st\<lparr>broadcast_queue := []\<rparr>"
  have ok: "server_ok ?sh as" using st by (simp add: can_start_def server_ok_def)
  have f: "sk \<notin> sock ` user_at (ustore ?sh) ` set as" "heap (users (ustore ?sh)) a = None"
    using st by (simp_all add: can_start_def)
  obtain s1 where s1: "client_begin t sk (Some a) ?sh = ret s1" "client_ok s1 (as @ [a]) a"
    using client_begin_effect [OF ok f, of t] by blast
  have q1: "broadcast_queue s1 = []" "mq_maxmsg s1 = mq_maxmsg st"
    using s1(1) by (auto simp: client_begin_def bindR_ret_iff)
  have fresh: "always_fresh Rs s1" using st s1(1) by (simp add: can_start_def the_ret_def)
  let ?Q = "\<lambda>s. \<exists>bs. length bs = length (Rs @ [G]) \<and> bindR (client_begin t sk (Some a) ?sh) (atomic_rounds bs (Rs @ [G])) = ret s"
  have "leads True ?Q (hd (Rs @ [G])) (Rs @ [G]) [I_Top] s1"
    by (rule honest_thread_leads [OF s1(2) _ fresh])
       (use st s1(1) q1 in \<open>auto simp: can_start_def\<close>)
  then have "leads True ?Q (hd (Rs @ [G])) (Rs @ [G]) [I_Find_socket t sk (Some a)] ?sh"
    by (rule begin_leads [OF s1(1)]) (use s1(2) client_ok_list in \<open>auto simp: client_ok_def\<close>)
  from leads_leads_in [OF this] obtain n where l: "leads_in ?Q n (hd (Rs @ [G])) (Rs @ [G]) [I_Find_socket t sk (Some a)] ?sh" ..
  have at: "dll_ok (users (ustore st)) as" "\<not> user_lock (ustore st)"
    using st by (auto simp: can_start_def server_ok_def users_inv_at_def users_at_def)
  have "both_at ?Q (2 * n) as [] st (client_thread t sk (Some a) (Rs @ [G])) (agent_thread RA)"
    unfolding both_at_def
    by (intro exI [of _ ?sh])
       (use l st at in \<open>simp add: client_leads_def client_thread_def agent_thread_def same_view_def locks_agree_def
          agent_ok_def can_start_def\<close>)
  then show ?thesis unfolding both_ok_def by blast
qed


lemma example_can_start:
  "can_start (example_server 0) [0, 1, 2] 9 7 3 example_talk ((example_round 0 [])\<lparr>header_io := IO_Error\<rparr>)"
proof -
  have "client_ok (example_server 0) [0, 1, 2] 0" using example_server_ok [of 0] by simp
  then have "server_ok (example_server 0) [0, 1, 2]" by (simp add: server_ok_def client_ok_def)
  moreover have "7 \<notin> sock ` user_at example_room ` set [0, 1, 2]" "heap (users example_room) 3 = None"
    by code_simp+
  moreover have "0 < mq_maxmsg (example_server 0)" by (simp add: example_server_def)
  ultimately show ?thesis
    using example_talk_honest always_fresh_without by (simp add: can_start_def gone_def)
qed




text \<open>From wherever any schedule has led there is a way on to the return of the client's thread.\<close>

theorem thread_can_always_return:
  assumes "can_start st as t sk a Rs G"
    and "run_schedule ks (st, [client_thread t sk (Some a) (Rs @ [G]), agent_thread RA]) = ret (st', ths)"
  shows "\<exists>js s cl ag. run_schedule js (st', ths) = ret (s, [cl, ag]) \<and> to_do cl = []"
proof -
  from both_ok_run [OF started_both_ok [OF assms(1)], of ks RA] obtain Q ds cl ag where
    "both_ok Q ds st' cl ag" "ths = [cl, ag]" using assms(2) by auto
  then show ?thesis using client_finishes by blast
qed

theorem thread_can_always_return_witness:
  "\<exists>js s cl ag. run_schedule js (example_server 0, [client_thread 9 7 (Some 3)
      (example_talk @ [(example_round 0 [])\<lparr>header_io := IO_Error\<rparr>]), agent_thread (example_round 0 [])]) = ret (s, [cl, ag])
    \<and> to_do cl = []"
  using thread_can_always_return [OF example_can_start, of "[]"] by simp

lemma thread_rounds:
  assumes "can_start st as t sk a Rs G"
    and "run_schedule ks (st, [client_thread t sk (Some a) (Rs @ [G]), agent_thread RA]) = ret (st', [cl, ag])"
    and "to_do cl = []"
  shows "\<exists>bs s. length bs = length (Rs @ [G])
    \<and> bindR (client_begin t sk (Some a) (st\<lparr>broadcast_queue := []\<rparr>)) (atomic_rounds bs (Rs @ [G])) = ret s
    \<and> same_view st' s \<and> outbox st' \<in> shuffles (outbox s)
        (sent_by 1 ks (st, [client_thread t sk (Some a) (Rs @ [G]), agent_thread RA]))"
proof -
  have "both_ok (\<lambda>s. \<exists>bs. length bs = length (Rs @ [G]) \<and>
      bindR (client_begin t sk (Some a) (st\<lparr>broadcast_queue := []\<rparr>)) (atomic_rounds bs (Rs @ [G])) = ret s)
      (sent_by 1 ks (st, [client_thread t sk (Some a) (Rs @ [G]), agent_thread RA])) st' cl ag"
    using both_ok_run [OF started_both_ok [OF assms(1)], of ks RA] assms(2) by auto
  then show ?thesis using assms(3) by (auto simp: both_ok_def both_at_def client_leads_def leads_in_nil)
qed



end
