(* ===== verification/Threads_Chat.thy ===== *)
theory Threads_Chat
  imports Threads_Interleaving Chat_Refinement
begin

text \<open>
  From the interleaved instructions of a client's thread and the agent up to the chat of \<^verbatim>\<open>Chat_Spec\<close>:
  whatever the schedule, the thread has done to the members what the chat does at a connection, the
  requests of the client and its leaving.
\<close>

section \<open>A client's stay in the chat\<close>

text \<open>
  The requests of one client with the answers of the queue to them, and its leaving: the chat they lead
  to, with what is on its way left to the agent, and the bytes they put on the sockets.
\<close>

fun stay :: "(env \<times> bool \<times> request) list \<Rightarrow> env \<Rightarrow> chat \<Rightarrow> chat \<times> (u16 \<times> byte list) list" where
  "stay [] G c = (fst (do_leave (stamp_value G True) c), on_sockets G (snd (do_leave (stamp_value G True) c)))"
| "stay ((E, ok, q) # qs) G c =
     (let (c', out) = do_request ok (stamp_value E True) q c;
          (c'', bs) = stay qs G (c'\<lparr>pending := pending c\<rparr>)
      in (c'', on_sockets E out @ bs))"

fun with_answers :: "round_input list \<Rightarrow> bool list \<Rightarrow> request list \<Rightarrow> (env \<times> bool \<times> request) list" where
  "with_answers (R # Rs) (b # bs) (q # qs) = (net_env R, b, q) # with_answers Rs bs qs"
| "with_answers _ _ _ = []"

lemma request_keeps_me: "me (fst (do_request ok t q c)) = me c"
  by (cases q)
    (auto simp: do_say_def do_login_def do_order_def do_kick_def do_pause_def do_resume_def do_help_def offer_def
      set_own_def Let_def split: option.splits sum.splits prod.splits admin_command_code.splits)

lemma asks_whatever: "asks (answered b R) q \<longleftrightarrow> asks R q"
  by (cases q) (simp_all add: brings_def)

lemma memory_whatever: "memory_ok (answered b R) st \<longleftrightarrow> memory_ok R st"
  by (simp add: memory_ok_def)

lemma sim_without_queue: "sim st as c \<Longrightarrow> sim (st\<lparr>broadcast_queue := []\<rparr>) as (c\<lparr>pending := []\<rparr>)"
  by (simp add: sim_def server_ok_def server_string_def admin_string_def)

lemma rounds_are_a_stay:
  assumes "sim st as c" and "me c = Some i" and "pending c = []" and "\<forall>R \<in> set Rs. honest R" and "always_fresh Rs st"
    and "gone G" and "length bs = length Rs" and "atomic_rounds (bs @ [b]) (Rs @ [G]) st = ret s"
  shows "\<exists>qs as'. list_all2 asks Rs qs \<and> sim s as' (fst (stay (with_answers Rs bs qs) (net_env G) c))
    \<and> outbox s = outbox st @ snd (stay (with_answers Rs bs qs) (net_env G) c)"
  using assms
proof (induction Rs arbitrary: bs st c)
  case Nil
  let ?G = "answered b G"
  have g: "gone ?G" using Nil.prems(6) by (simp add: gone_def)
  from refine_quits [OF Nil.prems(1,2) g, of "net_env G"] obtain st' where
    r: "server_run [Round ?G, Leave (net_env G)] st = Some (ret st')" and
    st': "sim st' (take i as @ drop (Suc i) as) (fst (do_leave (stamp_value (net_env G) True) c))"
    "outbox st' = outbox st @ on_sockets (net_env G) (snd (do_leave (stamp_value (net_env G) True) c))" by blast
  have cr: "client_round ?G st = ret (False, st\<lparr>msg := msg_zero, connection_status := left_status ?G\<rparr>)"
    by (rule client_round_gone [OF sim_client_ok(1) [OF Nil.prems(1,2)] g])
  then have "client_end (net_env G) (st\<lparr>msg := msg_zero, connection_status := left_status ?G\<rparr>) = ret st'"
    using r by (simp split: option.splits sum.splits)
  then have "s = st'" using Nil.prems(7,8) cr by simp
  then show ?case using st' by auto
next
  case (Cons R Rs)
  obtain d bs' where bs: "bs = d # bs'" using Cons.prems(7) by (cases bs) auto
  obtain q where q: "asks R q" using honest_asks Cons.prems(4) by fastforce
  let ?r = "do_request d (stamp_value (net_env R) True) q c"
  have "memory_ok (answered d R) st" using Cons.prems(5) by (simp add: memory_whatever)
  from refine_request [OF Cons.prems(1,2) asks_whatever [THEN iffD2, OF q] this] obtain s1 where
    s1: "client_round (answered d R) st = ret (True, s1)" "sim s1 as (fst ?r)"
    "outbox s1 = outbox st @ on_sockets (net_env R) (snd ?r)" by (auto simp: refined_def)
  let ?s1 = "s1\<lparr>broadcast_queue := []\<rparr>" and ?c1 = "(fst ?r)\<lparr>pending := []\<rparr>"
  have e: "broadcast_queue st = []" using Cons.prems(1,3) by (simp add: sim_def)
  have fresh: "always_fresh Rs ?s1" using Cons.prems(5) s1(1) e by (auto simp: the_ret_def dest: spec [of _ d])
  have "atomic_rounds (bs' @ [b]) (Rs @ [G]) ?s1 = ret s" using Cons.prems(8) s1(1) e bs by simp
  then obtain qs as' where qs: "list_all2 asks Rs qs" "sim s as' (fst (stay (with_answers Rs bs' qs) (net_env G) ?c1))"
    "outbox s = outbox ?s1 @ snd (stay (with_answers Rs bs' qs) (net_env G) ?c1)"
    using Cons.IH [OF sim_without_queue [OF s1(2)] _ _ _ fresh Cons.prems(6), of bs'] Cons.prems(2,4,7) request_keeps_me bs
    by auto
  have "stay (with_answers (R # Rs) bs (q # qs)) (net_env G) c =
      (fst (stay (with_answers Rs bs' qs) (net_env G) ?c1),
       on_sockets (net_env R) (snd ?r) @ snd (stay (with_answers Rs bs' qs) (net_env G) ?c1))"
    using Cons.prems(3) bs by (simp add: split_def Let_def)
  then show ?case using qs q s1(3) by (intro exI [of _ "q # qs"] exI [of _ as']) simp
qed

section \<open>Whatever the schedule\<close>


definition example_chat :: chat where
  "example_chat = \<lparr>members = map (\<lambda>b. member_of (user_at example_room b)) [0, 1, 2], me = None, pending = [], room = 10,
     paused = False, closed = [], srv = server_string (example_server 0), adm = admin_string (example_server 0)\<rparr>"

lemma example_sim: "sim (example_server 0) [0, 1, 2] example_chat"
proof -
  have "\<forall>b \<in> set [0, 1, 2]. tidy_user (user_at example_room b)" by code_simp
  moreover have "server_ok (example_server 0) [0, 1, 2]" using example_can_start by (simp add: can_start_def)
  ultimately show ?thesis by (simp add: sim_def example_chat_def example_server_def server_string_def admin_string_def)
qed


end
