(* ===== verification/Threads_Races.thy ===== *)
theory Threads_Races
  imports Threads_Interleaving
begin

text \<open>
  Several threads of clients at once. The variables of \<^verbatim>\<open>clientthread.c\<close> are shared by all of them, and the
  pause is a semaphore and a flag that are not changed together: schedules of two threads after which
  a text is lost, a login writes behind the name, a user is freed twice, or the chat stands still for
  ever.
\<close>

section \<open>Threads for the examples\<close>

definition example_thread :: "instr list \<Rightarrow> thread_state" where
  "example_thread code = \<lparr>to_do = code, current = example_round 2 [72, 105], coming = []\<rparr>"

lemma example_thread_fields [simp]:
  "to_do (example_thread code) = code" "current (example_thread code) = example_round 2 [72, 105]"
  by (simp_all add: example_thread_def)

lemma example_room_reads: "user_sock (Some 0) example_room = ret 4"
  by code_simp

section \<open>A text is lost\<close>

text \<open>C28: Two clients lose a text: when another client's thread starts its next round between the building
  of a text and its queueing, the thread with the text queues a message of zeros instead of what its
  client wrote; alone it queues the text.\<close>

theorem another_round_loses_a_text:
  assumes "to_do A = I_Queue queue_full # is" and "mq_send_ok (current A)" and "to_do B = I_Top # js"
    and "self_sock st = ret sk" and "length (broadcast_queue st) < mq_maxmsg st"
  shows "(\<exists>S. run_schedule [1, 0, 0] (st, [A, B]) = ret S
      \<and> broadcast_queue (fst S) = broadcast_queue st @ [\<lparr>sender = None, qmsg = msg_zero\<rparr>])
    \<and> (\<exists>S. run_schedule [0, 0] (st, [A, B]) = ret S
      \<and> broadcast_queue (fst S) = broadcast_queue st @ [\<lparr>sender = None, qmsg = msg st\<rparr>])"
proof -
  let ?cl = "clear_msg st" and ?send = "\<lambda>m. A\<lparr>to_do := I_Mq_send \<lparr>sender = None, qmsg = m\<rparr> queue_full # is\<rparr>"
  have "self_sock ?cl = ret sk" using assms(4) by (simp add: self_sock_def clear_msg_def)
  then have b: "thread_step B st = Some (ret (?cl, B\<lparr>to_do := I_Check # js\<rparr>))" using assms(3) by (simp add: step_defs)
  have a: "thread_step A s = Some (ret (s, ?send (msg s)))" if "s = st \<or> s = ?cl" for s
    using that assms(1,5) by (auto simp: step_defs clear_msg_def)
  have q: "thread_step (?send m) s = Some (ret (s\<lparr>broadcast_queue := broadcast_queue s @ [\<lparr>sender = None, qmsg = m\<rparr>]\<rparr>,
      A\<lparr>to_do := is\<rparr>))" if "s = st \<or> s = ?cl" for s m
    using that assms(2,5) by (auto simp: step_defs clear_msg_def)
  show ?thesis
    by (simp add: system_step_def a b q) (simp add: clear_msg_def)
qed

theorem another_round_loses_a_text_witness:
  "\<exists>S. run_schedule [1, 0, 0] ((example_server 0)\<lparr>msg := example_notice\<rparr>,
      [example_thread [I_Queue queue_full, I_Top], example_thread [I_Top]]) = ret S
    \<and> map qmsg (broadcast_queue (fst S)) = [msg_zero]"
proof -
  let ?st = "(example_server 0)\<lparr>msg := example_notice\<rparr>"
  have "self_sock ?st = ret 4" using example_room_reads by (simp add: self_sock_def example_server_def)
  from another_round_loses_a_text [OF _ _ _ this, of "example_thread [I_Queue queue_full, I_Top]" "[I_Top]"
      "example_thread [I_Top]" "[]"]
  show ?thesis by (auto simp: example_round_def example_server_def)
qed

section \<open>A login writes behind the name\<close>

text \<open>C27: A connection in the middle of a login corrupts memory: when the thread of a new connection sets up
  its variables after another thread has checked a name and before it stores it, the length is zero,
  the size computed from it 65531, and the copy writes behind the 32 bytes of the new client's name.\<close>

theorem connection_overruns_a_login:
  assumes "to_do A = I_Login nm # is" and "to_do B = [I_Begin (Some b)]"
    and "heap (users (ustore st)) b = Some n" and "length (name (item n)) = 32" and "\<not> user_lock (ustore st)"
  shows "run_schedule [1, 0] (st, [A, B]) = fail Out_Of_Bounds"
proof -
  have "unat (of_nat (name_size 0) :: u16) = 65531"
    by (simp add: name_size_def unsigned_of_nat take_bit_eq_mod)
  then have "c_strncpy (name (item n)) 0 nm (unat (of_nat (name_size 0) :: u16)) = fail Out_Of_Bounds"
    using assms(4) by (intro c_strncpy_fail) simp
  then show ?thesis
    using assms by (simp add: system_step_def step_defs if_free_def login_User_def)
qed

theorem connection_overruns_a_login_witness:
  "run_schedule [1, 0] (example_server 0, [example_thread [I_Login (replicate 31 0)], example_thread [I_Begin (Some 1)]])
    = fail Out_Of_Bounds"
proof -
  have "\<exists>n. heap (users example_room) 1 = Some n \<and> length (name (item n)) = 32"
    using example_room_inv dll_ok_Some [of "users example_room" "[0, 1, 2]" 1]
    by (force simp: users_inv_at_def users_at_def user_ok_def user_at_def item_at_def)
  moreover have "\<not> user_lock example_room" using example_room_inv by (simp add: users_inv_at_def users_at_def)
  ultimately show ?thesis
    using connection_overruns_a_login [of "example_thread [I_Login (replicate 31 0)]" _ "[]" "example_thread [I_Begin (Some 1)]" 1
        "example_server 0"] by (auto simp: example_server_def)
qed

section \<open>A user is freed twice\<close>

lemma unlink_found:
  assumes "users_at s as" and "p \<in> set as"
  shows "\<exists>s'. unlink_User p s = ret s' \<and> \<not> user_lock s' \<and> unlink_User p s' = fail Dangling"
proof -
  obtain xs ys where as: "as = xs @ p # ys" using assms(2) by (auto dest: split_list)
  have l: "dll_ok (users s) (xs @ p # ys)" and u: "\<not> user_lock s" using assms(1) as by (simp_all add: users_at_def)
  from dll_unlink_ok [OF l] obtain l' where l': "dll_unlink p (users s) = ret l'" "dll_ok l' (xs @ ys)" by blast
  have "p \<notin> set (xs @ ys)" using l by (auto simp: dll_ok_def)
  from dll_unlink_freed [OF l'(2) this] show ?thesis
    using l' u by (simp add: unlink_User_def)
qed

text \<open>C26: Clients that leave together free a user twice: the threads that leave at the same time look the
  same user up, the one of the client that connected last, because both take it from the shared
  variable; the first unlinks and frees it, and the second works on the freed one.\<close>

theorem leaving_together_frees_twice:
  assumes "to_do A = [I_Find_own]" and "to_do B = [I_Find_own]"
    and "users_at (ustore st) as" and "self st = Some p" and "p \<in> set as"
  shows "run_schedule [0, 1, 0, 1] (st, [A, B]) = fail Dangling"
proof -
  have u: "\<not> user_lock (ustore st)" using assms(3) by (simp add: users_at_def)
  obtain n where n: "heap (users (ustore st)) p = Some n"
    using assms(3,5) dll_ok_Some [of "users (ustore st)" as p] by (auto simp: users_at_def)
  let ?find = "List.find (\<lambda>a. sock (user_at (ustore st) a) = sock (item n)) as"
  have "?find \<noteq> None" using n assms(5) by (auto simp: find_None_iff user_at_def item_at_def)
  then obtain q where q: "?find = Some q" by blast
  then have qa: "q \<in> set as" by (auto simp: find_Some_iff)
  obtain s where s: "unlink_User q (ustore st) = ret s" "\<not> user_lock s" "unlink_User q s = fail Dangling"
    using unlink_found [OF assms(3) qa] by blast
  have "self_sock st = ret (sock (item n))" using n assms(4) by (simp add: self_sock_def user_sock_def read_user_def)
  moreover have "f_find_User (sock (item n)) (ustore st) = ret (Some q, ustore st)"
    using f_find_User_at [OF assms(3)] q by simp
  ultimately show ?thesis
    using assms(1,2) u s by (simp add: system_step_def step_defs if_free_def)
qed

theorem leaving_together_frees_twice_witness:
  "run_schedule [0, 1, 0, 1] (example_server 2, [example_thread [I_Find_own], example_thread [I_Find_own]]) = fail Dangling"
proof -
  have "users_at (ustore (example_server 2)) [0, 1, 2]" using example_room_inv by (simp add: users_inv_at_def example_server_def)
  moreover have "self (example_server 2) = Some 2" by (simp add: example_server_def)
  ultimately show ?thesis
    using leaving_together_frees_twice [of "example_thread [I_Find_own]" "example_thread [I_Find_own]"] by simp
qed

section \<open>The chat stands still\<close>

text \<open>
  What would let the agent go on, or a \<^verbatim>\<open>/resume\<close> be accepted, when the semaphore is at 0 and the flag is
  not set: a thread about to post, or to set the flag. What stands behind a wait for the semaphore is
  not reached.
\<close>

fun waits_for_turn :: "instr \<Rightarrow> bool" where
  "waits_for_turn I_Sem_wait = True"
| "waits_for_turn A_Wait = True"
| "waits_for_turn _ = False"

fun wakes :: "instr \<Rightarrow> bool" where
  "wakes I_Sem_post = True"
| "wakes I_Set_paused = True"
| "wakes A_Post = True"
| "wakes (I_Queue refused) = (refused \<noteq> [] \<and> refused \<noteq> queue_full)"
| "wakes (I_Mq_send q refused) = (refused \<noteq> [] \<and> refused \<noteq> queue_full)"
| "wakes _ = False"

definition asleep :: "instr list \<Rightarrow> bool" where
  "asleep code \<longleftrightarrow> \<not> list_ex wakes (takeWhile (\<lambda>i. \<not> waits_for_turn i) code)"

definition stands_still :: "system \<Rightarrow> bool" where
  "stands_still S \<longleftrightarrow> broadcast_sem (fst S) = 0 \<and> \<not> Is_broadcast_paused (fst S) \<and> (\<forall>th \<in> set (snd S). asleep (to_do th))"

lemma asleep_simps [simp]:
  "asleep []" "asleep (i # is) \<longleftrightarrow> waits_for_turn i \<or> \<not> wakes i \<and> asleep is"
  by (simp_all add: asleep_def)

lemma asleep_append: "asleep js \<Longrightarrow> asleep is \<Longrightarrow> asleep (js @ is)"
  by (induction js) auto

lemma asleep_help: "asleep (help_code ds)"
  by (induction ds) (simp_all add: help_code_def)

lemma asleep_codes:
  "asleep (login_answer c nm)" "asleep queue_full" "asleep not_admin" "asleep (command_code ac)" "asleep (handler_code v)"
  "asleep leave_code_of" "asleep (walk_body w t)" "asleep (walk_end w)"
  by (simp_all add: login_answer_def queue_full_def not_admin_def command_code_def handler_code_def leave_code_of_def
      walk_body_def walk_end_def asleep_help split: admin_command_code.split network_validation_code.split walk.split)

lemma send_to_only: "send_to E sk m st = ret st' \<Longrightarrow> \<exists>out. st' = st\<lparr>outbox := out\<rparr>"
  by (auto simp: send_to_def elim!: bindR_retE)

lemma exec_asleep:
  assumes "exec R i st = Some (ret (st', js))" and "broadcast_sem st = 0" and "\<not> broadcast_Paused st" and "\<not> wakes i"
  shows "broadcast_sem st' = 0 \<and> \<not> broadcast_Paused st' \<and> asleep js"
  using assms
  by (cases i)
    (auto simp: if_free_def clear_msg_def respond_def send_self_def mq_receive_def login_response_for_def handle_invalid_def
      Is_broadcast_paused_def Let_def asleep_codes
      dest!: send_to_only elim!: bindR_retE split: if_splits option.splits list.splits)

lemma waiting_stays: "waits_for_turn i \<Longrightarrow> broadcast_sem st = 0 \<Longrightarrow> exec R i st = None"
  by (cases i) simp_all

lemma thread_asleep:
  assumes "thread_step th st = Some (ret (st', th'))" and "asleep (to_do th)"
    and "broadcast_sem st = 0" and "\<not> broadcast_Paused st"
  shows "broadcast_sem st' = 0 \<and> \<not> broadcast_Paused st' \<and> asleep (to_do th')"
proof -
  obtain R i "is" js where code: "to_do th = i # is" and x: "exec R i st = Some (ret (st', js))" "to_do th' = js @ is"
    by (rule thread_stepE [OF assms(1)])
  have "exec R i st \<noteq> None" using x(1) by simp
  then have "\<not> waits_for_turn i" by (rule contrapos_nn) (rule waiting_stays [OF _ assms(3)])
  then have "\<not> wakes i" "asleep is" using assms(2) code by simp_all
  then show ?thesis using exec_asleep [OF x(1) assms(3,4)] asleep_append x(2) by auto
qed

lemma system_asleep:
  assumes "system_step k S = Some (ret S')" and "stands_still S"
  shows "stands_still S'"
proof -
  obtain st' th' where s: "k < length (snd S)" "thread_step (snd S ! k) (fst S) = Some (ret (st', th'))"
    "S' = (st', (snd S)[k := th'])"
    using assms(1) by (auto simp: system_step_def elim!: bindR_retE split: if_splits)
  have "asleep (to_do (snd S ! k))" using assms(2) s(1) by (auto simp: stands_still_def)
  from thread_asleep [OF s(2) this] have "broadcast_sem st' = 0 \<and> \<not> broadcast_Paused st' \<and> asleep (to_do th')"
    using assms(2) by (simp add: stands_still_def Is_broadcast_paused_def)
  then show ?thesis
    using assms(2) s(3) by (auto simp: stands_still_def Is_broadcast_paused_def dest!: set_update_subset_insert [THEN subsetD])
qed

lemma waiting_thread_stays:
  assumes "system_step k S = Some (ret S')" and "broadcast_sem (fst S) = 0" and "j < length (snd S)"
    and "to_do (snd S ! j) = i # is" and "waits_for_turn i"
  shows "j < length (snd S') \<and> snd S' ! j = snd S ! j"
proof -
  have "i \<noteq> I_Check" using assms(5) by auto
  then have "thread_step (snd S ! j) (fst S) = None"
    using waiting_stays [OF assms(5,2)] by (simp add: thread_step_plain [OF assms(4)] proceed_def del: exec.simps)
  then have "k \<noteq> j" using assms(1) by (auto simp: system_step_def split: if_splits)
  then show ?thesis using assms(1,3) by (auto simp: system_step_def elim!: bindR_retE split: if_splits)
qed

lemma still_for_ever:
  "run_schedule ks S = ret S' \<Longrightarrow> stands_still S \<Longrightarrow> j < length (snd S) \<Longrightarrow> to_do (snd S ! j) = i # is \<Longrightarrow> waits_for_turn i
    \<Longrightarrow> stands_still S' \<and> snd S' ! j = snd S ! j"
proof (induction ks arbitrary: S)
  case (Cons k ks)
  show ?case
  proof (cases "system_step k S")
    case None
    then show ?thesis using Cons by simp
  next
    case (Some r)
    then obtain T where T: "system_step k S = Some (ret T)" "run_schedule ks T = ret S'"
      using Cons.prems(1) by (auto elim!: bindR_retE)
    have "broadcast_sem (fst S) = 0" using Cons.prems(2) by (simp add: stands_still_def)
    from waiting_thread_stays [OF T(1) this Cons.prems(3-5)] system_asleep [OF T(1) Cons.prems(2)]
    show ?thesis using Cons.IH [OF T(2)] Cons.prems(4,5) by auto
  qed
qed simp

text \<open>C25: A pause that crosses a resume stops the chat for ever: when one thread waits for the semaphore in
  \<^verbatim>\<open>pause_broadcast\<close> while another is in \<^verbatim>\<open>resume_broadcast\<close>, the semaphore can end at 0 with the flag
  not set; then, whatever the clients send and in whatever order the threads run on, the agent never
  takes its turn, and the server never counts as paused, so that every \<^verbatim>\<open>/resume\<close> is refused.\<close>

theorem crossing_pause_stops_the_chat:
  assumes "to_do agent = [A_Wait]" and "to_do B = [I_Sem_wait, I_Set_paused, I_Respond tx, I_Lock Logged_In, I_Top]"
    and "to_do C = [I_Sem_post, I_Unset_paused, I_Top]" and "broadcast_sem st = 0"
    and "\<forall>th \<in> set ths. asleep (to_do th)"
    and "run_schedule ([2, 1, 1, 2] @ ks) (st, agent # B # C # ths) = ret (st', ths')"
  shows "ths' ! 0 = agent \<and> broadcast_sem st' = 0 \<and> \<not> Is_broadcast_paused st'"
proof -
  let ?s1 = "st\<lparr>broadcast_sem := 1\<rparr>" and ?s2 = "st\<lparr>broadcast_Paused := True\<rparr>" and ?s3 = "st\<lparr>broadcast_Paused := False\<rparr>"
  let ?B = "\<lambda>code. B\<lparr>to_do := code @ [I_Respond tx, I_Lock Logged_In, I_Top]\<rparr>" and ?C = "\<lambda>code. C\<lparr>to_do := code @ [I_Top]\<rparr>"
  have same: "st\<lparr>broadcast_sem := 0\<rparr> = st" using assms(4) by simp
  have 1: "thread_step C st = Some (ret (?s1, ?C [I_Unset_paused]))" using assms(3,4) by (simp add: step_defs)
  have 2: "thread_step B ?s1 = Some (ret (st, ?B [I_Set_paused]))" using assms(2) same by (simp add: step_defs)
  have 3: "thread_step (?B [I_Set_paused]) st = Some (ret (?s2, ?B []))" by (simp add: step_defs)
  have 4: "thread_step (?C [I_Unset_paused]) ?s2 = Some (ret (?s3, ?C []))" by (simp add: step_defs)
  have "run_schedule ([2, 1, 1, 2] @ ks) (st, agent # B # C # ths) = run_schedule ks (?s3, agent # ?B [] # ?C [] # ths)"
    using 1 2 3 4 by (simp add: system_step_def numeral_2_eq_2)
  then have run: "run_schedule ks (?s3, agent # ?B [] # ?C [] # ths) = ret (st', ths')" using assms(6) by simp
  have "stands_still (?s3, agent # ?B [] # ?C [] # ths)"
    using assms(1,4,5) by (simp add: stands_still_def Is_broadcast_paused_def)
  from still_for_ever [OF run this, of 0 A_Wait "[]"] assms(1) show ?thesis by (simp add: stands_still_def)
qed

theorem crossing_pause_stops_the_chat_witness:
  "\<exists>st' ths'. run_schedule ([2, 1, 1, 2] @ [0, 2, 0]) ((example_server 2)\<lparr>broadcast_sem := 0, broadcast_Paused := True\<rparr>,
      [example_thread [A_Wait], example_thread [I_Sem_wait, I_Set_paused, I_Respond [], I_Lock Logged_In, I_Top],
        example_thread [I_Sem_post, I_Unset_paused, I_Top]]) = ret (st', ths')
    \<and> to_do (ths' ! 0) = [A_Wait] \<and> broadcast_sem st' = 0 \<and> \<not> Is_broadcast_paused st'"
proof -
  let ?st = "(example_server 2)\<lparr>broadcast_sem := 0, broadcast_Paused := True\<rparr>"
  let ?ths = "[example_thread [A_Wait], example_thread [I_Sem_wait, I_Set_paused, I_Respond [], I_Lock Logged_In, I_Top],
        example_thread [I_Sem_post, I_Unset_paused, I_Top]]"
  have "user_sock (Some 2) example_room = ret 6" by code_simp
  then have "\<exists>st' ths'. run_schedule ([2, 1, 1, 2] @ [0, 2, 0]) (?st, ?ths) = ret (st', ths')"
    by (simp add: system_step_def step_defs numeral_2_eq_2 self_sock_def clear_msg_def example_server_def)
  then obtain st' ths' where run: "run_schedule ([2, 1, 1, 2] @ [0, 2, 0]) (?st, ?ths) = ret (st', ths')" by blast
  have "ths' ! 0 = ?ths ! 0 \<and> broadcast_sem st' = 0 \<and> \<not> Is_broadcast_paused st'"
    using crossing_pause_stops_the_chat [OF _ _ _ _ _ run] by simp
  with run show ?thesis by (intro exI conjI) (assumption, simp_all)
qed

end
