(* ===== verification/Spec2Isabelle.thy ===== *)
theory Spec2Isabelle
  imports Network Users Commands Broadcast Logger Log_Macros Client Client_Behaviour Client_Login Client_Faults Client_End
    Client_Safety Chat_Server Connection Application Application_Behaviour Application_Start Application_End
    Chat_Spec Chat_Refinement Chat_Theorems
    Threads Threads_Types Threads_Mutex Threads_Rounds Threads_Safety Threads_Interleaving Threads_Chat
    Threads_Races
begin

text \<open>
  A verification library of the chat server under \<^verbatim>\<open>src/src\<close>, a multi-threaded C program: one thread
  accepts connections, one thread per connection serves a client, and one thread, the broadcast
  agent, takes messages from a POSIX message queue and sends them to every user that is logged in.

  \<^bold>\<open>The parts and their theories.\<close>

  \<^item> \<^verbatim>\<open>Chat_Prelude\<close>: results of C functions. A run gives a value, a fault (a read or write out of
    bounds, a null or dangling pointer, an uninitialised read, a mutex that can never be taken, an
    overflow of a signed integer), or nothing when a recursion over pointers does not end.
    \<^verbatim>\<open>CLib\<close>: buffers as byte lists, with the string functions, the character classes and the number
    formats of the C library that the program calls.
    \<^verbatim>\<open>Byte_Order\<close>: the bytes of an integer in memory on either kind of host, and \<^verbatim>\<open>htons\<close> and its
    relatives, with the locale \<open>net_order\<close> for what a conversion to network order promises.
  \<^item> \<^verbatim>\<open>Util\<close> (\<^verbatim>\<open>core/util.c\<close>): 64-bit conversions, the check of names, the hex dump.
  \<^item> \<^verbatim>\<open>Wire\<close> (\<^verbatim>\<open>network/network.h\<close>): the codes, the packed layout of \<^verbatim>\<open>CombinedMessage\<close> as offsets, and an
    abstract type of the messages a client can see with its encoding, as the specification of the frames.
  \<^item> \<^verbatim>\<open>Network\<close> (\<^verbatim>\<open>network/network.c\<close>): receiving with its validation, sending, and the functions that
    build messages.
  \<^item> \<^verbatim>\<open>DLL\<close>: doubly linked lists in a heap of nodes, shared by the users and the thread names of the
    logger, with the locale \<open>registry\<close> for a keyed list. \<^verbatim>\<open>Users\<close> (\<^verbatim>\<open>user.c\<close>, \<^verbatim>\<open>user.h\<close>): the list of
    users with its mutex, its operations, and the macro that iterates over it, with the locale
    \<open>user_access\<close> for a state that contains the list.
  \<^item> \<^verbatim>\<open>Commands\<close> (\<^verbatim>\<open>application.c\<close>, \<^verbatim>\<open>application.h\<close>): the configuration, the table of the
    administrator's commands and how a text is recognised as one.
  \<^item> \<^verbatim>\<open>Broadcast\<close> (\<^verbatim>\<open>network/broadcastagent.c\<close>): the queue, pausing, and the agent as a machine whose
    step goes from one blocking call of its loop to the next. The locale \<open>bounded_fifo\<close> is the
    contract of the queue. Two kinds of runs: \<open>broadcast_run\<close>, where the agent's receive succeeds and a
    pause or resume is one step, and \<open>agent_run\<close>, where pause and resume go call by call over the
    semaphore and the flag, and a receive may fail.
  \<^item> \<^verbatim>\<open>Logger\<close> (\<^verbatim>\<open>core/logger.c\<close>, \<^verbatim>\<open>core/logger.h\<close>): message buffer, files, names of threads, formats,
    levels. The file system is a map from file names to contents. \<^verbatim>\<open>Log_Macros\<close> (\<^verbatim>\<open>core/logger.h\<close>): the macros the rest
    logs with, for every setting of \<^verbatim>\<open>LOG_LEVEL_ENABLED\<close>.
  \<^item> \<^verbatim>\<open>Client\<close> (\<^verbatim>\<open>clientthread.c\<close>): the handlers of a client's messages, a round of its loop, the thread's
    start and end. The variables the source declares globally are fields of the one \<open>server_state\<close>,
    so all client threads share them, as they do in the program.
  \<^item> \<^verbatim>\<open>Connection\<close> (\<^verbatim>\<open>network/connectionhandler.c\<close>): the listening socket and the accept loop, with the
    system calls recorded in order.
  \<^item> \<^verbatim>\<open>Application\<close> (\<^verbatim>\<open>application.c\<close>, \<^verbatim>\<open>main.c\<close>): the command line, start, run, end, the interrupt, \<^verbatim>\<open>main\<close>.

  \<^item> \<^verbatim>\<open>Threads\<close> (\<^verbatim>\<open>clientthread.c\<close>, \<^verbatim>\<open>network/broadcastagent.c\<close>, \<^verbatim>\<open>user.c\<close>): the same threads call by
    call. A thread is a list of instructions, one for each call that reads or writes what the threads
    share, with \<open>exec\<close> for what an instruction does and what it puts in front of the rest; an instruction
    that has to wait is not executed. A system is a state and any number of threads, and a schedule
    says which one is offered the next step.

  \<^bold>\<open>What the lemmas show.\<close>

  \<^item> Each message the server sends is the frame of an abstract message, for hosts of both byte
    orders (\<^verbatim>\<open>Network\<close>), and what is received is classified as stated, with the lengths for which
    the C code stays inside its buffers and those for which it does not.
  \<^item> The user list is well formed after any sequence of operations and its mutex free (\<^verbatim>\<open>Users\<close>); the
    logger does not fail on any sequence of its functions, under the conditions of each call that its
    theory names, and what was output is in the files in order (\<^verbatim>\<open>Logger\<close>); queue, semaphore and agent keep
    the order of messages in any interleaving of their calls, with a repetition only where a receive failed,
    and nothing is delivered while the chat is paused, except between the two calls of a resume (\<^verbatim>\<open>Broadcast\<close>).
  \<^item> \<^verbatim>\<open>Client_Behaviour\<close>, \<^verbatim>\<open>Client_Login\<close>, \<^verbatim>\<open>Client_End\<close>: the whole effect of a round on every kind of
    message: chat texts, commands and who may give them, pausing, kicking, logins accepted and
    refused, and the end of a connection.
  \<^item> \<^verbatim>\<open>Client_Safety\<close>: any sequence of honest messages of one client leaves the server well formed, and the
    thread comes to its end when the connection does. A message is honest when its body has the announced
    length, at most 511 bytes, and moreover the name of a login at most 30 bytes and no zero, a command no
    zero, and a kick a name of 1 to 30 bytes; everything the later theories say of whole runs is about such messages. What is left out
    does fail: \<^verbatim>\<open>Client_Faults\<close> shows that a login name of 31 bytes, which the receiver accepts, and a kick
    without a name or with a longer one end the round in a fault, and \<^verbatim>\<open>Network\<close> the same of longer bodies.
    \<^verbatim>\<open>Chat_Server\<close>: rounds of client threads, connections and
    steps of the agent composed; a text or login reaches every user; and what goes wrong with a
    second connection, because of the shared variables.
  \<^item> \<^verbatim>\<open>Application_Behaviour\<close>, \<^verbatim>\<open>Application_Start\<close>, \<^verbatim>\<open>Application_End\<close>: from the command line to a
    server that accepts connections and serves them, the exit codes, and the interrupt.

  \<^item> \<^verbatim>\<open>Chat_Spec\<close> states the chat without memory and bytes: members, messages on their way, and what each
    request does, as functions. \<^verbatim>\<open>Chat_Refinement\<close> relates it to the server's state by a simulation and
    shows for every event that the server does what the chat does and sends the frames of its
    messages. \<^verbatim>\<open>Chat_Theorems\<close> puts this on the started server, for runs of any length, and moves an
    invariant of the chat, the uniqueness of names, to the users in memory.
  \<^item> \<^verbatim>\<open>Threads_Rounds\<close>: a client's thread executed instruction by instruction with nothing else running
    does what the functions of \<^verbatim>\<open>Client\<close> do. \<^verbatim>\<open>Threads_Safety\<close>, \<^verbatim>\<open>Threads_Interleaving\<close>: one client beside
    the agent, with honest messages and in any schedule: nothing fails, the thread can always be brought to its return and does
    return when both are scheduled for ever (a schedule is fair when each of the two has infinitely many
    turns; a well-founded order on what is left to do gives the end, without a bound on the schedule),
    and its rounds are atomic: the state is that of whole rounds and whole agent steps in some order, and
    what was sent is an interleaving of what the rounds send and the agent's own sends. \<^verbatim>\<open>Threads_Chat\<close> joins the two levels: after any schedule the users in memory
    are the members of the chat of \<^verbatim>\<open>Chat_Spec\<close> after the client's stay. For any number of threads in any schedule, \<^verbatim>\<open>Threads_Types\<close> shows the sizes of the shared
    buffers, and \<^verbatim>\<open>Threads_Mutex\<close> that iterations over the users exclude each other and every change of
    the list, and that the queue keeps its order.
    \<^verbatim>\<open>Threads_Races\<close>: what goes wrong between the threads of several clients.

  \<^bold>\<open>Arguments of the model.\<close> What the system answers is an argument of the definitions: the bytes a
  read gives or its failure, whether \<^verbatim>\<open>malloc\<close>, \<^verbatim>\<open>mq_send\<close>, \<^verbatim>\<open>bind\<close>, \<^verbatim>\<open>rename\<close> and the others succeed,
  the clock, the entries of a directory, the results of \<^verbatim>\<open>getopt_long\<close>. New memory is an address that
  is not in use. Sent bytes are appended to an output with the socket they go to.

  \<^bold>\<open>Termination.\<close> Loops over arrays and strings are recursions on lists. The loops over list nodes
  are partial functions over the heap, and they end on well-formed lists, which the operations keep.
  The loop of a client thread is a recursion over the rounds that arrive, and the accept loop one
  over the connections; no fuel is used.

  \<^bold>\<open>Not modelled.\<close> The interleaving is one of calls: two threads inside the calls of different
  functions on the same variable, and a call that goes on using a pointer read before another thread
  replaced it, are not covered, nor are the accept loop and the logger's own mutex between the
  instructions, or a failing \<^verbatim>\<open>mq_receive\<close> there (\<^verbatim>\<open>Broadcast\<close> has it).

  \<^bold>\<open>Where the model is kinder than the system.\<close> The memory of \<^verbatim>\<open>msg\<close> and \<^verbatim>\<open>msg_length\<close> is always
  there: their \<^verbatim>\<open>malloc\<close> succeeds, and the \<^verbatim>\<open>free\<close> at the end of a thread is not modelled.
  \<^verbatim>\<open>network_Send\<close> gives its failure value when the socket takes no bytes, while the source, which sends
  without \<^verbatim>\<open>MSG_NOSIGNAL\<close> and has no handler for \<^verbatim>\<open>SIGPIPE\<close>, may lose the whole process to the signal when
  the other side is gone. The \<^verbatim>\<open>strcpy\<close> of \<^verbatim>\<open>build_login_response\<close> is checked against the 555 bytes of the
  message, so that the terminator of a server name of 31 characters, which falls on the byte behind the
  member \<^verbatim>\<open>name\<close>, is a written byte and not a fault. \<^verbatim>\<open>broadcast_agent_init\<close> creates the agent's thread
  before it initialises the semaphore; the model does both at once, so that the agent never waits on the
  semaphore before that. A queue that an earlier server left keeps its messages, and its limit is taken
  to be the ten of this server.

  The calls of the logging macros are part of the
  definitions only in \<^verbatim>\<open>application.c\<close> and the logger itself; elsewhere they are left out, apart from
  \<^verbatim>\<open>Print_message_Info\<close>, whose reads of the message are kept, and the registration of a client's
  log file. Headers with prototypes only, \<^verbatim>\<open>perror\<close>, the text that is commented out in
  \<^verbatim>\<open>connectionhandler.c\<close>, and the type \<^verbatim>\<open>network_message\<close> and the signed and floating point types of
  \<^verbatim>\<open>defines.h\<close>, which nothing uses or which are integers here, have no definitions, and
  \<^verbatim>\<open>CMakeCCompilerId.c\<close> is generated by the build system.
\<close>

end
